(* ===== verification/Prelude.thy ===== *)
theory Prelude
  imports Main "HOL-Library.Word" "HOL-Library.Multiset"
begin

text \<open>
  Shared vocabulary of the development: the outcome of a piece of C++ code that may
  abort, the sequencing of such outcomes, byte buffers with indeterminate content, and
  the C library functions the sources apply to buffers (\<^verbatim>\<open>memcmp\<close>, \<^verbatim>\<open>memcpy\<close>,
  NUL-terminated strings).
\<close>

section \<open>Outcomes\<close>

text \<open>
  Ways a process stops other than by returning: an \<^verbatim>\<open>assert\<close> that fails (the build files
  never define \<^verbatim>\<open>NDEBUG\<close>), a null or dangling pointer that is dereferenced, a write past
  the end of a local array, a read past the end of one, a loop that never ends, an \<^verbatim>\<open>execl\<close>
  that puts another program in its place, an SSL object that is null where OpenSSL
  dereferences it, one whose BIO has already been freed, and a SIGPIPE left at its default
  action.
\<close>

datatype crash =
  AssertFailed | NullDeref | UseAfterFree | BufferOverflow | OutOfBounds | Diverges | Replaced |
  SslNull | DoubleFree | BrokenPipe

type_synonym 'a outcome = "crash + 'a"

fun andThen :: "'a outcome \<Rightarrow> ('a \<Rightarrow> 'b outcome) \<Rightarrow> 'b outcome" where
  "andThen (Inl e) f = Inl e"
| "andThen (Inr x) f = f x"

definition guarded :: "bool \<Rightarrow> crash \<Rightarrow> 'a outcome \<Rightarrow> 'a outcome" where
  "guarded b e m = (if b then m else Inl e)"

named_theorems outcome_simps "inversion of sequenced outcomes"

lemma andThen_eq_Inr [outcome_simps]:
  "andThen m f = Inr y \<longleftrightarrow> (\<exists>x. m = Inr x \<and> f x = Inr y)"
  by (cases m) auto

lemma andThen_eq_Inl [outcome_simps]:
  "andThen m f = Inl e \<longleftrightarrow> m = Inl e \<or> (\<exists>x. m = Inr x \<and> f x = Inl e)"
  by (cases m) auto

lemma andThen_assoc: "andThen (andThen m f) g = andThen m (\<lambda>x. andThen (f x) g)"
  by (cases m) auto

lemma andThen_cong [fundef_cong]:
  "m = m' \<Longrightarrow> (\<And>x. m' = Inr x \<Longrightarrow> f x = g x) \<Longrightarrow> andThen m f = andThen m' g"
  by (cases m') auto

lemma guarded_eq_Inr [outcome_simps]: "guarded b e m = Inr y \<longleftrightarrow> b \<and> m = Inr y"
  by (auto simp: guarded_def)

lemma guarded_True [simp]: "guarded True e m = m"
  by (simp add: guarded_def)

lemma guarded_False [simp]: "guarded False e m = Inl e"
  by (simp add: guarded_def)

text \<open>
  \<open>sat E P m\<close>: the code \<open>m\<close> ends in one of the crashes \<open>E\<close>, or returns a result with \<open>P\<close>. The
  rules compose such facts along a sequence.
\<close>

definition sat :: "crash set \<Rightarrow> ('a \<Rightarrow> bool) \<Rightarrow> 'a outcome \<Rightarrow> bool" where
  "sat E P m = (case m of Inl e \<Rightarrow> e \<in> E | Inr x \<Rightarrow> P x)"

lemma sat_simps [simp]: "sat E P (Inl e) = (e \<in> E)" "sat E P (Inr x) = P x"
  by (simp_all add: sat_def)

lemma sat_andThen:
  assumes "sat E Q m" "\<And>x. Q x \<Longrightarrow> sat E P (f x)"
  shows "sat E P (andThen m f)"
  using assms by (cases m) auto

lemma sat_mono: "sat E Q m \<Longrightarrow> E \<subseteq> F \<Longrightarrow> (\<And>x. Q x \<Longrightarrow> P x) \<Longrightarrow> sat F P m"
  by (cases m) auto

lemma satI: "\<exists>x. m = Inr x \<and> P x \<Longrightarrow> sat E P m"
  by auto

lemma sat_InrD: "sat E P m \<Longrightarrow> m = Inr x \<Longrightarrow> P x"
  by simp

lemma sat_emptyD: "sat {} P m \<Longrightarrow> \<exists>x. m = Inr x \<and> P x"
  by (cases m) auto

section \<open>Byte buffers and C strings\<close>

abbreviation NUL :: char where "NUL \<equiv> CHR 0x00"
abbreviation NL :: char where "NL \<equiv> CHR 0x0A"

text \<open>
  A local array of \<open>n\<close> bytes that holds \<open>bs\<close> at its front: the rest keeps what the array
  held before.
\<close>

definition overlay :: "char list \<Rightarrow> char list \<Rightarrow> char list" where
  "overlay bs buf = bs @ drop (length bs) buf"

lemma length_overlay [simp]: "length bs \<le> length buf \<Longrightarrow> length (overlay bs buf) = length buf"
  by (simp add: overlay_def)

lemma overlay_Nil [simp]: "overlay [] buf = buf"
  by (simp add: overlay_def)

lemma take_overlay [simp]: "n \<le> length bs \<Longrightarrow> take n (overlay bs buf) = take n bs"
  by (simp add: overlay_def)

lemma nth_overlay: "i < length bs \<Longrightarrow> overlay bs buf ! i = bs ! i"
  by (simp add: overlay_def nth_append)

text \<open>
  \<^verbatim>\<open>memcmp(buf, key, strlen(key)) == 0\<close> for a literal \<open>key\<close>: the first bytes of the buffer
  are the key.
\<close>

definition memeq :: "char list \<Rightarrow> string \<Rightarrow> bool" where
  "memeq buf key \<longleftrightarrow> take (length key) buf = key"

text \<open>The \<^verbatim>\<open>std::string\<close> built from a pointer into a buffer: the bytes up to the first NUL.\<close>

definition cstr :: "char list \<Rightarrow> string" where
  "cstr buf = takeWhile (\<lambda>c. c \<noteq> NUL) buf"

lemma cstr_append_NUL [simp]: "NUL \<notin> set xs \<Longrightarrow> cstr (xs @ NUL # ys) = xs"
  by (induction xs) (auto simp: cstr_def)

lemma cstr_no_NUL: "NUL \<notin> set (cstr xs)"
  by (auto simp: cstr_def dest: set_takeWhileD)

lemma memeq_self_append [simp]: "memeq (key @ xs) key"
  by (simp add: memeq_def)

lemma memeqD: "memeq buf key \<Longrightarrow> buf = key @ drop (length key) buf"
  by (metis append_take_drop_id memeq_def)

lemma memeq_length: "memeq buf key \<Longrightarrow> length key \<le> length buf"
  by (metis memeq_def length_take min.cobounded1)

lemma memeq_overlay: "length key \<le> length bs \<Longrightarrow> memeq (overlay bs buf) key = memeq bs key"
  by (simp add: memeq_def)

text \<open>A literal without NUL never matches across the terminator of a shorter C string.\<close>

lemma memeq_terminated:
  assumes "NUL \<notin> set key"
  shows "memeq (xs @ NUL # ys) key = memeq xs key"
proof (cases "length key \<le> length xs")
  case True
  then show ?thesis by (simp add: memeq_def)
next
  case False
  then have "take (length key) (xs @ NUL # ys) = xs @ NUL # take (length key - length xs - 1) ys"
    by (cases "length key - length xs") auto
  moreover have "length (take (length key) xs) < length key"
    using False by simp
  ultimately show ?thesis
    using assms unfolding memeq_def by (metis in_set_conv_decomp less_irrefl)
qed

end
