(* ===== verification/AppConfig.thy ===== *)
theory AppConfig
  imports Prelude
begin

text \<open>
  The class \<^verbatim>\<open>ApplicationConfigImpl\<close> of \<^verbatim>\<open>ApplicationConfig.cpp\<close>: its fields, the setters,
  the reader of one \<^verbatim>\<open>NAME=VALUE\<close> line and the reader of the command line.
\<close>

section \<open>State\<close>

datatype ApplicationType = LISTENER | DISPATCHER

record ApplicationConfig =
  applicationType :: ApplicationType
  ok :: bool
  caFile :: string
  certFile :: string
  keyFile :: string
  dispPath :: string

definition createConfig :: "ApplicationType \<Rightarrow> ApplicationConfig" where
  "createConfig t =
     \<lparr>applicationType = t, ok = False, caFile = [], certFile = [], keyFile = [], dispPath = []\<rparr>"

definition setCaFile :: "string \<Rightarrow> ApplicationConfig \<Rightarrow> ApplicationConfig" where
  "setCaFile v c = c\<lparr>caFile := v\<rparr>"

definition setCertFile :: "string \<Rightarrow> ApplicationConfig \<Rightarrow> ApplicationConfig" where
  "setCertFile v c = c\<lparr>certFile := v\<rparr>"

definition setKeyFile :: "string \<Rightarrow> ApplicationConfig \<Rightarrow> ApplicationConfig" where
  "setKeyFile v c = c\<lparr>keyFile := v\<rparr>"

section \<open>One configuration line\<close>

text \<open>
  \<open>configLine\<close> is the whole buffer the pointer points into: \<^verbatim>\<open>memcmp\<close> compares its first
  bytes, and the value is the C string that starts after the key.
\<close>

definition retrieveConfigOption :: "char list \<Rightarrow> ApplicationConfig \<Rightarrow> ApplicationConfig" where
  "retrieveConfigOption configLine c =
     (if memeq configLine ''CONFIGPPID='' then c
      else if memeq configLine ''CAFILE='' then setCaFile (cstr (drop 7 configLine)) c
      else if memeq configLine ''CERTFILE='' then setCertFile (cstr (drop 9 configLine)) c
      else if memeq configLine ''KEYFILE='' then setKeyFile (cstr (drop 8 configLine)) c
      else c)"

section \<open>The command line\<close>

text \<open>
  \<^verbatim>\<open>getopt\<close> is the C library's: the model takes the sequence of results it returns for the
  option string (each the option character and \<^verbatim>\<open>optarg\<close>), up to the final \<open>-1\<close>, as the
  argument \<open>getopt\<close>. An unknown option comes back as \<^verbatim>\<open>?\<close>.
\<close>

fun optionString :: "ApplicationType \<Rightarrow> string" where
  "optionString LISTENER = ''a:c:k:''"
| "optionString DISPATCHER = ''p:a:c:k:''"

fun readOptions :: "(char \<times> string) list \<Rightarrow> ApplicationConfig \<Rightarrow> ApplicationConfig" where
  "readOptions [] c = c"
| "readOptions ((opt, optarg) # rest) c =
     (if opt = CHR ''a'' then readOptions rest (c\<lparr>caFile := optarg\<rparr>)
      else if opt = CHR ''c'' then readOptions rest (c\<lparr>certFile := optarg\<rparr>)
      else if opt = CHR ''k'' then readOptions rest (c\<lparr>keyFile := optarg\<rparr>)
      else if opt = CHR ''p'' then readOptions rest (c\<lparr>dispPath := optarg\<rparr>)
      else c)"

definition checkConfig :: "ApplicationConfig \<Rightarrow> ApplicationConfig" where
  "checkConfig c =
     (let c1 = c\<lparr>ok := True\<rparr>;
          c2 = (if caFile c1 = [] \<or> certFile c1 = [] \<or> keyFile c1 = [] then c1\<lparr>ok := False\<rparr> else c1)
      in if applicationType c2 = DISPATCHER
         then (if dispPath c2 = [] then c2\<lparr>ok := False\<rparr> else c2)
         else c2)"

definition readCommandArguments ::
    "(string \<Rightarrow> (char \<times> string) list) \<Rightarrow> ApplicationConfig \<Rightarrow> ApplicationConfig" where
  "readCommandArguments getopt c =
     checkConfig (readOptions (getopt (optionString (applicationType c))) c)"

definition createConfigArgs ::
    "(string \<Rightarrow> (char \<times> string) list) \<Rightarrow> ApplicationType \<Rightarrow> ApplicationConfig" where
  "createConfigArgs getopt t = readCommandArguments getopt (createConfig t)"

section \<open>What a command line configures\<close>

text \<open>The options up to the first unknown one, and the last argument given for an option.\<close>

definition acceptedOptions :: "(char \<times> string) list \<Rightarrow> (char \<times> string) list" where
  "acceptedOptions os = takeWhile (\<lambda>(opt, arg). opt \<in> set ''ackp'') os"

definition lastArgument :: "char \<Rightarrow> (char \<times> string) list \<Rightarrow> string \<Rightarrow> string" where
  "lastArgument opt os d = fold (\<lambda>(o', arg) v. if o' = opt then arg else v) os d"

lemma readOptions_fields:
  "caFile (readOptions os c) = lastArgument CHR ''a'' (acceptedOptions os) (caFile c)"
  "certFile (readOptions os c) = lastArgument CHR ''c'' (acceptedOptions os) (certFile c)"
  "keyFile (readOptions os c) = lastArgument CHR ''k'' (acceptedOptions os) (keyFile c)"
  "dispPath (readOptions os c) = lastArgument CHR ''p'' (acceptedOptions os) (dispPath c)"
  "applicationType (readOptions os c) = applicationType c"
  by (induction os c rule: readOptions.induct) (auto simp: acceptedOptions_def lastArgument_def)

lemma checkConfig_fields:
  "checkConfig c = c\<lparr>ok := caFile c \<noteq> [] \<and> certFile c \<noteq> [] \<and> keyFile c \<noteq> [] \<and>
     (applicationType c = DISPATCHER \<longrightarrow> dispPath c \<noteq> [])\<rparr>"
  by (auto simp: checkConfig_def Let_def)

text \<open>
  C32. The command line: each field is the last argument given for its option before the first
  unknown one, and the configuration is good exactly when the three file names, and for a
  dispatcher its path, are there.
\<close>

theorem createConfigArgs_spec:
  "createConfigArgs getopt t =
    (let os = acceptedOptions (getopt (optionString t));
         ca = lastArgument CHR ''a'' os []; cert = lastArgument CHR ''c'' os [];
         key = lastArgument CHR ''k'' os []; disp = lastArgument CHR ''p'' os []
     in \<lparr>applicationType = t,
         ok = ([] \<notin> {ca, cert, key} \<and> (if t = DISPATCHER then disp \<noteq> [] else True)),
         caFile = ca, certFile = cert, keyFile = key, dispPath = disp\<rparr>)"
  unfolding createConfigArgs_def readCommandArguments_def checkConfig_fields
  by (rule ApplicationConfig.equality)
    (auto simp: readOptions_fields createConfig_def Let_def)

end
