(* ===== verification/SocketObj.thy ===== *)
theory SocketObj
  imports Prelude
begin

text \<open>
  The class \<^verbatim>\<open>Socket\<close> of \<^verbatim>\<open>Socket.h\<close> and the classes derived from it: the object a
  \<^verbatim>\<open>Socket::Ptr\<close> points to, with its constructors and its inline methods. The address of
  an object, its owners and its destructor are in theory \<open>SharedPtr\<close>.
\<close>

unbundle bit_operations_syntax

section \<open>Poll bits\<close>

text \<open>The event bits of \<^verbatim>\<open>poll.h\<close>, as the \<^verbatim>\<open>short\<close> values the code masks with.\<close>

type_synonym short = "16 word"

definition POLLIN :: short where "POLLIN = 0x0001"
definition POLLOUT :: short where "POLLOUT = 0x0004"
definition POLLERR :: short where "POLLERR = 0x0008"
definition POLLHUP :: short where "POLLHUP = 0x0010"
definition POLLNVAL :: short where "POLLNVAL = 0x0020"
definition POLLRDHUP :: short where "POLLRDHUP = 0x2000"

lemmas poll_bits = POLLIN_def POLLOUT_def POLLERR_def POLLHUP_def POLLNVAL_def POLLRDHUP_def

section \<open>The object\<close>

datatype SocketType = TCP | SSL | UNIX | UNKNOWN

datatype ClientStatus = HELLO | BYE | ECHO | NO_STATUS

text \<open>
  OpenSSL objects are opaque: the code holds pointers to them, here the numbers the library
  hands out, with \<open>0\<close> for the null pointer.
\<close>

type_synonym handle = nat

text \<open>The dynamic class of an object, with the fields the derived classes add.\<close>

datatype socketClass =
    PlainSocket
  | TcpSocket
  | UnixSocket
  | SslSocket (sslBio: handle) (sslSsl: handle)
  | SslClientSocket (sslBio: handle) (sslSsl: handle)
  | UnixListenerSocket string
  | TcpListenerSocket
  | TcpSslListenerSocket handle

record sock =
  dynClass :: socketClass
  protectDescriptor :: bool
  descriptor :: int
  events :: short
  revents :: short
  socketType :: SocketType
  listenSocket :: bool
  clientStatus :: ClientStatus

definition FREE_SOCKET :: int where "FREE_SOCKET = -1"
definition NO_EVENTS :: short where "NO_EVENTS = 0"

text \<open>\<^verbatim>\<open>Socket::Socket\<close> asserts that the descriptor is not \<^verbatim>\<open>FREE_SOCKET\<close>.\<close>

definition newSocket :: "socketClass \<Rightarrow> int \<Rightarrow> SocketType \<Rightarrow> bool \<Rightarrow> sock outcome" where
  "newSocket cls fd t listens =
     guarded (fd \<noteq> FREE_SOCKET) AssertFailed
       (Inr \<lparr>dynClass = cls, protectDescriptor = False, descriptor = fd, events = NO_EVENTS,
             revents = NO_EVENTS, socketType = t, listenSocket = listens,
             clientStatus = NO_STATUS\<rparr>)"

text \<open>The constructors of the derived classes that only pass their arguments on.\<close>

definition newUnixSocket :: "int \<Rightarrow> sock outcome" where
  [simp]: "newUnixSocket fd = newSocket UnixSocket fd UNIX False"

definition newUnixListenerSocket :: "int \<Rightarrow> string \<Rightarrow> sock outcome" where
  [simp]: "newUnixListenerSocket fd path = newSocket (UnixListenerSocket path) fd UNIX True"

definition newTcpSocket :: "int \<Rightarrow> sock outcome" where
  [simp]: "newTcpSocket fd = newSocket TcpSocket fd TCP False"

definition newTcpListenerSocket :: "int \<Rightarrow> sock outcome" where
  [simp]: "newTcpListenerSocket fd = newSocket TcpListenerSocket fd TCP True"

definition newTcpSslListenerSocket :: "int \<Rightarrow> handle \<Rightarrow> sock outcome" where
  [simp]: "newTcpSslListenerSocket fd ctx = newSocket (TcpSslListenerSocket ctx) fd TCP True"

section \<open>Methods\<close>

definition setEvents :: "short \<Rightarrow> sock \<Rightarrow> sock" where
  "setEvents e s = s\<lparr>events := e\<rparr>"

definition pollForRead :: "sock \<Rightarrow> sock" where
  "pollForRead s = s\<lparr>events := events s OR POLLIN\<rparr>"

definition pollForWrite :: "sock \<Rightarrow> sock" where
  "pollForWrite s = s\<lparr>events := events s OR POLLOUT\<rparr>"

definition setRevents :: "short \<Rightarrow> sock \<Rightarrow> sock" where
  "setRevents r s = s\<lparr>revents := r\<rparr>"

definition setClientStatus :: "ClientStatus \<Rightarrow> sock \<Rightarrow> sock" where
  "setClientStatus st s = s\<lparr>clientStatus := st\<rparr>"

definition doProtectDescriptor :: "sock \<Rightarrow> sock" where
  "doProtectDescriptor s = s\<lparr>protectDescriptor := True\<rparr>"

definition isReadAvailable :: "sock \<Rightarrow> bool" where
  "isReadAvailable s \<longleftrightarrow> revents s AND POLLIN \<noteq> 0"

definition isWriteAvailable :: "sock \<Rightarrow> bool" where
  "isWriteAvailable s \<longleftrightarrow> revents s AND POLLOUT \<noteq> 0"

definition isDropped :: "sock \<Rightarrow> bool" where
  "isDropped s \<longleftrightarrow>
     revents s AND POLLERR \<noteq> 0 \<or> revents s AND POLLHUP \<noteq> 0 \<or>
     revents s AND POLLNVAL \<noteq> 0 \<or> revents s AND POLLRDHUP \<noteq> 0"

text \<open>\<^verbatim>\<open>dynamic_cast<SslSocket*>\<close>: the BIO of an \<^verbatim>\<open>SslSocket\<close> or of a class derived from it.\<close>

fun castSslSocket :: "socketClass \<Rightarrow> handle option" where
  "castSslSocket (SslSocket b s) = Some b"
| "castSslSocket (SslClientSocket b s) = Some b"
| "castSslSocket _ = None"

named_theorems sock_defs "the methods that change one field of a socket"

lemmas sock_methods [sock_defs] =
  setEvents_def pollForRead_def pollForWrite_def setRevents_def setClientStatus_def
  doProtectDescriptor_def

section \<open>Facts\<close>

lemma newSocket_Inr [outcome_simps]:
  "newSocket cls fd t l = Inr s \<longleftrightarrow>
     fd \<noteq> -1 \<and>
     s = \<lparr>dynClass = cls, protectDescriptor = False, descriptor = fd, events = 0, revents = 0,
          socketType = t, listenSocket = l, clientStatus = NO_STATUS\<rparr>"
  by (auto simp: newSocket_def outcome_simps FREE_SOCKET_def NO_EVENTS_def)

text \<open>The request bits survive each other: asking for reads never withdraws a request to write.\<close>

lemma pollFor_bits [simp]:
  "events (pollForRead s) AND POLLIN = POLLIN"
  "events (pollForWrite s) AND POLLOUT = POLLOUT"
  "events (pollForRead s) AND POLLOUT = events s AND POLLOUT"
  "events (pollForWrite s) AND POLLIN = events s AND POLLIN"
  by (simp_all add: sock_defs poll_bits bit.conj_disj_distrib2)

lemma setRevents_POLLOUT [simp]:
  "isWriteAvailable (setRevents POLLOUT s)" "\<not> isReadAvailable (setRevents POLLOUT s)"
  "\<not> isDropped (setRevents POLLOUT s)"
  by (simp_all add: isWriteAvailable_def isReadAvailable_def isDropped_def sock_defs poll_bits)

lemma quiet_revents [simp]:
  "\<not> isWriteAvailable (setRevents 0 s)" "\<not> isReadAvailable (setRevents 0 s)"
  "\<not> isDropped (setRevents 0 s)"
  by (simp_all add: isWriteAvailable_def isReadAvailable_def isDropped_def sock_defs)

end
