(* ===== verification/Kernel.thy ===== *)
theory Kernel
  imports AppConfig SocketObj
begin

text \<open>
  The boundary of the program: the operating system and OpenSSL. Their code is not part of
  the repository, so a run is relative to an arbitrary environment, a record \<open>sys\<close> of
  functions over an opaque environment state \<open>'k\<close>, one for each call the sources make. The
  state of the process itself is the record \<open>world\<close>: the environment's state, the sequence
  of calls made so far with their results, the objects behind \<^verbatim>\<open>shared_ptr\<close>s, and the
  global and static variables of the sources.
\<close>

section \<open>Arguments and results of calls\<close>

text \<open>
  A call that delivers bytes returns their number, or \<open>- (n + 1)\<close> on failure (\<open>Fail 0\<close> is
  the \<open>-1\<close> of the system calls; \<^verbatim>\<open>BIO_read\<close> also has \<open>-2\<close>).
\<close>

datatype io = Data string | Fail nat

fun ioRet :: "io \<Rightarrow> int" where
  "ioRet (Data bs) = int (length bs)"
| "ioRet (Fail n) = - int (Suc n)"

fun ioBytes :: "io \<Rightarrow> string" where
  "ioBytes (Data bs) = bs"
| "ioBytes (Fail n) = []"

lemma ioRet_0 [simp]: "ioRet r = 0 \<longleftrightarrow> r = Data []"
  by (cases r) auto

lemma ioRet_pos [simp]: "0 < ioRet r \<longleftrightarrow> ioBytes r \<noteq> []"
  by (cases r) auto

lemma ioRet_neg [simp]: "ioRet r < 0 \<longleftrightarrow> (\<exists>n. r = Fail n)"
  by (cases r) auto

datatype sockDomain = AF_UNIX | AF_INET

datatype sockaddr =
    SockaddrUn string nat
  | SockaddrIn "char list" "16 word"

record hostent =
  hLength :: nat
  hAddr :: "char list"

text \<open>\<^verbatim>\<open>poll\<close> gives its return value, \<^verbatim>\<open>errno\<close> and the \<^verbatim>\<open>revents\<close> it wrote into each entry.\<close>

record pollResult =
  pollRet :: int
  pollErrno :: int
  pollRevents :: "nat \<Rightarrow> short"

section \<open>The environment\<close>

text \<open>
  \<open>sys_execl\<close> says whether the program was replaced, \<open>sys_sigint\<close> whether a SIGINT has been
  delivered by now, \<open>sys_stack\<close> is the content of a local array before anything is written to it, \<open>sys_cmsg\<close>
  the integer found in the control buffer just after \<^verbatim>\<open>malloc\<close>.
\<close>

record 'k sys =
  sys_poll :: "(int \<times> short) list \<Rightarrow> 'k \<Rightarrow> pollResult \<times> 'k"
  sys_recv :: "int \<Rightarrow> nat \<Rightarrow> int \<Rightarrow> 'k \<Rightarrow> io \<times> 'k"
  sys_write :: "int \<Rightarrow> string \<Rightarrow> 'k \<Rightarrow> int \<times> 'k"
  sys_sendmsg :: "int \<Rightarrow> string \<Rightarrow> int option \<Rightarrow> 'k \<Rightarrow> int \<times> 'k"
  sys_recvmsg :: "int \<Rightarrow> nat \<Rightarrow> 'k \<Rightarrow> (io \<times> int option) \<times> 'k"
  sys_close :: "int \<Rightarrow> 'k \<Rightarrow> 'k"
  sys_unlink :: "string \<Rightarrow> 'k \<Rightarrow> 'k"
  sys_socket :: "sockDomain \<Rightarrow> 'k \<Rightarrow> int \<times> 'k"
  sys_setsockopt :: "int \<Rightarrow> 'k \<Rightarrow> int \<times> 'k"
  sys_bind :: "int \<Rightarrow> sockaddr \<Rightarrow> 'k \<Rightarrow> int \<times> 'k"
  sys_listen :: "int \<Rightarrow> nat \<Rightarrow> 'k \<Rightarrow> int \<times> 'k"
  sys_accept :: "int \<Rightarrow> 'k \<Rightarrow> int \<times> 'k"
  sys_connect :: "int \<Rightarrow> sockaddr \<Rightarrow> 'k \<Rightarrow> int \<times> 'k"
  sys_getfl :: "int \<Rightarrow> 'k \<Rightarrow> 32 word \<times> 'k"
  sys_setfl :: "int \<Rightarrow> 32 word \<Rightarrow> 'k \<Rightarrow> int \<times> 'k"
  sys_gethostbyname :: "string \<Rightarrow> 'k \<Rightarrow> hostent option \<times> 'k"
  sys_fork :: "'k \<Rightarrow> int \<times> 'k"
  sys_execl :: "string \<Rightarrow> string list \<Rightarrow> 'k \<Rightarrow> bool \<times> 'k"
  sys_getpid :: "'k \<Rightarrow> int"
  sys_sigint :: "'k \<Rightarrow> bool"
  sys_sigpipe :: "'k \<Rightarrow> bool"
  sys_waitpid :: "'k \<Rightarrow> (int \<times> 32 word) \<times> 'k"
  sys_malloc :: "'k \<Rightarrow> bool \<times> 'k"
  sys_stdin :: "'k \<Rightarrow> string \<times> 'k"
  BIO_new_socket :: "int \<Rightarrow> int \<Rightarrow> 'k \<Rightarrow> handle \<times> 'k"
  BIO_read :: "handle \<Rightarrow> nat \<Rightarrow> 'k \<Rightarrow> io \<times> 'k"
  BIO_write :: "handle \<Rightarrow> string \<Rightarrow> 'k \<Rightarrow> int \<times> 'k"
  BIO_free :: "handle \<Rightarrow> 'k \<Rightarrow> 'k"
  SSL_new :: "handle \<Rightarrow> 'k \<Rightarrow> handle \<times> 'k"
  SSL_set_bio :: "handle \<Rightarrow> handle \<Rightarrow> 'k \<Rightarrow> 'k"
  SSL_free :: "handle \<Rightarrow> 'k \<Rightarrow> 'k"
  SSL_accept :: "handle \<Rightarrow> 'k \<Rightarrow> int \<times> 'k"
  SSL_connect :: "handle \<Rightarrow> 'k \<Rightarrow> int \<times> 'k"
  SSL_CTX_new :: "'k \<Rightarrow> handle \<times> 'k"
  SSL_CTX_free :: "handle \<Rightarrow> 'k \<Rightarrow> 'k"
  SSL_CTX_use_certificate_chain_file :: "handle \<Rightarrow> string \<Rightarrow> 'k \<Rightarrow> int \<times> 'k"
  SSL_CTX_use_PrivateKey_file :: "handle \<Rightarrow> string \<Rightarrow> string \<Rightarrow> 'k \<Rightarrow> int \<times> 'k"
  SSL_CTX_load_verify_locations :: "handle \<Rightarrow> string \<Rightarrow> 'k \<Rightarrow> int \<times> 'k"
  ERR_get_error :: "'k \<Rightarrow> 64 word \<times> 'k"
  sys_stack :: "string \<Rightarrow> 'k \<Rightarrow> nat \<Rightarrow> char"
  sys_cmsg :: "'k \<Rightarrow> int"

section \<open>The process\<close>

text \<open>
  The calls, by the part of the environment they go to: descriptors, the set-up of sockets,
  the process, TLS connections, the TLS context. Each carries its arguments and its result.
\<close>

datatype ioEvent =
    EvPoll "(int \<times> short) list" pollResult
  | EvRecv int nat int io
  | EvWrite int string int
  | EvSendmsg int string "int option" int
  | EvRecvmsg int nat io "int option"
  | EvClose int

datatype netEvent =
    EvSocket sockDomain int
  | EvSetsockopt int int
  | EvBind int sockaddr int
  | EvListen int nat int
  | EvAccept int int
  | EvConnect int sockaddr int
  | EvGetfl int "32 word"
  | EvSetfl int "32 word" int
  | EvGethostbyname string "hostent option"
  | EvUnlink string

datatype procEvent =
    EvFork int
  | EvExecl string "string list" bool
  | EvWaitpid int "32 word"
  | EvMalloc bool
  | EvStdin string
  | EvStdout string

datatype tlsEvent =
    EvBioNew int int handle
  | EvBioRead handle nat io
  | EvBioWrite handle string int
  | EvBioFree handle
  | EvSslNew handle handle
  | EvSslSetBio handle handle
  | EvSslAccept handle int
  | EvSslConnect handle int
  | EvSslFree handle

datatype ctxEvent =
    EvCtxNew handle
  | EvCtxFree handle
  | EvUseCert handle string int
  | EvUseKey handle string int
  | EvLoadCa handle string int
  | EvErrGet "64 word"

datatype event = Io ioEvent | Net netEvent | Proc procEvent | Tls tlsEvent | Ctx ctxEvent

type_synonym ptr = nat

abbreviation (input) nullptr :: ptr where "nullptr \<equiv> 0"

record cell =
  obj :: sock
  useCount :: nat

text \<open>
  \<open>recvCmsg\<close> is the static control buffer of \<^verbatim>\<open>ReceivedTcpSocketFactory::createSocket\<close>
  (\<open>None\<close> before the first \<^verbatim>\<open>malloc\<close>, then the descriptor number it holds), \<open>sendCmsg\<close> the
  one of \<^verbatim>\<open>sendSocket\<close> (allocated or not); \<open>appCfg\<close> is the global of \<^verbatim>\<open>mydisp.cpp\<close> and
  \<^verbatim>\<open>mylsnr.cpp\<close>, the last three fields are the globals of \<^verbatim>\<open>InitSsl.cpp\<close>.
\<close>

record 'k world =
  kern :: 'k
  trace :: "event list"
  heap :: "ptr \<Rightarrow> cell option"
  nextPtr :: ptr
  recvCmsg :: "int option"
  sendCmsg :: bool
  appCfg :: ApplicationConfig
  sslGlobalCtx :: handle
  sslError :: "64 word"
  keyFilePassword :: string

definition logCall :: "event \<Rightarrow> 'k \<Rightarrow> 'k world \<Rightarrow> 'k world" where
  "logCall e k w = w\<lparr>kern := k, trace := trace w @ [e]\<rparr>"

lemma logCall_simps [simp]:
  "kern (logCall e k w) = k"
  "trace (logCall e k w) = trace w @ [e]"
  "heap (logCall e k w) = heap w"
  "nextPtr (logCall e k w) = nextPtr w"
  "recvCmsg (logCall e k w) = recvCmsg w"
  "sendCmsg (logCall e k w) = sendCmsg w"
  "appCfg (logCall e k w) = appCfg w"
  "sslGlobalCtx (logCall e k w) = sslGlobalCtx w"
  "sslError (logCall e k w) = sslError w"
  "keyFilePassword (logCall e k w) = keyFilePassword w"
  by (simp_all add: logCall_def)

text \<open>The bytes of a fresh local array of \<open>n\<close> bytes.\<close>

definition freshArray :: "'k sys \<Rightarrow> string \<Rightarrow> nat \<Rightarrow> 'k world \<Rightarrow> char list" where
  "freshArray S name n w = map (sys_stack S name (kern w)) [0..<n]"

lemma length_freshArray [simp]: "length (freshArray S name n w) = n"
  by (simp add: freshArray_def)

section \<open>Calls\<close>

definition k_poll :: "'k sys \<Rightarrow> (int \<times> short) list \<Rightarrow> 'k world \<Rightarrow> pollResult \<times> 'k world" where
  "k_poll S fds w = (case sys_poll S fds (kern w) of (r, k) \<Rightarrow> (r, logCall (Io (EvPoll fds r)) k w))"

definition k_recv :: "'k sys \<Rightarrow> int \<Rightarrow> nat \<Rightarrow> int \<Rightarrow> 'k world \<Rightarrow> io \<times> 'k world" where
  "k_recv S fd n flags w =
     (case sys_recv S fd n flags (kern w) of (r, k) \<Rightarrow> (r, logCall (Io (EvRecv fd n flags r)) k w))"

definition k_write :: "'k sys \<Rightarrow> int \<Rightarrow> string \<Rightarrow> 'k world \<Rightarrow> int \<times> 'k world" where
  "k_write S fd bs w =
     (case sys_write S fd bs (kern w) of (r, k) \<Rightarrow> (r, logCall (Io (EvWrite fd bs r)) k w))"

definition k_sendmsg ::
    "'k sys \<Rightarrow> int \<Rightarrow> string \<Rightarrow> int option \<Rightarrow> 'k world \<Rightarrow> int \<times> 'k world" where
  "k_sendmsg S fd bs control w =
     (case sys_sendmsg S fd bs control (kern w) of
        (r, k) \<Rightarrow> (r, logCall (Io (EvSendmsg fd bs control r)) k w))"

definition k_recvmsg :: "'k sys \<Rightarrow> int \<Rightarrow> nat \<Rightarrow> 'k world \<Rightarrow> (io \<times> int option) \<times> 'k world" where
  "k_recvmsg S fd n w =
     (case sys_recvmsg S fd n (kern w) of
        ((r, c), k) \<Rightarrow> ((r, c), logCall (Io (EvRecvmsg fd n r c)) k w))"

definition k_close :: "'k sys \<Rightarrow> int \<Rightarrow> 'k world \<Rightarrow> 'k world" where
  "k_close S fd w = logCall (Io (EvClose fd)) (sys_close S fd (kern w)) w"

definition k_unlink :: "'k sys \<Rightarrow> string \<Rightarrow> 'k world \<Rightarrow> 'k world" where
  "k_unlink S path w = logCall (Net (EvUnlink path)) (sys_unlink S path (kern w)) w"

definition k_malloc :: "'k sys \<Rightarrow> 'k world \<Rightarrow> bool \<times> 'k world" where
  "k_malloc S w = (case sys_malloc S (kern w) of (r, k) \<Rightarrow> (r, logCall (Proc (EvMalloc r)) k w))"

definition k_BIO_new_socket :: "'k sys \<Rightarrow> int \<Rightarrow> int \<Rightarrow> 'k world \<Rightarrow> handle \<times> 'k world" where
  "k_BIO_new_socket S fd flag w =
     (case BIO_new_socket S fd flag (kern w) of (r, k) \<Rightarrow> (r, logCall (Tls (EvBioNew fd flag r)) k w))"

definition k_BIO_read :: "'k sys \<Rightarrow> handle \<Rightarrow> nat \<Rightarrow> 'k world \<Rightarrow> io \<times> 'k world" where
  "k_BIO_read S b n w =
     (case BIO_read S b n (kern w) of (r, k) \<Rightarrow> (r, logCall (Tls (EvBioRead b n r)) k w))"

definition k_BIO_write :: "'k sys \<Rightarrow> handle \<Rightarrow> string \<Rightarrow> 'k world \<Rightarrow> int \<times> 'k world" where
  "k_BIO_write S b bs w =
     (case BIO_write S b bs (kern w) of (r, k) \<Rightarrow> (r, logCall (Tls (EvBioWrite b bs r)) k w))"

definition k_SSL_new :: "'k sys \<Rightarrow> handle \<Rightarrow> 'k world \<Rightarrow> handle \<times> 'k world" where
  "k_SSL_new S ctx w = (case SSL_new S ctx (kern w) of (r, k) \<Rightarrow> (r, logCall (Tls (EvSslNew ctx r)) k w))"

definition k_SSL_set_bio :: "'k sys \<Rightarrow> handle \<Rightarrow> handle \<Rightarrow> 'k world \<Rightarrow> 'k world" where
  "k_SSL_set_bio S ssl b w = logCall (Tls (EvSslSetBio ssl b)) (SSL_set_bio S ssl b (kern w)) w"

definition k_SSL_free :: "'k sys \<Rightarrow> handle \<Rightarrow> 'k world \<Rightarrow> 'k world" where
  "k_SSL_free S ssl w = logCall (Tls (EvSslFree ssl)) (SSL_free S ssl (kern w)) w"

definition k_SSL_CTX_new :: "'k sys \<Rightarrow> 'k world \<Rightarrow> handle \<times> 'k world" where
  "k_SSL_CTX_new S w = (case SSL_CTX_new S (kern w) of (r, k) \<Rightarrow> (r, logCall (Ctx (EvCtxNew r)) k w))"

definition k_SSL_CTX_free :: "'k sys \<Rightarrow> handle \<Rightarrow> 'k world \<Rightarrow> 'k world" where
  "k_SSL_CTX_free S ctx w = logCall (Ctx (EvCtxFree ctx)) (SSL_CTX_free S ctx (kern w)) w"

definition k_use_certificate :: "'k sys \<Rightarrow> handle \<Rightarrow> string \<Rightarrow> 'k world \<Rightarrow> int \<times> 'k world" where
  "k_use_certificate S ctx file w =
     (case SSL_CTX_use_certificate_chain_file S ctx file (kern w) of
        (r, k) \<Rightarrow> (r, logCall (Ctx (EvUseCert ctx file r)) k w))"

definition k_use_PrivateKey ::
    "'k sys \<Rightarrow> handle \<Rightarrow> string \<Rightarrow> string \<Rightarrow> 'k world \<Rightarrow> int \<times> 'k world" where
  "k_use_PrivateKey S ctx file password w =
     (case SSL_CTX_use_PrivateKey_file S ctx file password (kern w) of
        (r, k) \<Rightarrow> (r, logCall (Ctx (EvUseKey ctx file r)) k w))"

definition k_load_verify :: "'k sys \<Rightarrow> handle \<Rightarrow> string \<Rightarrow> 'k world \<Rightarrow> int \<times> 'k world" where
  "k_load_verify S ctx file w =
     (case SSL_CTX_load_verify_locations S ctx file (kern w) of
        (r, k) \<Rightarrow> (r, logCall (Ctx (EvLoadCa ctx file r)) k w))"

definition k_ERR_get_error :: "'k sys \<Rightarrow> 'k world \<Rightarrow> 64 word \<times> 'k world" where
  "k_ERR_get_error S w =
     (case ERR_get_error S (kern w) of (r, k) \<Rightarrow> (r, logCall (Ctx (EvErrGet r)) k w))"

definition k_socket :: "'k sys \<Rightarrow> sockDomain \<Rightarrow> 'k world \<Rightarrow> int \<times> 'k world" where
  "k_socket S d w = (case sys_socket S d (kern w) of (n, k) \<Rightarrow> (n, logCall (Net (EvSocket d n)) k w))"

definition k_setsockopt :: "'k sys \<Rightarrow> int \<Rightarrow> 'k world \<Rightarrow> int \<times> 'k world" where
  "k_setsockopt S fd w =
     (case sys_setsockopt S fd (kern w) of (n, k) \<Rightarrow> (n, logCall (Net (EvSetsockopt fd n)) k w))"

definition k_bind :: "'k sys \<Rightarrow> int \<Rightarrow> sockaddr \<Rightarrow> 'k world \<Rightarrow> int \<times> 'k world" where
  "k_bind S fd a w = (case sys_bind S fd a (kern w) of (n, k) \<Rightarrow> (n, logCall (Net (EvBind fd a n)) k w))"

definition k_listen :: "'k sys \<Rightarrow> int \<Rightarrow> nat \<Rightarrow> 'k world \<Rightarrow> int \<times> 'k world" where
  "k_listen S fd q w =
     (case sys_listen S fd q (kern w) of (n, k) \<Rightarrow> (n, logCall (Net (EvListen fd q n)) k w))"

definition k_accept :: "'k sys \<Rightarrow> int \<Rightarrow> 'k world \<Rightarrow> int \<times> 'k world" where
  "k_accept S fd w = (case sys_accept S fd (kern w) of (n, k) \<Rightarrow> (n, logCall (Net (EvAccept fd n)) k w))"

definition k_connect :: "'k sys \<Rightarrow> int \<Rightarrow> sockaddr \<Rightarrow> 'k world \<Rightarrow> int \<times> 'k world" where
  "k_connect S fd a w =
     (case sys_connect S fd a (kern w) of (n, k) \<Rightarrow> (n, logCall (Net (EvConnect fd a n)) k w))"

definition k_getfl :: "'k sys \<Rightarrow> int \<Rightarrow> 'k world \<Rightarrow> 32 word \<times> 'k world" where
  "k_getfl S fd w = (case sys_getfl S fd (kern w) of (f, k) \<Rightarrow> (f, logCall (Net (EvGetfl fd f)) k w))"

definition k_setfl :: "'k sys \<Rightarrow> int \<Rightarrow> 32 word \<Rightarrow> 'k world \<Rightarrow> int \<times> 'k world" where
  "k_setfl S fd f w =
     (case sys_setfl S fd f (kern w) of (n, k) \<Rightarrow> (n, logCall (Net (EvSetfl fd f n)) k w))"

definition k_gethostbyname :: "'k sys \<Rightarrow> string \<Rightarrow> 'k world \<Rightarrow> hostent option \<times> 'k world" where
  "k_gethostbyname S name w =
     (case sys_gethostbyname S name (kern w) of (h, k) \<Rightarrow>
        (h, logCall (Net (EvGethostbyname name h)) k w))"

definition k_fork :: "'k sys \<Rightarrow> 'k world \<Rightarrow> int \<times> 'k world" where
  "k_fork S w = (case sys_fork S (kern w) of (n, k) \<Rightarrow> (n, logCall (Proc (EvFork n)) k w))"

definition k_execl :: "'k sys \<Rightarrow> string \<Rightarrow> string list \<Rightarrow> 'k world \<Rightarrow> bool \<times> 'k world" where
  "k_execl S path args w =
     (case sys_execl S path args (kern w) of (b, k) \<Rightarrow> (b, logCall (Proc (EvExecl path args b)) k w))"

definition k_waitpid :: "'k sys \<Rightarrow> 'k world \<Rightarrow> (int \<times> 32 word) \<times> 'k world" where
  "k_waitpid S w =
     (case sys_waitpid S (kern w) of ((p, st), k) \<Rightarrow> ((p, st), logCall (Proc (EvWaitpid p st)) k w))"

definition k_stdin :: "'k sys \<Rightarrow> 'k world \<Rightarrow> string \<times> 'k world" where
  "k_stdin S w = (case sys_stdin S (kern w) of (bs, k) \<Rightarrow> (bs, logCall (Proc (EvStdin bs)) k w))"

definition k_stdout :: "string \<Rightarrow> 'k world \<Rightarrow> 'k world" where
  "k_stdout bs w = logCall (Proc (EvStdout bs)) (kern w) w"

definition k_BIO_free :: "'k sys \<Rightarrow> handle \<Rightarrow> 'k world \<Rightarrow> 'k world" where
  "k_BIO_free S b w = logCall (Tls (EvBioFree b)) (BIO_free S b (kern w)) w"

definition k_SSL_accept :: "'k sys \<Rightarrow> handle \<Rightarrow> 'k world \<Rightarrow> int \<times> 'k world" where
  "k_SSL_accept S ssl w =
     (case SSL_accept S ssl (kern w) of (n, k) \<Rightarrow> (n, logCall (Tls (EvSslAccept ssl n)) k w))"

definition k_SSL_connect :: "'k sys \<Rightarrow> handle \<Rightarrow> 'k world \<Rightarrow> int \<times> 'k world" where
  "k_SSL_connect S ssl w =
     (case SSL_connect S ssl (kern w) of (n, k) \<Rightarrow> (n, logCall (Tls (EvSslConnect ssl n)) k w))"

section \<open>Calls that end the process\<close>

text \<open>
  A write to a connection that the peer has closed raises SIGPIPE; \<open>sys_sigpipe\<close> says of the
  state after a call whether the call has done so. Where the signal is left at its default
  action, as in \<^verbatim>\<open>mylsnr.cpp\<close> and \<^verbatim>\<open>myclnt.cpp\<close>, it ends the process: there every call that
  writes (\<^verbatim>\<open>write\<close>, \<^verbatim>\<open>sendmsg\<close>, \<^verbatim>\<open>BIO_write\<close> and the two handshakes) is followed by \<open>unlessKilled\<close>.
  \<^verbatim>\<open>mydisp.cpp\<close> installs a handler, so there the call just fails.
\<close>

abbreviation unlessKilled :: "'k sys \<Rightarrow> 'k world \<Rightarrow> 'a outcome \<Rightarrow> 'a outcome" where
  "unlessKilled S w m \<equiv> guarded (\<not> sys_sigpipe S (kern w)) BrokenPipe m"

definition pipeCrashes :: "'k sys \<Rightarrow> crash set" where
  "pipeCrashes S = (if \<exists>k. sys_sigpipe S k then {BrokenPipe} else {})"

text \<open>\<^verbatim>\<open>SSL_new\<close> returns a null pointer when it fails, and \<^verbatim>\<open>SSL_set_bio\<close> dereferences its argument.\<close>

definition setBio :: "'k sys \<Rightarrow> handle \<Rightarrow> handle \<Rightarrow> 'k world \<Rightarrow> 'k world outcome" where
  "setBio S ssl b w = guarded (ssl \<noteq> 0) SslNull (Inr (k_SSL_set_bio S ssl b w))"

definition sslCrashes :: "'k sys \<Rightarrow> crash set" where
  "sslCrashes S = (if \<exists>ctx k. fst (SSL_new S ctx k) = 0 then {SslNull} else {})"

lemma setBio_eq_Inr [outcome_simps]: "setBio S ssl b w = Inr w' \<longleftrightarrow> ssl \<noteq> 0 \<and> w' = k_SSL_set_bio S ssl b w"
  by (auto simp: setBio_def guarded_def)

lemma setBio_simp [simp]: "ssl \<noteq> 0 \<Longrightarrow> setBio S ssl b w = Inr (k_SSL_set_bio S ssl b w)"
  by (simp add: setBio_def)

lemma sigpipe_crash: "sys_sigpipe S k \<Longrightarrow> BrokenPipe \<in> pipeCrashes S"
  by (auto simp: pipeCrashes_def)

lemma sat_unlessKilled:
  "sat E P m \<Longrightarrow> pipeCrashes S \<subseteq> E \<Longrightarrow> sat E P (unlessKilled S w m)"
  by (auto simp: guarded_def pipeCrashes_def split: if_splits)

lemma sat_guarded: "(b \<Longrightarrow> sat E P m) \<Longrightarrow> (\<not> b \<Longrightarrow> e \<in> E) \<Longrightarrow> sat E P (guarded b e m)"
  by (simp add: guarded_def)

lemma sat_setBio:
  assumes "k_SSL_new S ctx v = (ssl, v')" "ssl \<noteq> 0 \<Longrightarrow> P (k_SSL_set_bio S ssl b w)" "sslCrashes S \<subseteq> E"
  shows "sat E P (setBio S ssl b w)"
proof (cases "ssl = 0")
  case True
  with assms(1) have "fst (SSL_new S ctx (kern v)) = 0" by (auto simp: k_SSL_new_def split: prod.splits)
  then have "sslCrashes S = {SslNull}" unfolding sslCrashes_def by auto
  with True assms(3) show ?thesis by (simp add: setBio_def)
qed (simp add: assms(2))

section \<open>Calls leave the process's own state alone\<close>

text \<open>
  \<open>sameProc w w'\<close>: the two worlds differ in the environment's state and in the trace only,
  and the trace has grown.
\<close>

definition sameProc :: "'k world \<Rightarrow> 'k world \<Rightarrow> bool" where
  "sameProc w w' \<longleftrightarrow> (\<exists>k es. w' = w\<lparr>kern := k, trace := trace w @ es\<rparr>)"

named_theorems frame "which part of the world an operation leaves unchanged"

lemma sameProc_refl [simp, intro]: "sameProc w w"
  unfolding sameProc_def by (rule exI [of _ "kern w"], rule exI [of _ "[]"]) simp

lemma sameProc_trans [trans]: "sameProc w w' \<Longrightarrow> sameProc w' w'' \<Longrightarrow> sameProc w w''"
  unfolding sameProc_def by force

lemma sameProc_logCall [simp, intro]: "sameProc w (logCall e k w)"
  unfolding sameProc_def logCall_def by blast

lemma sameProcD:
  assumes "sameProc w w'"
  shows "heap w' = heap w" "nextPtr w' = nextPtr w" "recvCmsg w' = recvCmsg w"
    "sendCmsg w' = sendCmsg w" "appCfg w' = appCfg w" "sslGlobalCtx w' = sslGlobalCtx w"
    "sslError w' = sslError w" "keyFilePassword w' = keyFilePassword w"
  using assms by (auto simp: sameProc_def)

lemma call_frame [frame]:
  "k_poll S fds w = (pr, w') \<Longrightarrow> sameProc w w'"
  "k_recv S fd n flags w = (r, w') \<Longrightarrow> sameProc w w'"
  "k_write S fd bs w = (i, w') \<Longrightarrow> sameProc w w'"
  "k_sendmsg S fd bs c w = (i, w') \<Longrightarrow> sameProc w w'"
  "k_recvmsg S fd n w = (rc, w') \<Longrightarrow> sameProc w w'"
  "k_malloc S w = (b, w') \<Longrightarrow> sameProc w w'"
  "k_BIO_new_socket S fd flag w = (h, w') \<Longrightarrow> sameProc w w'"
  "k_BIO_read S h n w = (r, w') \<Longrightarrow> sameProc w w'"
  "k_BIO_write S h bs w = (i, w') \<Longrightarrow> sameProc w w'"
  "k_SSL_new S ctx w = (h, w') \<Longrightarrow> sameProc w w'"
  "k_SSL_CTX_new S w = (h, w') \<Longrightarrow> sameProc w w'"
  "k_use_certificate S ctx file w = (i, w') \<Longrightarrow> sameProc w w'"
  "k_use_PrivateKey S ctx file pw w = (i, w') \<Longrightarrow> sameProc w w'"
  "k_load_verify S ctx file w = (i, w') \<Longrightarrow> sameProc w w'"
  "k_ERR_get_error S w = (e, w') \<Longrightarrow> sameProc w w'"
  "k_socket S d w = (i, w') \<Longrightarrow> sameProc w w'"
  "k_setsockopt S fd w = (i, w') \<Longrightarrow> sameProc w w'"
  "k_bind S fd a w = (i, w') \<Longrightarrow> sameProc w w'"
  "k_listen S fd q w = (i, w') \<Longrightarrow> sameProc w w'"
  "k_accept S fd w = (i, w') \<Longrightarrow> sameProc w w'"
  "k_connect S fd a w = (i, w') \<Longrightarrow> sameProc w w'"
  "k_getfl S fd w = (fl, w') \<Longrightarrow> sameProc w w'"
  "k_setfl S fd fl w = (i, w') \<Longrightarrow> sameProc w w'"
  "k_gethostbyname S name w = (ho, w') \<Longrightarrow> sameProc w w'"
  "k_fork S w = (i, w') \<Longrightarrow> sameProc w w'"
  "k_execl S path args w = (b, w') \<Longrightarrow> sameProc w w'"
  "k_waitpid S w = (ps, w') \<Longrightarrow> sameProc w w'"
  "k_stdin S w = (bs, w') \<Longrightarrow> sameProc w w'"
  "k_SSL_accept S h w = (i, w') \<Longrightarrow> sameProc w w'"
  "k_SSL_connect S h w = (i, w') \<Longrightarrow> sameProc w w'"
  by (auto simp: k_poll_def k_recv_def k_write_def k_sendmsg_def k_recvmsg_def k_malloc_def
      k_socket_def k_setsockopt_def k_bind_def k_listen_def k_accept_def k_connect_def k_getfl_def
      k_setfl_def k_gethostbyname_def k_fork_def k_execl_def k_waitpid_def k_stdin_def k_SSL_accept_def
      k_SSL_connect_def
      k_BIO_new_socket_def k_BIO_read_def k_BIO_write_def k_SSL_new_def k_SSL_CTX_new_def
      k_use_certificate_def k_use_PrivateKey_def k_load_verify_def k_ERR_get_error_def
      split: prod.splits)

lemma call_frame_unit [simp]:
  "sameProc w (k_close S fd w)" "sameProc w (k_unlink S path w)" "sameProc w (k_SSL_set_bio S ssl b w)"
  "sameProc w (k_SSL_free S ssl w)" "sameProc w (k_SSL_CTX_free S ctx w)"
  "sameProc w (k_BIO_free S b w)" "sameProc w (k_stdout bs w)"
  by (simp_all add: k_BIO_free_def k_stdout_def k_close_def k_unlink_def k_SSL_set_bio_def k_SSL_free_def k_SSL_CTX_free_def)

end
