(* ===== verification/Replay.thy ===== *)
theory Replay
  imports Kernel
begin

text \<open>
  A concrete environment: it answers the calls of a run from a fixed list, one answer per
  call, and with a failure once the list is exhausted or holds an answer of another kind. It
  instantiates the environment in the concrete runs that show the hypotheses of the
  theorems can hold. When the list is exhausted a SIGINT is delivered.
\<close>

datatype answer =
    ARet int
  | AIo io
  | APoll pollResult
  | AMsg io "int option"
  | AHandle handle
  | AErr "64 word"
  | AHost "hostent option"
  | AFlags "32 word"
  | AWait int "32 word"
  | AIn string

type_synonym script = "answer list"

fun nextRet :: "script \<Rightarrow> int \<times> script" where
  "nextRet (ARet n # k) = (n, k)" | "nextRet k = (-1, k)"

fun nextIo :: "script \<Rightarrow> io \<times> script" where
  "nextIo (AIo r # k) = (r, k)" | "nextIo k = (Fail 0, k)"

fun nextPoll :: "script \<Rightarrow> pollResult \<times> script" where
  "nextPoll (APoll r # k) = (r, k)"
| "nextPoll k = (\<lparr>pollRet = -1, pollErrno = 0, pollRevents = (\<lambda>_. 0)\<rparr>, k)"

fun nextMsg :: "script \<Rightarrow> (io \<times> int option) \<times> script" where
  "nextMsg (AMsg r c # k) = ((r, c), k)" | "nextMsg k = ((Fail 0, None), k)"

fun nextHandle :: "script \<Rightarrow> handle \<times> script" where
  "nextHandle (AHandle h # k) = (h, k)" | "nextHandle k = (0, k)"

fun nextErr :: "script \<Rightarrow> 64 word \<times> script" where
  "nextErr (AErr e # k) = (e, k)" | "nextErr k = (0, k)"

fun nextHost :: "script \<Rightarrow> hostent option \<times> script" where
  "nextHost (AHost h # k) = (h, k)" | "nextHost k = (None, k)"

fun nextFlags :: "script \<Rightarrow> 32 word \<times> script" where
  "nextFlags (AFlags f # k) = (f, k)" | "nextFlags k = (0, k)"

fun nextWait :: "script \<Rightarrow> (int \<times> 32 word) \<times> script" where
  "nextWait (AWait p s # k) = ((p, s), k)" | "nextWait k = ((-1, 0), k)"

fun nextIn :: "script \<Rightarrow> string \<times> script" where
  "nextIn (AIn bs # k) = (bs, k)" | "nextIn k = ([], k)"

definition replay :: "script sys" where
  "replay = \<lparr>
     sys_poll = \<lambda>fds. nextPoll, sys_recv = \<lambda>fd n flags. nextIo, sys_write = \<lambda>fd bs. nextRet,
     sys_sendmsg = \<lambda>fd bs c. nextRet, sys_recvmsg = \<lambda>fd n. nextMsg, sys_close = \<lambda>fd k. k,
     sys_unlink = \<lambda>path k. k, sys_socket = \<lambda>d. nextRet, sys_setsockopt = \<lambda>fd. nextRet,
     sys_bind = \<lambda>fd a. nextRet, sys_listen = \<lambda>fd n. nextRet, sys_accept = \<lambda>fd. nextRet,
     sys_connect = \<lambda>fd a. nextRet, sys_getfl = \<lambda>fd. nextFlags, sys_setfl = \<lambda>fd f. nextRet,
     sys_gethostbyname = \<lambda>name. nextHost, sys_fork = nextRet,
     sys_execl = \<lambda>path args k. (True, k), sys_getpid = \<lambda>k. 4711, sys_sigint = \<lambda>k. k = [], sys_sigpipe = \<lambda>k. False,
     sys_waitpid = nextWait, sys_malloc = \<lambda>k. (True, k), sys_stdin = nextIn,
     BIO_new_socket = \<lambda>fd flag. nextHandle, BIO_read = \<lambda>b n. nextIo, BIO_write = \<lambda>b bs. nextRet,
     BIO_free = \<lambda>b k. k, SSL_new = \<lambda>ctx. nextHandle, SSL_set_bio = \<lambda>s b k. k, SSL_free = \<lambda>s k. k,
     SSL_accept = \<lambda>s. nextRet, SSL_connect = \<lambda>s. nextRet, SSL_CTX_new = nextHandle,
     SSL_CTX_free = \<lambda>ctx k. k, SSL_CTX_use_certificate_chain_file = \<lambda>ctx file. nextRet,
     SSL_CTX_use_PrivateKey_file = \<lambda>ctx file pw. nextRet,
     SSL_CTX_load_verify_locations = \<lambda>ctx file. nextRet, ERR_get_error = nextErr,
     sys_stack = \<lambda>name k i. CHR ''?'', sys_cmsg = \<lambda>k. -1\<rparr>"

text \<open>A process that has just started, with the given answers ahead of it.\<close>

definition startWorld :: "ApplicationType \<Rightarrow> 'k \<Rightarrow> 'k world" where
  "startWorld t k =
     \<lparr>kern = k, trace = [], heap = Map.empty, nextPtr = 1, recvCmsg = None, sendCmsg = False,
      appCfg = createConfig t, sslGlobalCtx = 0, sslError = 0, keyFilePassword = []\<rparr>"

lemma startWorld_simps [simp]:
  "kern (startWorld t k) = k" "trace (startWorld t k) = []" "heap (startWorld t k) = Map.empty"
  "nextPtr (startWorld t k) = 1" "recvCmsg (startWorld t k) = None"
  "sendCmsg (startWorld t k) = False" "appCfg (startWorld t k) = createConfig t"
  "sslGlobalCtx (startWorld t k) = 0" "sslError (startWorld t k) = 0"
  "keyFilePassword (startWorld t k) = []"
  by (simp_all add: startWorld_def)

text \<open>Sockets to run on.\<close>

definition exampleSock :: "int \<Rightarrow> SocketType \<Rightarrow> sock" where
  "exampleSock fd t = \<lparr>dynClass = PlainSocket, protectDescriptor = False, descriptor = fd,
     events = 0, revents = 0, socketType = t, listenSocket = False, clientStatus = NO_STATUS\<rparr>"

text \<open>A process with sockets on the given descriptors, at the addresses 1, 2, \<open>\<dots>\<close>.\<close>

definition exampleWorld :: "sock list \<Rightarrow> script \<Rightarrow> script world" where
  "exampleWorld ss k = (startWorld DISPATCHER k)\<lparr>
     heap := (\<lambda>p. if 0 < p \<and> p \<le> length ss then Some \<lparr>obj = ss ! (p - 1), useCount = 1\<rparr> else None),
     nextPtr := Suc (length ss), recvCmsg := Some (-1), sendCmsg := True\<rparr>"

lemma exampleWorld_simps [simp]:
  "kern (exampleWorld ss k) = k" "trace (exampleWorld ss k) = []"
  "heap (exampleWorld ss k) p =
     (if 0 < p \<and> p \<le> length ss then Some \<lparr>obj = ss ! (p - 1), useCount = 1\<rparr> else None)"
  "nextPtr (exampleWorld ss k) = Suc (length ss)" "recvCmsg (exampleWorld ss k) = Some (-1)"
  "sendCmsg (exampleWorld ss k) = True" "sslGlobalCtx (exampleWorld ss k) = 0"
  by (simp_all add: exampleWorld_def)

text \<open>The calls, ready for evaluating a concrete run.\<close>

lemmas call_defs =
  k_poll_def k_recv_def k_write_def k_sendmsg_def k_recvmsg_def k_close_def k_unlink_def
  k_malloc_def k_BIO_new_socket_def k_BIO_read_def k_BIO_write_def k_SSL_new_def
  k_SSL_set_bio_def k_SSL_free_def k_SSL_CTX_new_def k_SSL_CTX_free_def k_use_certificate_def
  k_use_PrivateKey_def k_load_verify_def k_ERR_get_error_def
  k_socket_def k_setsockopt_def k_bind_def k_listen_def k_accept_def k_connect_def k_getfl_def
  k_setfl_def k_gethostbyname_def k_fork_def k_execl_def k_waitpid_def k_stdin_def k_stdout_def k_BIO_free_def
  k_SSL_accept_def k_SSL_connect_def

end
