(* ===== verification/SharedPtr.thy ===== *)
theory SharedPtr
  imports Replay
begin

text \<open>
  \<^verbatim>\<open>std::shared_ptr<Socket>\<close>: objects live in the heap of the process with the number of
  their owners. Copying a pointer that is stored adds an owner, dropping the last owner runs
  the destructors, which close the descriptor. A pointer passed by value to a function that
  does not store it adds an owner and drops it again on return; the model leaves that pair
  out. The invariant \<open>owned\<close> says that the owner counts are exact, and the locale
  \<open>ownership\<close> is the contract under which containers of pointers are verified.
\<close>

section \<open>Access\<close>

definition deref :: "'k world \<Rightarrow> ptr \<Rightarrow> sock outcome" where
  "deref w p =
     (if p = nullptr then Inl NullDeref
      else case heap w p of None \<Rightarrow> Inl UseAfterFree | Some c \<Rightarrow> Inr (obj c))"

definition modifyObj :: "(sock \<Rightarrow> sock) \<Rightarrow> ptr \<Rightarrow> 'k world \<Rightarrow> 'k world outcome" where
  "modifyObj f p w =
     (if p = nullptr then Inl NullDeref
      else case heap w p of
             None \<Rightarrow> Inl UseAfterFree
           | Some c \<Rightarrow> Inr (w\<lparr>heap := (heap w)(p \<mapsto> c\<lparr>obj := f (obj c)\<rparr>)\<rparr>))"

section \<open>Owners\<close>

definition makeShared :: "sock \<Rightarrow> 'k world \<Rightarrow> ptr \<times> 'k world" where
  "makeShared s w =
     (nextPtr w,
      w\<lparr>heap := (heap w)(nextPtr w \<mapsto> \<lparr>obj = s, useCount = 1\<rparr>), nextPtr := Suc (nextPtr w)\<rparr>)"

definition sharePtr :: "ptr \<Rightarrow> 'k world \<Rightarrow> 'k world outcome" where
  "sharePtr p w =
     (if p = nullptr then Inr w
      else case heap w p of
             None \<Rightarrow> Inl UseAfterFree
           | Some c \<Rightarrow> Inr (w\<lparr>heap := (heap w)(p \<mapsto> c\<lparr>useCount := Suc (useCount c)\<rparr>)\<rparr>))"

text \<open>The destructor of a listening UNIX socket removes its file.\<close>

definition destroyUnixListener :: "'k sys \<Rightarrow> string \<Rightarrow> 'k world \<Rightarrow> 'k world" where
  [simp]: "destroyUnixListener S path w = k_unlink S (cstr path) w"

text \<open>The destructor of the dynamic class, then \<^verbatim>\<open>Socket::~Socket\<close>.\<close>

fun destroyDerived :: "'k sys \<Rightarrow> socketClass \<Rightarrow> 'k world \<Rightarrow> 'k world" where
  "destroyDerived S (SslSocket b ssl) w = k_SSL_free S ssl w"
| "destroyDerived S (SslClientSocket b ssl) w = k_SSL_free S ssl w"
| "destroyDerived S (UnixListenerSocket path) w = destroyUnixListener S path w"
| "destroyDerived S _ w = w"

definition destroySocket :: "'k sys \<Rightarrow> sock \<Rightarrow> 'k world \<Rightarrow> 'k world" where
  "destroySocket S s w =
     (let w1 = destroyDerived S (dynClass s) w
      in if \<not> protectDescriptor s then k_close S (descriptor s) w1 else w1)"

definition releasePtr :: "'k sys \<Rightarrow> ptr \<Rightarrow> 'k world \<Rightarrow> 'k world outcome" where
  "releasePtr S p w =
     (if p = nullptr then Inr w
      else case heap w p of
             None \<Rightarrow> Inl UseAfterFree
           | Some c \<Rightarrow>
               if 1 < useCount c
               then Inr (w\<lparr>heap := (heap w)(p \<mapsto> c\<lparr>useCount := useCount c - 1\<rparr>)\<rparr>)
               else Inr (destroySocket S (obj c) (w\<lparr>heap := (heap w)(p := None)\<rparr>)))"

fun releaseAll :: "(ptr \<Rightarrow> 'w \<Rightarrow> 'w outcome) \<Rightarrow> ptr list \<Rightarrow> 'w \<Rightarrow> 'w outcome" where
  "releaseAll release [] w = Inr w"
| "releaseAll release (p # ps) w = andThen (release p w) (releaseAll release ps)"

section \<open>Effect on single objects\<close>

lemma deref_modify:
  "modifyObj f p w = Inr w' \<Longrightarrow> deref w p = Inr s \<Longrightarrow>
   deref w' q = (if q = p then Inr (f s) else deref w q)"
  by (auto simp: modifyObj_def deref_def split: if_splits option.splits)

lemma deref_make:
  "makeShared s w = (p, w') \<Longrightarrow> p \<noteq> nullptr \<Longrightarrow> deref w' q = (if q = p then Inr s else deref w q)"
  by (auto simp: makeShared_def deref_def)

lemma nextPtr_share: "sharePtr p w = Inr w' \<Longrightarrow> nextPtr w' = nextPtr w"
  by (auto simp: sharePtr_def split: if_splits option.splits)

lemma deref_share:
  "sharePtr p w = Inr w' \<Longrightarrow> deref w' q = deref w q"
  by (auto simp: sharePtr_def deref_def split: if_splits option.splits)

lemma deref_cong: "heap w' = heap w \<Longrightarrow> deref w' p = deref w p"
  by (simp add: deref_def)

lemma modify_known:
  assumes "deref w p = Inr s"
  shows "\<exists>w'. modifyObj f p w = Inr w' \<and> trace w' = trace w \<and> kern w' = kern w \<and>
    (\<forall>q. deref w' q = (if q = p then Inr (f s) else deref w q))"
proof -
  from assms obtain w' where w': "modifyObj f p w = Inr w'"
    by (auto simp: deref_def modifyObj_def split: if_splits option.splits)
  then have "trace w' = trace w" "kern w' = kern w"
    by (auto simp: modifyObj_def split: if_splits option.splits)
  with w' deref_modify [OF w' assms] show ?thesis by simp
qed

lemma share_known:
  assumes "deref w p = Inr s"
  shows "\<exists>w'. sharePtr p w = Inr w' \<and> trace w' = trace w \<and> (\<forall>q. deref w' q = deref w q)"
proof -
  from assms obtain w' where w': "sharePtr p w = Inr w'"
    by (auto simp: deref_def sharePtr_def split: if_splits option.splits)
  then have "trace w' = trace w"
    by (auto simp: sharePtr_def split: if_splits option.splits)
  with w' deref_share [OF w'] show ?thesis by simp
qed

section \<open>The contract of owner counts\<close>

text \<open>
  \<open>own w M\<close>: the multiset \<open>M\<close> of pointers held by variables and containers accounts for
  every owner in the state \<open>w\<close>. Whoever holds a pointer may copy it or drop it.
\<close>

locale ownership =
  fixes own :: "'w \<Rightarrow> ptr multiset \<Rightarrow> bool"
    and share :: "ptr \<Rightarrow> 'w \<Rightarrow> 'w outcome"
    and release :: "ptr \<Rightarrow> 'w \<Rightarrow> 'w outcome"
  assumes share_ok: "own w M \<Longrightarrow> p \<in># M \<Longrightarrow> \<exists>w'. share p w = Inr w' \<and> own w' (add_mset p M)"
    and release_ok: "own w (add_mset p M) \<Longrightarrow> \<exists>w'. release p w = Inr w' \<and> own w' M"
begin

lemma share_own: "own w M \<Longrightarrow> p \<in># M \<Longrightarrow> share p w = Inr w' \<Longrightarrow> own w' (add_mset p M)"
  using share_ok by fastforce

lemma release_own: "own w (add_mset p M) \<Longrightarrow> release p w = Inr w' \<Longrightarrow> own w' M"
  using release_ok by fastforce

lemma releaseAll_ok:
  "own w (mset ps + M) \<Longrightarrow> \<exists>w'. releaseAll release ps w = Inr w' \<and> own w' M"
proof (induction ps arbitrary: w)
  case Nil
  then show ?case by simp
next
  case (Cons p ps)
  from Cons.prems have "own w (add_mset p (mset ps + M))" by simp
  then obtain w1 where "release p w = Inr w1" "own w1 (mset ps + M)"
    using release_ok by blast
  with Cons.IH show ?case by simp
qed

lemma share_then_release:
  assumes "own w M" "p \<in># M" "share p w = Inr w1"
  shows "\<exists>w2. release p w1 = Inr w2 \<and> own w2 M"
  using assms share_own release_ok by blast

end

section \<open>Exact owner counts\<close>

definition ownersOf :: "'k world \<Rightarrow> ptr \<Rightarrow> nat option" where
  "ownersOf w p = map_option useCount (heap w p)"

lemma ownersOf_simps [simp]:
  "ownersOf (w\<lparr>heap := (heap w)(p \<mapsto> c)\<rparr>) = (ownersOf w)(p \<mapsto> useCount c)"
  "ownersOf (w\<lparr>heap := (heap w)(p \<mapsto> c), nextPtr := n\<rparr>) = (ownersOf w)(p \<mapsto> useCount c)"
  "ownersOf (w\<lparr>heap := (heap w)(p := None)\<rparr>) = (ownersOf w)(p := None)"
  by (auto simp: ownersOf_def fun_eq_iff)

definition owned :: "'k world \<Rightarrow> ptr multiset \<Rightarrow> bool" where
  "owned w M \<longleftrightarrow>
     (\<forall>p. ownersOf w p = (if p \<noteq> nullptr \<and> p \<in># M then Some (count M p) else None)) \<and>
     (\<forall>p \<in># M. p < nextPtr w) \<and> nullptr < nextPtr w"

lemma ownedD:
  assumes "owned w M" "p \<in># M" "p \<noteq> nullptr"
  obtains s where "heap w p = Some \<lparr>obj = s, useCount = count M p\<rparr>"
proof -
  from assms obtain c where "heap w p = Some c" "useCount c = count M p"
    unfolding owned_def ownersOf_def by (metis (no_types, lifting) map_option_eq_Some)
  then show ?thesis using that [of "obj c"] by (cases c) simp
qed

lemma owned_None: "owned w M \<Longrightarrow> p \<notin># M \<or> p = nullptr \<Longrightarrow> heap w p = None"
  unfolding owned_def ownersOf_def by (metis (no_types, lifting) option.map_disc_iff)

lemma owned_nextPtr: "owned w M \<Longrightarrow> nextPtr w \<notin># M" "owned w M \<Longrightarrow> nextPtr w \<noteq> nullptr"
  by (auto simp: owned_def)

lemma owned_deref: "owned w M \<Longrightarrow> p \<in># M \<Longrightarrow> p \<noteq> nullptr \<Longrightarrow> \<exists>s. deref w p = Inr s"
  by (erule ownedD) (auto simp: deref_def)

lemma owned_cong: "heap w' = heap w \<Longrightarrow> nextPtr w' = nextPtr w \<Longrightarrow> owned w' M = owned w M"
  by (simp add: owned_def ownersOf_def)

lemma owned_globals [simp]:
  "owned (w\<lparr>recvCmsg := x\<rparr>) M = owned w M" "owned (w\<lparr>sendCmsg := y\<rparr>) M = owned w M"
  "owned (w\<lparr>appCfg := z\<rparr>) M = owned w M"
  by (rule owned_cong; simp)+

lemma owned_sameProc: "sameProc w w' \<Longrightarrow> owned w' M = owned w M"
  by (simp add: owned_def ownersOf_def sameProcD)

lemma owned_frame: "sameProc w w' \<Longrightarrow> owned w M \<Longrightarrow> owned w' M"
  by (simp add: owned_sameProc)

lemma owned_modify:
  assumes "owned w M" "p \<in># M" "p \<noteq> nullptr"
  shows "\<exists>w'. modifyObj f p w = Inr w' \<and> owned w' M"
proof -
  from assms obtain s where s: "heap w p = Some \<lparr>obj = s, useCount = count M p\<rparr>"
    by (rule ownedD)
  with assms have
    "owned (w\<lparr>heap := (heap w)(p \<mapsto> \<lparr>obj = f s, useCount = count M p\<rparr>)\<rparr>) M"
    by (auto simp: owned_def)
  with s assms(3) show ?thesis by (simp add: modifyObj_def)
qed

lemma owned_make: "owned w M \<Longrightarrow> makeShared s w = (p, w') \<Longrightarrow> owned w' (add_mset p M) \<and> p \<noteq> nullptr"
  using owned_nextPtr [of w M]
  by (auto simp: makeShared_def owned_def less_Suc_eq not_in_iff)

lemma owned_share:
  assumes "owned w M" "p \<in># M"
  shows "\<exists>w'. sharePtr p w = Inr w' \<and> owned w' (add_mset p M)"
proof (cases "p = nullptr")
  case True
  with assms show ?thesis by (auto simp: sharePtr_def owned_def)
next
  case False
  with assms obtain s where s: "heap w p = Some \<lparr>obj = s, useCount = count M p\<rparr>"
    by (blast elim: ownedD)
  with assms False have
    "owned (w\<lparr>heap := (heap w)(p \<mapsto> \<lparr>obj = s, useCount = Suc (count M p)\<rparr>)\<rparr>) (add_mset p M)"
    by (auto simp: owned_def)
  with s False show ?thesis by (simp add: sharePtr_def)
qed

lemma destroySocket_frame [simp]: "sameProc w (destroySocket S s w)"
proof -
  have "sameProc w (destroyDerived S (dynClass s) w)"
    by (cases "dynClass s") simp_all
  then show ?thesis
    by (auto simp: destroySocket_def Let_def intro: sameProc_trans)
qed

lemma owned_release:
  assumes "owned w (add_mset p M)"
  shows "\<exists>w'. releasePtr S p w = Inr w' \<and> owned w' M"
proof (cases "p = nullptr")
  case True
  with assms show ?thesis by (auto simp: releasePtr_def owned_def split: if_splits)
next
  case False
  with assms obtain s where s: "heap w p = Some \<lparr>obj = s, useCount = Suc (count M p)\<rparr>"
    by (auto elim: ownedD [where p = p])
  show ?thesis
  proof (cases "p \<in># M")
    case True
    then have "0 < count M p" by simp
    moreover from assms True False have
      "owned (w\<lparr>heap := (heap w)(p \<mapsto> \<lparr>obj = s, useCount = count M p\<rparr>)\<rparr>) M"
      by (auto simp: owned_def split: if_splits)
    ultimately show ?thesis using s False by (simp add: releasePtr_def)
  next
    case notin: False
    then have "count M p = 0" by (simp add: not_in_iff)
    moreover from assms notin False have "owned (w\<lparr>heap := (heap w)(p := None)\<rparr>) M"
      by (auto simp: owned_def split: if_splits)
    ultimately show ?thesis
      using s False by (simp add: releasePtr_def owned_sameProc [OF destroySocket_frame])
  qed
qed

interpretation own: ownership owned sharePtr "releasePtr S" for S :: "'k sys"
  by unfold_locales (use owned_share owned_release in blast)+

section \<open>Outcomes under exact owner counts\<close>

lemma deref_sat: "owned w M \<Longrightarrow> p \<in># M \<Longrightarrow> p \<noteq> nullptr \<Longrightarrow> sat E (\<lambda>s. deref w p = Inr s) (deref w p)"
  using owned_deref by fastforce

lemma modify_sat:
  "owned w M \<Longrightarrow> p \<in># M \<Longrightarrow> p \<noteq> nullptr \<Longrightarrow> sat E (\<lambda>w'. owned w' M) (modifyObj f p w)"
  using owned_modify by (fastforce intro: satI)

lemma release_sat: "owned w (add_mset p M) \<Longrightarrow> sat E (\<lambda>w'. owned w' M) (releasePtr S p w)"
  using owned_release by (fastforce intro: satI)

section \<open>When a descriptor is closed\<close>

text \<open>The calls the destructors make.\<close>

fun derivedEvents :: "socketClass \<Rightarrow> event list" where
  "derivedEvents (SslSocket b ssl) = [Tls (EvSslFree ssl)]"
| "derivedEvents (SslClientSocket b ssl) = [Tls (EvSslFree ssl)]"
| "derivedEvents (UnixListenerSocket path) = [Net (EvUnlink (cstr path))]"
| "derivedEvents _ = []"

definition destroyEvents :: "sock \<Rightarrow> event list" where
  "destroyEvents s =
     derivedEvents (dynClass s) @ (if protectDescriptor s then [] else [Io (EvClose (descriptor s))])"

lemma destroySocket_trace: "trace (destroySocket S s w) = trace w @ destroyEvents s"
  by (cases "dynClass s") (auto simp: destroySocket_def destroyEvents_def call_defs Let_def)

text \<open>Dropping a pointer that others hold, and dropping the last one.\<close>

lemma release_shared:
  assumes "owned w (add_mset p M)" "p \<in># M" "p \<noteq> nullptr"
  shows "\<exists>w'. releasePtr S p w = Inr w' \<and> owned w' M \<and> trace w' = trace w \<and> deref w' p = deref w p"
proof -
  obtain w' where w': "releasePtr S p w = Inr w'" "owned w' M" using owned_release [OF assms(1)] by blast
  from assms obtain s where "heap w p = Some \<lparr>obj = s, useCount = Suc (count M p)\<rparr>"
    by (auto elim: ownedD [where p = p])
  moreover have "0 < count M p" using assms(2) by simp
  ultimately show ?thesis using w' assms(3) by (auto simp: releasePtr_def deref_def)
qed

lemma release_last:
  assumes "owned w (add_mset p M)" "p \<notin># M" "p \<noteq> nullptr" "deref w p = Inr s"
  shows "\<exists>w'. releasePtr S p w = Inr w' \<and> owned w' M \<and> trace w' = trace w @ destroyEvents s \<and>
    deref w' p = Inl UseAfterFree"
proof -
  obtain w' where w': "releasePtr S p w = Inr w'" "owned w' M" using owned_release [OF assms(1)] by blast
  from assms obtain t where "heap w p = Some \<lparr>obj = t, useCount = Suc (count M p)\<rparr>"
    by (auto elim: ownedD [where p = p])
  moreover have "count M p = 0" using assms(2) by (simp add: not_in_iff)
  ultimately show ?thesis using w' assms(3,4)
    by (auto simp: releasePtr_def deref_def destroySocket_trace sameProcD [OF destroySocket_frame])
qed

text \<open>
  C21. A descriptor is closed when, and only when, its last owner lets go: dropping a pointer
  that others still hold makes no call and leaves the object as it was; dropping the last
  one frees the object and closes its descriptor, unless the descriptor has been handed on.
\<close>

theorem release_closes_once:
  assumes "owned w (add_mset p M)" "p \<noteq> nullptr" "deref w p = Inr s" "releasePtr S p w = Inr w'"
  shows "if p \<in># M then trace w' = trace w \<and> deref w' p = Inr s
    else trace w' = trace w @ destroyEvents s \<and> deref w' p = Inl UseAfterFree"
proof -
  from assms(1,2) obtain s0 where "heap w p = Some \<lparr>obj = s0, useCount = Suc (count M p)\<rparr>"
    by (auto elim: ownedD [where p = p])
  with assms(2,3) have h: "heap w p = Some \<lparr>obj = s, useCount = Suc (count M p)\<rparr>"
    by (simp add: deref_def)
  show ?thesis
  proof (cases "p \<in># M")
    case True
    then have "0 < count M p" by simp
    with True h assms(2,4) show ?thesis by (auto simp: releasePtr_def deref_def)
  next
    case False
    then have "count M p = 0" by (simp add: not_in_iff)
    with False h assms(2,4) show ?thesis
      by (auto simp: releasePtr_def deref_def destroySocket_trace
          sameProcD [OF destroySocket_frame])
  qed
qed

theorem release_closes_once_witness:
  "\<exists>w'. releasePtr replay 1 (exampleWorld [exampleSock 6 TCP] []) = Inr w' \<and>
    trace w' = [Io (EvClose 6)] \<and> deref w' 1 = Inl UseAfterFree"
proof -
  let ?w = "exampleWorld [exampleSock 6 TCP] []"
  have own: "owned ?w (add_mset 1 {#})"
    by (auto simp: owned_def ownersOf_def)
  obtain w' where w': "releasePtr replay 1 ?w = Inr w'"
    using owned_release [OF own] by blast
  from release_closes_once [OF own _ _ this, of "exampleSock 6 TCP"] w' show ?thesis
    by (simp add: deref_def destroyEvents_def exampleSock_def)
qed

end
