(* ===== verification/SocketsList.thy ===== *)
theory SocketsList
  imports SharedPtr
begin

text \<open>
  \<^verbatim>\<open>SocketsList.h\<close>: a list of shared pointers with a maximal size. The locale
  \<open>socket_container\<close> states what the poller and the main loops rely on; it extends the
  contract of owner counts and is interpreted by the list of the code.
\<close>

datatype ErrorType = ERROR | INTERRUPTED | TIMEOUT | NO_ERROR

record sockets_list =
  sockets :: "ptr list"
  maxSize :: nat

definition newSocketsList :: "nat \<Rightarrow> sockets_list" where
  "newSocketsList n = \<lparr>sockets = [], maxSize = n\<rparr>"

section \<open>Operations\<close>

text \<open>The pointer passed by value is moved into the list: a stored pointer is a new owner.\<close>

definition putSocket ::
    "ptr \<Rightarrow> sockets_list \<Rightarrow> 'k world \<Rightarrow> (bool \<times> sockets_list \<times> 'k world) outcome" where
  "putSocket p l w =
     (if length (sockets l) = maxSize l then Inr (False, l, w)
      else andThen (sharePtr p w)
             (\<lambda>w1. Inr (True, l\<lparr>sockets := sockets l @ [p]\<rparr>, w1)))"

text \<open>
  The loop of \<^verbatim>\<open>delSocket\<close>: the first element with the descriptor of \<open>p\<close>, and the list
  without it.
\<close>

fun eraseFirst :: "'k world \<Rightarrow> ptr \<Rightarrow> ptr list \<Rightarrow> (ptr option \<times> ptr list) outcome" where
  "eraseFirst w p [] = Inr (None, [])"
| "eraseFirst w p (q # qs) =
     andThen (deref w q) (\<lambda>sq.
     andThen (deref w p) (\<lambda>sp.
       if descriptor sq = descriptor sp then Inr (Some q, qs)
       else andThen (eraseFirst w p qs) (\<lambda>(r, rest). Inr (r, q # rest))))"

definition delSocket ::
    "'k sys \<Rightarrow> ptr \<Rightarrow> sockets_list \<Rightarrow> 'k world \<Rightarrow> (bool \<times> sockets_list \<times> 'k world) outcome" where
  "delSocket S p l w =
     (if length (sockets l) = maxSize l then Inr (False, l, w)
      else andThen (eraseFirst w p (sockets l)) (\<lambda>(r, rest).
             case r of
               None \<Rightarrow> Inr (False, l, w)
             | Some q \<Rightarrow>
                 andThen (releasePtr S q w) (\<lambda>w1. Inr (True, l\<lparr>sockets := rest\<rparr>, w1))))"

definition clearSockets ::
    "'k sys \<Rightarrow> sockets_list \<Rightarrow> 'k world \<Rightarrow> (sockets_list \<times> 'k world) outcome" where
  "clearSockets S l w =
     andThen (releaseAll (releasePtr S) (sockets l) w) (\<lambda>w1. Inr (l\<lparr>sockets := []\<rparr>, w1))"

section \<open>The contract\<close>

locale socket_container = ownership own share release
  for own :: "'w \<Rightarrow> ptr multiset \<Rightarrow> bool"
    and share :: "ptr \<Rightarrow> 'w \<Rightarrow> 'w outcome"
    and release :: "ptr \<Rightarrow> 'w \<Rightarrow> 'w outcome" +
  fixes put :: "ptr \<Rightarrow> 'l \<Rightarrow> 'w \<Rightarrow> (bool \<times> 'l \<times> 'w) outcome"
    and del :: "ptr \<Rightarrow> 'l \<Rightarrow> 'w \<Rightarrow> (bool \<times> 'l \<times> 'w) outcome"
    and clear :: "'l \<Rightarrow> 'w \<Rightarrow> ('l \<times> 'w) outcome"
    and elems :: "'l \<Rightarrow> ptr list"
    and cap :: "'l \<Rightarrow> nat"
  assumes put_full: "length (elems l) = cap l \<Longrightarrow> put p l w = Inr (False, l, w)"
    and put_ok: "length (elems l) \<noteq> cap l \<Longrightarrow> own w M \<Longrightarrow> p \<in># M \<Longrightarrow>
      \<exists>l' w'. put p l w = Inr (True, l', w') \<and> elems l' = elems l @ [p] \<and> cap l' = cap l \<and>
              own w' (add_mset p M)"
    and del_full: "length (elems l) = cap l \<Longrightarrow> del p l w = Inr (False, l, w)"
    and del_ok: "own w (mset (elems l) + M) \<Longrightarrow> p \<in># mset (elems l) + M \<Longrightarrow> p \<noteq> nullptr \<Longrightarrow>
      nullptr \<notin> set (elems l) \<Longrightarrow>
      \<exists>b l' w'. del p l w = Inr (b, l', w') \<and> own w' (mset (elems l') + M) \<and> cap l' = cap l \<and>
        (if b then \<exists>xs q ys. elems l = xs @ q # ys \<and> elems l' = xs @ ys else l' = l \<and> w' = w)"
    and clear_ok: "own w (mset (elems l) + M) \<Longrightarrow>
      \<exists>l' w'. clear l w = Inr (l', w') \<and> elems l' = [] \<and> cap l' = cap l \<and> own w' M"
begin

text \<open>No operation takes the list over its maximal size.\<close>

lemma put_bound:
  assumes "own w M" "p \<in># M" "length (elems l) \<le> cap l" "put p l w = Inr (b, l', w')"
  shows "length (elems l') \<le> cap l' \<and> cap l' = cap l"
  using assms put_full [of l p w] put_ok [of l w M p] by (cases "length (elems l) = cap l") auto

text \<open>Whether or not there is room, the owners stay accounted for.\<close>

lemma put_own:
  assumes "own w (mset (elems l) + M)" "p \<in># mset (elems l) + M" "put p l w = Inr (b, l', w')"
  shows "own w' (mset (elems l') + M) \<and> b = (length (elems l) \<noteq> cap l) \<and> cap l' = cap l \<and>
         elems l' = (if b then elems l @ [p] else elems l)"
  using assms put_full [of l p w] put_ok [of l w "mset (elems l) + M" p]
  by (cases "length (elems l) = cap l") auto

lemma put_total:
  assumes "own w (mset (elems l) + M)" "p \<in># mset (elems l) + M"
  shows "\<exists>b l' w'. put p l w = Inr (b, l', w')"
  using assms put_full [of l p w] put_ok [of l w "mset (elems l) + M" p]
  by (cases "length (elems l) = cap l") auto

text \<open>Putting a sequence of pointers keeps the first ones, in order, up to the maximal size.\<close>

fun putAll :: "ptr list \<Rightarrow> 'l \<Rightarrow> 'w \<Rightarrow> ('l \<times> 'w) outcome" where
  "putAll [] l w = Inr (l, w)"
| "putAll (p # ps) l w = andThen (put p l w) (\<lambda>(b, l1, w1). putAll ps l1 w1)"

lemma putAll_ok:
  assumes "own w (mset (elems l) + M)" "set ps \<subseteq> set_mset M" "length (elems l) \<le> cap l"
  shows "\<exists>l' w'. putAll ps l w = Inr (l', w') \<and> own w' (mset (elems l') + M) \<and> cap l' = cap l \<and>
    elems l' = elems l @ take (cap l - length (elems l)) ps"
  using assms
proof (induction ps arbitrary: l w)
  case Nil
  then show ?case by simp
next
  case (Cons p ps)
  then have p: "p \<in># mset (elems l) + M" by auto
  then obtain b l1 w1 where put: "put p l w = Inr (b, l1, w1)"
    using Cons.prems(1) put_total by blast
  note step = put_own [OF Cons.prems(1) p put]
  then have "length (elems l1) \<le> cap l1" using Cons.prems(3) by auto
  with step Cons.prems(2) obtain l' w' where
    "putAll ps l1 w1 = Inr (l', w') \<and> own w' (mset (elems l') + M) \<and> cap l' = cap l1 \<and>
     elems l' = elems l1 @ take (cap l1 - length (elems l1)) ps"
    using Cons.IH [of w1 l1] by auto
  with put step Cons.prems(3) show ?case
    by (auto simp: take_Cons' split: if_splits)
qed

end

section \<open>The list of the code meets it\<close>

lemma eraseFirst_ok:
  assumes "owned w N" "set qs \<subseteq> set_mset N" "p \<in># N" "p \<noteq> nullptr" "nullptr \<notin> set qs"
  shows "\<exists>r rest. eraseFirst w p qs = Inr (r, rest) \<and>
    (case r of None \<Rightarrow> rest = qs
     | Some q \<Rightarrow> \<exists>xs ys. qs = xs @ q # ys \<and> rest = xs @ ys)"
  using assms
proof (induction qs)
  case Nil
  then show ?case by simp
next
  case (Cons a qs)
  from Cons.prems obtain sa sp where d: "deref w a = Inr sa" "deref w p = Inr sp"
    using owned_deref by (metis insert_subset list.set_intros(1) list.simps(15))
  show ?case
  proof (cases "descriptor sa = descriptor sp")
    case True
    with d have "eraseFirst w p (a # qs) = Inr (Some a, qs)" by simp
    moreover have "a # qs = [] @ a # qs \<and> qs = [] @ qs" by simp
    ultimately show ?thesis by force
  next
    case False
    from Cons obtain r rest where r: "eraseFirst w p qs = Inr (r, rest)"
      "case r of None \<Rightarrow> rest = qs | Some q \<Rightarrow> \<exists>xs ys. qs = xs @ q # ys \<and> rest = xs @ ys"
      by auto
    with d False have "eraseFirst w p (a # qs) = Inr (r, a # rest)" by simp
    moreover from r(2) have "case r of None \<Rightarrow> a # rest = a # qs
        | Some q \<Rightarrow> \<exists>xs ys. a # qs = xs @ q # ys \<and> a # rest = xs @ ys"
      by (auto split: option.splits) (metis append_Cons)
    ultimately show ?thesis by blast
  qed
qed

lemma putSocket_full [simp]: "length (sockets l) = maxSize l \<Longrightarrow> putSocket p l w = Inr (False, l, w)"
  by (simp add: putSocket_def)

lemma delSocket_full [simp]: "length (sockets l) = maxSize l \<Longrightarrow> delSocket S p l w = Inr (False, l, w)"
  by (simp add: delSocket_def)

lemma delSocket_ok:
  assumes own: "owned w (mset (sockets l) + M)" and p: "p \<in># mset (sockets l) + M" "p \<noteq> nullptr"
    and nn: "nullptr \<notin> set (sockets l)"
  shows "\<exists>b l' w'. delSocket S p l w = Inr (b, l', w') \<and> owned w' (mset (sockets l') + M) \<and>
    maxSize l' = maxSize l \<and>
    (if b then \<exists>xs q ys. sockets l = xs @ q # ys \<and> sockets l' = xs @ ys else l' = l \<and> w' = w)"
proof (cases "length (sockets l) = maxSize l")
  case True
  then have "delSocket S p l w = Inr (False, l, w)" by simp
  with own show ?thesis by force
next
  case False
  obtain r rest where e: "eraseFirst w p (sockets l) = Inr (r, rest)"
    "case r of None \<Rightarrow> rest = sockets l
     | Some q \<Rightarrow> \<exists>xs ys. sockets l = xs @ q # ys \<and> rest = xs @ ys"
    using eraseFirst_ok [OF own _ p nn] by auto
  show ?thesis
  proof (cases r)
    case None
    with e False have "delSocket S p l w = Inr (False, l, w)" by (simp add: delSocket_def)
    with own show ?thesis by force
  next
    case (Some q)
    with e(2) obtain xs ys where xy: "sockets l = xs @ q # ys" "rest = xs @ ys" by auto
    with own have "owned w (add_mset q (mset rest + M))" by simp
    then obtain w1 where "releasePtr S q w = Inr w1" "owned w1 (mset rest + M)"
      using owned_release by blast
    with e(1) Some False xy show ?thesis by (auto simp: delSocket_def)
  qed
qed

interpretation sl: socket_container owned sharePtr "releasePtr S" putSocket "delSocket S"
  "clearSockets S" sockets maxSize for S :: "'k sys"
proof (unfold_locales, goal_cases)
  case (1 l p w)
  then show ?case by simp
next
  case (2 l w M p)
  then obtain w' where "sharePtr p w = Inr w'" "owned w' (add_mset p M)"
    using owned_share by blast
  with 2 show ?case by (simp add: putSocket_def)
next
  case (3 l p w)
  then show ?case by simp
next
  case (4 w l M p)
  then show ?case by (rule delSocket_ok)
next
  case (5 w l M)
  then obtain w' where "releaseAll (releasePtr S) (sockets l) w = Inr w'" "owned w' M"
    using own.releaseAll_ok by blast
  then show ?case by (simp add: clearSockets_def)
qed

section \<open>Lists of live sockets\<close>

text \<open>A list of at most \<open>n\<close> pointers, none of them null.\<close>

definition listOk :: "nat \<Rightarrow> sockets_list \<Rightarrow> bool" where
  "listOk n l \<longleftrightarrow> maxSize l = n \<and> length (sockets l) \<le> n \<and> nullptr \<notin> set (sockets l)"

lemma putSocket_sat:
  assumes "owned w (mset (sockets l) + M)" "p \<in># mset (sockets l) + M" "p \<noteq> nullptr" "listOk n l"
  shows "sat E (\<lambda>(b, l', w'). owned w' (mset (sockets l') + M) \<and> listOk n l') (putSocket p l w)"
proof -
  obtain b l' w' where put: "putSocket p l w = Inr (b, l', w')"
    using sl.put_total [OF assms(1,2)] by blast
  with sl.put_own [OF assms(1,2) put] assms(3,4) show ?thesis
    by (auto simp: listOk_def)
qed

lemma delSocket_sat:
  assumes "owned w (mset (sockets l) + M)" "p \<in># mset (sockets l) + M" "p \<noteq> nullptr" "listOk n l"
  shows "sat E (\<lambda>(b, l', w'). owned w' (mset (sockets l') + M) \<and> listOk n l') (delSocket S p l w)"
proof -
  obtain b l' w' where del: "delSocket S p l w = Inr (b, l', w')"
    "owned w' (mset (sockets l') + M)" "maxSize l' = maxSize l"
    "if b then \<exists>xs q ys. sockets l = xs @ q # ys \<and> sockets l' = xs @ ys else l' = l \<and> w' = w"
    using delSocket_ok [OF assms(1-3)] assms(4) unfolding listOk_def by blast
  then have "listOk n l'" using assms(4) by (auto simp: listOk_def split: if_splits)
  with del show ?thesis by simp
qed

lemma clearSockets_sat:
  "owned w (mset (sockets l) + M) \<Longrightarrow>
   sat E (\<lambda>(l', w'). l' = l\<lparr>sockets := []\<rparr> \<and> owned w' M) (clearSockets S l w)"
  using own.releaseAll_ok [of w "sockets l" M S]
  by (auto simp: clearSockets_def)

section \<open>What dropping pointers leaves and does\<close>

lemma release_keeps_obj: "releasePtr S q w = Inr w' \<Longrightarrow> deref w' p = Inr s \<Longrightarrow> deref w p = Inr s"
  by (auto simp: releasePtr_def deref_def sameProcD [OF destroySocket_frame] split: if_splits option.splits)

lemma clear_keeps_obj:
  assumes "clearSockets S l w = Inr (l', w')" "deref w' p = Inr s"
  shows "deref w p = Inr s"
proof -
  have "releaseAll (releasePtr S) ps w = Inr w' \<Longrightarrow> deref w' p = Inr s \<Longrightarrow> deref w p = Inr s" for ps w
    by (induction ps arbitrary: w) (auto simp: outcome_simps dest: release_keeps_obj)
  with assms show ?thesis by (auto simp: clearSockets_def outcome_simps)
qed

lemma release_destroys: "releasePtr S p w = Inr w' \<Longrightarrow> \<exists>ss. trace w' = trace w @ concat (map destroyEvents ss)"
  by (auto simp: releasePtr_def destroySocket_trace split: if_splits option.splits
      intro: exI [of _ "[]"] exI [of _ "[_]"])

lemma clear_destroys:
  assumes "clearSockets S l w = Inr (l', w')"
  shows "\<exists>ss. trace w' = trace w @ concat (map destroyEvents ss)"
proof -
  have "releaseAll (releasePtr S) ps w = Inr w' \<Longrightarrow> \<exists>ss. trace w' = trace w @ concat (map destroyEvents ss)" for ps w
  proof (induction ps arbitrary: w)
    case Nil
    then show ?case by (auto intro: exI [of _ "[]"])
  next
    case (Cons p ps)
    then obtain w1 where w1: "releasePtr S p w = Inr w1" "releaseAll (releasePtr S) ps w1 = Inr w'"
      by (auto simp: andThen_eq_Inr)
    from release_destroys [OF w1(1)] Cons.IH [OF w1(2)] obtain ss ts where
      "trace w' = trace w @ concat (map destroyEvents (ss @ ts))" by auto
    then show ?case ..
  qed
  with assms show ?thesis by (auto simp: clearSockets_def andThen_eq_Inr)
qed

section \<open>Which socket is taken out\<close>

lemma eraseFirst_hit:
  assumes "deref w p = Inr sp" "\<forall>x \<in> set xs. \<exists>sx. deref w x = Inr sx \<and> descriptor sx \<noteq> descriptor sp"
    and "deref w q = Inr sq" "descriptor sq = descriptor sp"
  shows "eraseFirst w p (xs @ q # ys) = Inr (Some q, xs @ ys)"
  using assms by (induction xs) auto

text \<open>
  While the list is not full, \<^verbatim>\<open>delSocket\<close> takes out the first element with the same
  descriptor and no other; when the list was the last owner, the object goes with it and its
  descriptor is closed.
\<close>

theorem delSocket_removes:
  assumes "owned w (add_mset q M)" "q \<noteq> nullptr" "length (sockets l) \<noteq> maxSize l"
    and "sockets l = xs @ q # ys" "deref w q = Inr sq"
    and "deref w p = Inr sp" "descriptor sq = descriptor sp"
    and "\<forall>x \<in> set xs. \<exists>sx. deref w x = Inr sx \<and> descriptor sx \<noteq> descriptor sp"
  shows "\<exists>w'. delSocket S p l w = Inr (True, l\<lparr>sockets := xs @ ys\<rparr>, w') \<and> owned w' M \<and>
    trace w' = trace w @ (if q \<in># M then [] else destroyEvents sq)"
proof -
  have e: "eraseFirst w p (sockets l) = Inr (Some q, xs @ ys)"
    unfolding assms(4) using eraseFirst_hit assms(5-8) by metis
  obtain w' where "releasePtr S q w = Inr w'" "owned w' M"
    "trace w' = trace w @ (if q \<in># M then [] else destroyEvents sq)"
    using release_shared [OF assms(1) _ assms(2), of S] release_last [OF assms(1) _ assms(2,5), of S]
    by (cases "q \<in># M") auto
  with e assms(3) show ?thesis by (simp add: delSocket_def)
qed

theorem delSocket_removes_witness:
  "\<exists>w'. delSocket replay 2 \<lparr>sockets = [1, 2], maxSize = 10\<rparr>
      (exampleWorld [exampleSock 3 UNIX, exampleSock 6 SSL] []) =
    Inr (True, \<lparr>sockets = [1], maxSize = 10\<rparr>, w') \<and> trace w' = [Io (EvClose 6)]"
proof -
  let ?w = "exampleWorld [exampleSock 3 UNIX, exampleSock 6 SSL] []"
  have own: "owned ?w (add_mset 2 {#1#})"
    by (auto simp: owned_def ownersOf_def le_Suc_eq numeral_2_eq_2)
  have d: "deref ?w 2 = Inr (exampleSock 6 SSL)" by (simp add: deref_def)
  have "\<forall>x \<in> set [1]. \<exists>sx. deref ?w x = Inr sx \<and> descriptor sx \<noteq> descriptor (exampleSock 6 SSL)"
    by (simp add: deref_def exampleSock_def)
  with delSocket_removes [OF own _ _ _ d d, of "\<lparr>sockets = [1, 2], maxSize = 10\<rparr>" "[1]" "[]" replay]
  show ?thesis by (auto simp: destroyEvents_def exampleSock_def)
qed

end
