(* ===== verification/SocketsPoller.thy ===== *)
theory SocketsPoller
  imports SocketsList
begin

text \<open>
  \<^verbatim>\<open>SocketsPoller.cpp\<close>: one call of \<^verbatim>\<open>poll\<close> over a list of sockets. The loop before the call
  collects and resets the event bits of each socket, the loop after it stores the returned
  bits and puts every socket that has some into the output list. The locale
  \<open>sockets_poller\<close> is the virtual interface \<^verbatim>\<open>SocketsPoller\<close> the two main loops use.
\<close>

definition MAX_SOCKETS_TO_POLL :: nat where "MAX_SOCKETS_TO_POLL = 1024"
definition EINTR :: int where "EINTR = 4"

section \<open>The call\<close>

fun collectPollInfo :: "ptr list \<Rightarrow> 'k world \<Rightarrow> ((int \<times> short) list \<times> 'k world) outcome" where
  "collectPollInfo [] w = Inr ([], w)"
| "collectPollInfo (p # ps) w =
     andThen (deref w p) (\<lambda>s.
     andThen (modifyObj (setEvents NO_EVENTS) p w) (\<lambda>w1.
     andThen (modifyObj (setRevents NO_EVENTS) p w1) (\<lambda>w2.
     andThen (collectPollInfo ps w2) (\<lambda>(fds, w3).
     Inr ((descriptor s, events s) # fds, w3)))))"

fun distribute ::
    "(nat \<Rightarrow> short) \<Rightarrow> nat \<Rightarrow> ptr list \<Rightarrow> sockets_list \<Rightarrow> 'k world \<Rightarrow>
     (sockets_list \<times> 'k world) outcome" where
  "distribute revs index [] out w = Inr (out, w)"
| "distribute revs index (p # ps) out w =
     (if revs index = 0 then distribute revs (Suc index) ps out w
      else andThen (modifyObj (setRevents (revs index)) p w) (\<lambda>w1.
           andThen (putSocket p out w1) (\<lambda>(b, out1, w2).
           distribute revs (Suc index) ps out1 w2)))"

definition pollSockets ::
    "'k sys \<Rightarrow> sockets_list \<Rightarrow> sockets_list \<Rightarrow> 'k world \<Rightarrow>
     (ErrorType \<times> sockets_list \<times> 'k world) outcome" where
  "pollSockets S inputSockets outputSockets w =
     guarded (length (sockets inputSockets) \<le> MAX_SOCKETS_TO_POLL) AssertFailed
       (andThen (collectPollInfo (sockets inputSockets) w) (\<lambda>(pollInfo, w1).
        case k_poll S pollInfo w1 of (r, w2) \<Rightarrow>
        if pollRet r = -1 then
          (if pollErrno r = EINTR then Inr (INTERRUPTED, outputSockets, w2)
           else Inr (ERROR, outputSockets, w2))
        else if pollRet r = 0 then Inr (TIMEOUT, outputSockets, w2)
        else andThen (distribute (pollRevents r) 0 (sockets inputSockets) outputSockets w2)
               (\<lambda>(out, w3). Inr (NO_ERROR, out, w3))))"

section \<open>The virtual interface\<close>

locale sockets_poller = socket_container own share release put del clear elems cap
  for own :: "'w \<Rightarrow> ptr multiset \<Rightarrow> bool"
    and share release
    and put :: "ptr \<Rightarrow> 'l \<Rightarrow> 'w \<Rightarrow> (bool \<times> 'l \<times> 'w) outcome"
    and del clear elems cap +
  fixes poll :: "'l \<Rightarrow> 'l \<Rightarrow> 'w \<Rightarrow> (ErrorType \<times> 'l \<times> 'w) outcome"
    and limit :: nat
  assumes poll_ok:
    "own w (mset (elems inp) + mset (elems out) + M) \<Longrightarrow> nullptr \<notin> set (elems inp) \<Longrightarrow>
     length (elems inp) \<le> limit \<Longrightarrow> length (elems out) \<le> cap out \<Longrightarrow>
     \<exists>e out' w'. poll inp out w = Inr (e, out', w') \<and>
       own w' (mset (elems inp) + mset (elems out') + M) \<and> cap out' = cap out \<and>
       length (elems out') \<le> cap out \<and> set (elems out') \<subseteq> set (elems out) \<union> set (elems inp) \<and>
       (e \<noteq> NO_ERROR \<longrightarrow> out' = out)"
begin

text \<open>
  One round of a main loop: clear the output list, then poll into it. The result holds
  input sockets only, and every pointer stays accounted for.
\<close>

lemma clear_then_poll:
  assumes own: "own w (mset (elems inp) + mset (elems out) + M)"
    and nn: "nullptr \<notin> set (elems inp)" and lim: "length (elems inp) \<le> limit"
    and reqs: "clear out w = Inr (out1, w1)" "own w2 (mset (elems inp) + M)"
  shows "\<exists>e out' w'. poll inp out1 w2 = Inr (e, out', w') \<and>
    own w' (mset (elems inp) + mset (elems out') + M) \<and> set (elems out') \<subseteq> set (elems inp) \<and>
    length (elems out') \<le> cap out \<and> cap out' = cap out \<and> (e \<noteq> NO_ERROR \<longrightarrow> elems out' = [])"
proof -
  from own have "own w (mset (elems out) + (mset (elems inp) + M))"
    by (simp add: ac_simps)
  with clear_ok reqs(1) have c: "elems out1 = []" "cap out1 = cap out" by fastforce+
  with reqs(2) have "own w2 (mset (elems inp) + mset (elems out1) + M)" by simp
  from poll_ok [OF this nn lim] c obtain e out' w' where
    "poll inp out1 w2 = Inr (e, out', w')"
    "own w' (mset (elems inp) + mset (elems out') + M)" "cap out' = cap out"
    "length (elems out') \<le> cap out" "set (elems out') \<subseteq> set (elems inp)"
    "e \<noteq> NO_ERROR \<longrightarrow> out' = out1"
    by auto
  with c show ?thesis by auto
qed

end

section \<open>The implementation meets it\<close>

lemma collectPollInfo_owned:
  "owned w M \<Longrightarrow> set ps \<subseteq> set_mset M \<Longrightarrow> nullptr \<notin> set ps \<Longrightarrow>
   \<exists>fds w'. collectPollInfo ps w = Inr (fds, w') \<and> owned w' M"
proof (induction ps arbitrary: w)
  case Nil
  then show ?case by simp
next
  case (Cons p ps)
  then have p: "p \<in># M" "p \<noteq> nullptr" by auto
  from Cons.prems(1) p obtain s where "deref w p = Inr s" using owned_deref by blast
  moreover obtain w1 where "modifyObj (setEvents NO_EVENTS) p w = Inr w1" "owned w1 M"
    using owned_modify Cons.prems(1) p by blast
  moreover from this(2) obtain w2 where "modifyObj (setRevents NO_EVENTS) p w1 = Inr w2" "owned w2 M"
    using owned_modify p by blast
  moreover from Cons.IH [OF this(2)] Cons.prems obtain fds w3 where
    "collectPollInfo ps w2 = Inr (fds, w3)" "owned w3 M" by auto
  ultimately show ?case by simp
qed

lemma distribute_owned:
  "owned w (mset (sockets out) + M) \<Longrightarrow> set ps \<subseteq> set_mset M \<Longrightarrow> nullptr \<notin> set ps \<Longrightarrow>
   length (sockets out) \<le> maxSize out \<Longrightarrow>
   \<exists>out' w'. distribute revs index ps out w = Inr (out', w') \<and> owned w' (mset (sockets out') + M) \<and>
     maxSize out' = maxSize out \<and> length (sockets out') \<le> maxSize out \<and>
     set (sockets out') \<subseteq> set (sockets out) \<union> set ps"
proof (induction ps arbitrary: index out w)
  case Nil
  then show ?case by simp
next
  case (Cons p ps)
  show ?case
  proof (cases "revs index = 0")
    case True
    with Cons.IH [OF Cons.prems(1), of "Suc index"] Cons.prems show ?thesis by force
  next
    case False
    from Cons.prems have p: "p \<in># mset (sockets out) + M" "p \<noteq> nullptr" by auto
    then obtain w1 where w1: "modifyObj (setRevents (revs index)) p w = Inr w1"
      "owned w1 (mset (sockets out) + M)"
      using owned_modify Cons.prems(1) by blast
    obtain b out1 w2 where put: "putSocket p out w1 = Inr (b, out1, w2)"
      using sl.put_total [OF w1(2) p(1)] by blast
    note o = sl.put_own [OF w1(2) p(1) put]
    then have "length (sockets out1) \<le> maxSize out1" using Cons.prems(4) by auto
    with Cons.IH [of w2 out1 "Suc index"] o Cons.prems obtain out' w' where
      "distribute revs (Suc index) ps out1 w2 = Inr (out', w')" "owned w' (mset (sockets out') + M)"
      "maxSize out' = maxSize out1" "length (sockets out') \<le> maxSize out1"
      "set (sockets out') \<subseteq> set (sockets out1) \<union> set ps"
      by auto
    moreover from o have "set (sockets out1) \<subseteq> insert p (set (sockets out))" "maxSize out1 = maxSize out"
      by auto
    ultimately show ?thesis using w1(1) put False by auto
  qed
qed

lemma pollSockets_owned:
  assumes own: "owned w (mset (sockets inp) + mset (sockets out) + M)"
    and nn: "nullptr \<notin> set (sockets inp)" and lim: "length (sockets inp) \<le> MAX_SOCKETS_TO_POLL"
    and cap: "length (sockets out) \<le> maxSize out"
  shows "\<exists>e out' w'. pollSockets S inp out w = Inr (e, out', w') \<and>
    owned w' (mset (sockets inp) + mset (sockets out') + M) \<and> maxSize out' = maxSize out \<and>
    length (sockets out') \<le> maxSize out \<and>
    set (sockets out') \<subseteq> set (sockets out) \<union> set (sockets inp) \<and> (e \<noteq> NO_ERROR \<longrightarrow> out' = out)"
proof -
  obtain fds w1 where w1: "collectPollInfo (sockets inp) w = Inr (fds, w1)"
    "owned w1 (mset (sockets inp) + mset (sockets out) + M)"
    using collectPollInfo_owned [OF own _ nn] by auto
  obtain r w2 where w2: "k_poll S fds w1 = (r, w2)" by (metis surj_pair)
  then have "owned w2 (mset (sockets inp) + mset (sockets out) + M)"
    using w1(2) owned_sameProc call_frame(1) by blast
  then have o2: "owned w2 (mset (sockets out) + (mset (sockets inp) + M))"
    by (simp add: ac_simps)
  obtain out' w3 where d: "distribute (pollRevents r) 0 (sockets inp) out w2 = Inr (out', w3)"
    "owned w3 (mset (sockets out') + (mset (sockets inp) + M))" "maxSize out' = maxSize out"
    "length (sockets out') \<le> maxSize out" "set (sockets out') \<subseteq> set (sockets out) \<union> set (sockets inp)"
    using distribute_owned [OF o2 _ nn cap, where revs = "pollRevents r" and index = 0] by auto
  show ?thesis
    using w1 w2 o2 d lim cap by (auto simp: pollSockets_def ac_simps)
qed

interpretation sp: sockets_poller owned sharePtr "releasePtr S" putSocket "delSocket S"
  "clearSockets S" sockets maxSize "pollSockets S" MAX_SOCKETS_TO_POLL for S :: "'k sys"
  by unfold_locales (rule pollSockets_owned)

section \<open>What one call of the poller does\<close>

lemma collectPollInfo_spec:
  assumes "distinct ps" "\<forall>p \<in> set ps. deref w p = Inr (so p)"
  shows "\<exists>w'. collectPollInfo ps w =
      Inr (map (\<lambda>p. (descriptor (so p), events (so p))) ps, w') \<and>
    trace w' = trace w \<and> kern w' = kern w \<and>
    (\<forall>q. deref w' q = (if q \<in> set ps then Inr ((so q)\<lparr>events := 0, revents := 0\<rparr>) else deref w q))"
  using assms
proof (induction ps arbitrary: w)
  case Nil
  then show ?case by simp
next
  case (Cons p ps)
  from Cons.prems have p: "deref w p = Inr (so p)" by simp
  obtain w1 where w1: "modifyObj (setEvents NO_EVENTS) p w = Inr w1" "trace w1 = trace w"
    "kern w1 = kern w"
    "\<forall>q. deref w1 q = (if q = p then Inr (setEvents NO_EVENTS (so p)) else deref w q)"
    using modify_known [OF p] by blast
  then have "deref w1 p = Inr (setEvents NO_EVENTS (so p))" by simp
  from modify_known [OF this] obtain w2 where w2: "modifyObj (setRevents NO_EVENTS) p w1 = Inr w2"
    "trace w2 = trace w1" "kern w2 = kern w1"
    "\<forall>q. deref w2 q =
       (if q = p then Inr (setRevents NO_EVENTS (setEvents NO_EVENTS (so p))) else deref w1 q)"
    by blast
  have "\<forall>q \<in> set ps. deref w2 q = Inr (so q)"
    using Cons.prems w1(4) w2(4) by auto
  from Cons.IH [OF _ this] Cons.prems(1) obtain w3 where w3:
    "collectPollInfo ps w2 = Inr (map (\<lambda>p. (descriptor (so p), events (so p))) ps, w3)"
    "trace w3 = trace w2" "kern w3 = kern w2"
    "\<forall>q. deref w3 q = (if q \<in> set ps then Inr ((so q)\<lparr>events := 0, revents := 0\<rparr>) else deref w2 q)"
    by auto
  show ?case
    using p w1 w2 w3 Cons.prems(1) by (auto simp: sock_defs NO_EVENTS_def)
qed

lemma distribute_spec:
  assumes "distinct ps" "\<forall>p \<in> set ps. deref w p = Inr (so p)" "length (sockets out) \<le> maxSize out"
  shows "\<exists>w'. distribute revs index ps out w =
      Inr (out\<lparr>sockets := sockets out @ take (maxSize out - length (sockets out))
             (map snd (filter (\<lambda>(i, p). revs i \<noteq> 0) (enumerate index ps)))\<rparr>, w') \<and>
    trace w' = trace w \<and>
    (\<forall>q. q \<notin> set ps \<longrightarrow> deref w' q = deref w q) \<and>
    (\<forall>(i, p) \<in> set (enumerate index ps). deref w' p =
       Inr (if revs i = 0 then so p else (so p)\<lparr>revents := revs i\<rparr>))"
  using assms
proof (induction ps arbitrary: index out w)
  case Nil
  then show ?case by simp
next
  case (Cons p ps)
  from Cons.prems have p: "deref w p = Inr (so p)" and nin: "p \<notin> set ps" by auto
  show ?case
  proof (cases "revs index = 0")
    case True
    with Cons.IH [of w out "Suc index"] Cons.prems nin show ?thesis
      by (fastforce dest: in_set_enumerate_eq [THEN iffD1])
  next
    case False
    obtain w1 where w1: "modifyObj (setRevents (revs index)) p w = Inr w1" "trace w1 = trace w"
      "\<forall>q. deref w1 q = (if q = p then Inr (setRevents (revs index) (so p)) else deref w q)"
      using modify_known [OF p] by blast
    then have "deref w1 p = Inr (setRevents (revs index) (so p))" by simp
    from share_known [OF this] obtain w1s where w1s: "sharePtr p w1 = Inr w1s"
      "trace w1s = trace w1" "\<forall>q. deref w1s q = deref w1 q" by blast
    define full where "full \<longleftrightarrow> length (sockets out) = maxSize out"
    define w2 where "w2 = (if full then w1 else w1s)"
    define out1 where "out1 = (if full then out else out\<lparr>sockets := sockets out @ [p]\<rparr>)"
    have put: "putSocket p out w1 = Inr (\<not> full, out1, w2)"
      using w1s by (simp add: putSocket_def full_def w2_def out1_def)
    have d2: "\<forall>q. deref w2 q = deref w1 q" "trace w2 = trace w"
      using w1s w1(2) by (simp_all add: w2_def)
    have "\<forall>q \<in> set ps. deref w2 q = Inr (so q)"
      using Cons.prems(2) d2(1) w1(3) nin by auto
    moreover have "length (sockets out1) \<le> maxSize out1"
      using Cons.prems(3) by (auto simp: out1_def full_def)
    ultimately obtain w' where w': "distribute revs (Suc index) ps out1 w2 =
        Inr (out1\<lparr>sockets := sockets out1 @ take (maxSize out1 - length (sockets out1))
             (map snd (filter (\<lambda>(i, p). revs i \<noteq> 0) (enumerate (Suc index) ps)))\<rparr>, w')"
      "trace w' = trace w2" "\<forall>q. q \<notin> set ps \<longrightarrow> deref w' q = deref w2 q"
      "\<forall>(i, p) \<in> set (enumerate (Suc index) ps). deref w' p =
         Inr (if revs i = 0 then so p else (so p)\<lparr>revents := revs i\<rparr>)"
      using Cons.IH [of w2 out1 "Suc index"] Cons.prems(1) by auto
    have "deref w' p = Inr ((so p)\<lparr>revents := revs index\<rparr>)"
      using w'(3) nin d2(1) w1(3) by (simp add: sock_defs)
    moreover have "out1\<lparr>sockets := sockets out1 @ take (maxSize out1 - length (sockets out1)) rs\<rparr> =
        out\<lparr>sockets := sockets out @ take (maxSize out - length (sockets out)) (p # rs)\<rparr>" for rs
      using Cons.prems(3) by (auto simp: out1_def full_def take_Cons')
    ultimately show ?thesis
      using w' w1(1,3) put False d2 nin by (auto simp: w1)
  qed
qed

lemma pollSockets_known:
  assumes "distinct (sockets inp)" "\<forall>p \<in> set (sockets inp). deref w p = Inr (so p)"
    and "length (sockets inp) \<le> 1024" "length (sockets out) \<le> maxSize out"
    and "pollSockets S inp out w = Inr (NO_ERROR, out', w')"
  shows "\<exists>r. (\<exists>k k1. sys_poll S (map (\<lambda>p. (descriptor (so p), events (so p))) (sockets inp)) k = (r, k1)) \<and>
    trace w' = trace w @
      [Io (EvPoll (map (\<lambda>p. (descriptor (so p), events (so p))) (sockets inp)) r)] \<and>
    sockets out' = sockets out @ take (maxSize out - length (sockets out))
      (map snd (filter (\<lambda>(i, p). pollRevents r i \<noteq> 0) (enumerate 0 (sockets inp)))) \<and>
    (\<forall>i < length (sockets inp). deref w' (sockets inp ! i) =
      Inr ((so (sockets inp ! i))\<lparr>events := 0, revents := pollRevents r i\<rparr>))"
proof -
  let ?ps = "sockets inp"
  define so1 where "so1 p = (so p)\<lparr>events := 0, revents := 0\<rparr>" for p
  obtain w1 where w1: "collectPollInfo ?ps w =
      Inr (map (\<lambda>p. (descriptor (so p), events (so p))) ?ps, w1)" "trace w1 = trace w"
    "\<forall>q. deref w1 q = (if q \<in> set ?ps then Inr (so1 q) else deref w q)"
    using collectPollInfo_spec [OF assms(1,2)] by (auto simp: so1_def)
  obtain r w2 where r: "k_poll S (map (\<lambda>p. (descriptor (so p), events (so p))) ?ps) w1 = (r, w2)"
    by (metis surj_pair)
  have h2: "heap w2 = heap w1" using sameProcD(1) [OF call_frame(1) [OF r]] .
  have t2: "trace w2 = trace w @ [Io (EvPoll (map (\<lambda>p. (descriptor (so p), events (so p))) ?ps) r)]"
    using r w1(2) by (auto simp: k_poll_def split: prod.splits)
  have "\<forall>p \<in> set ?ps. deref w2 p = Inr (so1 p)"
    using w1(3) deref_cong [OF h2] by simp
  from distribute_spec [OF assms(1) this assms(4), of "pollRevents r" 0] obtain w3 where w3:
    "distribute (pollRevents r) 0 ?ps out w2 =
      Inr (out\<lparr>sockets := sockets out @ take (maxSize out - length (sockets out))
             (map snd (filter (\<lambda>(i, p). pollRevents r i \<noteq> 0) (enumerate 0 ?ps)))\<rparr>, w3)"
    "trace w3 = trace w2"
    "\<forall>(i, p) \<in> set (enumerate 0 ?ps). deref w3 p =
       Inr (if pollRevents r i = 0 then so1 p else (so1 p)\<lparr>revents := pollRevents r i\<rparr>)"
    by blast
  have eq: "out' = out\<lparr>sockets := sockets out @ take (maxSize out - length (sockets out))
        (map snd (filter (\<lambda>(i, p). pollRevents r i \<noteq> 0) (enumerate 0 ?ps)))\<rparr>" "w' = w3"
    using assms(3,5) w1(1) r w3(1)
    by (auto simp: pollSockets_def MAX_SOCKETS_TO_POLL_def split: if_splits)
  have "deref w3 (?ps ! i) = Inr ((so (?ps ! i))\<lparr>events := 0, revents := pollRevents r i\<rparr>)"
    if "i < length ?ps" for i
  proof -
    from that have "(i, ?ps ! i) \<in> set (enumerate 0 ?ps)" by (simp add: in_set_enumerate_eq)
    with w3(3) show ?thesis by (fastforce simp: so1_def)
  qed
  moreover have "\<exists>k k1. sys_poll S (map (\<lambda>p. (descriptor (so p), events (so p))) ?ps) k = (r, k1)"
    using r by (auto simp: k_poll_def split: prod.splits)
  ultimately show ?thesis using eq w3(2) t2 by (intro exI [of _ r]) simp
qed

lemma pollSockets_ready:
  "(\<And>fds k. 0 < pollRet (fst (sys_poll S fds k))) \<Longrightarrow> pollSockets S inp out w = Inr (e, out', w') \<Longrightarrow>
   e = NO_ERROR"
  by (auto simp: pollSockets_def k_poll_def outcome_simps split: prod.splits if_splits)
    (metis fst_conv less_irrefl neg_0_less_iff_less not_one_less_zero zero_less_one less_asym)+

text \<open>
  C20. The poller hands \<^verbatim>\<open>poll\<close> the descriptor and the requested bits of every input socket,
  in order. When it reports events, exactly the input sockets with returned bits are
  appended to the output list, in order, as far as it has room; every input socket holds the
  bits returned for it, none if there were none, and its requests have been reset.
\<close>

theorem pollSockets_reports:
  assumes "distinct (sockets inp)" "\<forall>p \<in> set (sockets inp). deref w p = Inr (so p)"
    and "length (sockets inp) \<le> 1024" "length (sockets out) \<le> maxSize out"
    and "pollSockets S inp out w = Inr (NO_ERROR, out', w')"
  shows "\<exists>r. trace w' = trace w @
      [Io (EvPoll (map (\<lambda>p. (descriptor (so p), events (so p))) (sockets inp)) r)] \<and>
    sockets out' = sockets out @ take (maxSize out - length (sockets out))
      (map snd (filter (\<lambda>(i, p). pollRevents r i \<noteq> 0) (enumerate 0 (sockets inp)))) \<and>
    (\<forall>i < length (sockets inp). deref w' (sockets inp ! i) =
      Inr ((so (sockets inp ! i))\<lparr>events := 0, revents := pollRevents r i\<rparr>))"
  using pollSockets_known [OF assms] by blast

theorem pollSockets_reports_witness:
  "\<exists>out' w'. pollSockets replay \<lparr>sockets = [1, 2], maxSize = 10\<rparr> \<lparr>sockets = [], maxSize = 10\<rparr>
      (exampleWorld [exampleSock 5 UNIX, (exampleSock 6 SSL)\<lparr>events := POLLIN\<rparr>]
        [APoll \<lparr>pollRet = 1, pollErrno = 0, pollRevents = (\<lambda>i. if i = 1 then POLLIN else 0)\<rparr>]) =
      Inr (NO_ERROR, out', w') \<and> sockets out' = [2]"
proof -
  let ?s = "\<lambda>p::ptr. if p = 1 then exampleSock 5 UNIX else (exampleSock 6 SSL)\<lparr>events := POLLIN\<rparr>"
  let ?w = "exampleWorld [exampleSock 5 UNIX, (exampleSock 6 SSL)\<lparr>events := POLLIN\<rparr>]
        [APoll \<lparr>pollRet = 1, pollErrno = 0, pollRevents = (\<lambda>i. if i = 1 then POLLIN else 0)\<rparr>]"
  obtain out' w' where p: "pollSockets replay \<lparr>sockets = [1, 2], maxSize = 10\<rparr>
      \<lparr>sockets = [], maxSize = 10\<rparr> ?w = Inr (NO_ERROR, out', w')"
    "trace w' = [Io (EvPoll [(5, 0), (6, POLLIN)]
        \<lparr>pollRet = 1, pollErrno = 0, pollRevents = (\<lambda>i. if i = 1 then POLLIN else 0)\<rparr>)]"
    by (simp add: pollSockets_def MAX_SOCKETS_TO_POLL_def deref_def modifyObj_def exampleSock_def
        k_poll_def replay_def putSocket_def sharePtr_def sock_defs NO_EVENTS_def POLLIN_def)
  have "\<exists>r. trace w' = trace ?w @
      [Io (EvPoll (map (\<lambda>p. (descriptor (?s p), events (?s p))) [1, 2]) r)] \<and>
    sockets out' = [] @ take (10 - length ([] :: ptr list))
      (map snd (filter (\<lambda>(i, p). pollRevents r i \<noteq> 0) (enumerate 0 [1, 2]))) \<and>
    (\<forall>i < length [1, 2::ptr]. deref w' ([1, 2] ! i) =
      Inr ((?s ([1, 2] ! i))\<lparr>events := 0, revents := pollRevents r i\<rparr>))"
    using pollSockets_reports [of "\<lparr>sockets = [1, 2], maxSize = 10\<rparr>" ?w ?s
        "\<lparr>sockets = [], maxSize = 10\<rparr>" replay out' w'] p(1)
    by (simp add: deref_def)
  then show ?thesis using p by (auto simp: POLLIN_def)
qed

section \<open>One ready socket\<close>

text \<open>The environment in which \<^verbatim>\<open>poll\<close> finds the socket at place \<open>i\<close> readable, and no other.\<close>

definition onlyReady :: "'k sys \<Rightarrow> nat \<Rightarrow> bool" where
  "onlyReady S i \<longleftrightarrow> (\<forall>fds k. 0 < pollRet (fst (sys_poll S fds k)) \<and>
     pollRevents (fst (sys_poll S fds k)) = (\<lambda>j. if j = i then POLLIN else 0))"

lemma filter_enumerate_one:
  "i < length xs \<Longrightarrow> filter (\<lambda>(j, x). j = n + i) (enumerate n xs) = [(n + i, xs ! i)]"
proof (induction xs arbitrary: n i)
  case (Cons x xs)
  have none: "filter (\<lambda>(j, x). j = n) (enumerate (Suc n) xs) = []"
    by (auto simp: filter_empty_conv in_set_enumerate_eq)
  show ?case
  proof (cases i)
    case 0
    with none show ?thesis by simp
  next
    case (Suc k)
    with Cons.IH [of k "Suc n"] Cons.prems show ?thesis by simp
  qed
qed simp

lemma pollSockets_one:
  assumes "onlyReady S i" "pollSockets S inp out w = Inr (e, out', w')" "i < length (sockets inp)"
    and "distinct (sockets inp)" "\<forall>p \<in> set (sockets inp). deref w p = Inr (so p)"
    and "length (sockets inp) \<le> 1024" "sockets out = []" "0 < maxSize out"
  shows "e = NO_ERROR \<and> sockets out' = [sockets inp ! i] \<and>
    (\<exists>fds r. trace w' = trace w @ [Io (EvPoll fds r)]) \<and>
    (\<forall>j < length (sockets inp). deref w' (sockets inp ! j) =
      Inr ((so (sockets inp ! j))\<lparr>events := 0, revents := (if j = i then POLLIN else 0)\<rparr>))"
proof -
  have e: "e = NO_ERROR" using pollSockets_ready [OF _ assms(2)] assms(1) by (simp add: onlyReady_def)
  have room: "length (sockets out) \<le> maxSize out" using assms(7) by simp
  let ?fds = "map (\<lambda>q. (descriptor (so q), events (so q))) (sockets inp)"
  obtain r where r: "\<exists>k k1. sys_poll S ?fds k = (r, k1)" and tr: "trace w' = trace w @ [Io (EvPoll ?fds r)]"
    and out: "sockets out' = sockets out @ take (maxSize out - length (sockets out))
      (map snd (filter (\<lambda>(j, q). pollRevents r j \<noteq> 0) (enumerate 0 (sockets inp))))"
    and obj: "\<forall>j < length (sockets inp). deref w' (sockets inp ! j) =
      Inr ((so (sockets inp ! j))\<lparr>events := 0, revents := pollRevents r j\<rparr>)"
    using pollSockets_known [OF assms(4,5,6) room assms(2) [unfolded e]] by blast
  from r assms(1) have rev: "pollRevents r = (\<lambda>j. if j = i then POLLIN else 0)"
    unfolding onlyReady_def by (metis fst_conv)
  have "(\<lambda>(j, q). pollRevents r j \<noteq> 0) = (\<lambda>(j :: nat, q :: ptr). j = 0 + i)"
    by (auto simp: rev POLLIN_def fun_eq_iff)
  then have "sockets out' = [sockets inp ! i]"
    using out assms(7,8) filter_enumerate_one [OF assms(3), of 0] by simp
  with e tr obj rev show ?thesis by auto
qed

end
