(* ===== verification/SocketIO.thy ===== *)
theory SocketIO
  imports SharedPtr
begin

text \<open>
  \<^verbatim>\<open>SslSocket.cpp\<close> and the byte transfer of \<^verbatim>\<open>SocketUtils.cpp\<close>: building a TLS socket on a
  received descriptor, reading and writing through the BIO of an \<^verbatim>\<open>SslSocket\<close> or through
  the plain descriptor.
\<close>

section \<open>Constructors of \<^verbatim>\<open>SslSocket\<close>\<close>

definition BIO_NOCLOSE :: int where "BIO_NOCLOSE = 0"

text \<open>A BIO and an SSL object on a descriptor, tied together.\<close>

definition newSslOn ::
    "'k sys \<Rightarrow> int \<Rightarrow> int \<Rightarrow> 'k world \<Rightarrow> (handle \<times> handle \<times> 'k world) outcome" where
  "newSslOn S fd flag w =
     (case k_BIO_new_socket S fd flag w of (b, w1) \<Rightarrow>
      case k_SSL_new S (sslGlobalCtx w1) w1 of (ssl, w2) \<Rightarrow>
      andThen (setBio S ssl b w2) (\<lambda>w3. Inr (b, ssl, w3)))"

text \<open>
  \<^verbatim>\<open>std::make_shared<SslSocket>(std::move(socket))\<close>: the new object takes the descriptor,
  the old one is told not to close it, and then loses the owner that was moved in.
\<close>

definition makeSslSocket :: "'k sys \<Rightarrow> ptr \<Rightarrow> 'k world \<Rightarrow> (ptr \<times> 'k world) outcome" where
  "makeSslSocket S p w =
     andThen (deref w p) (\<lambda>s.
     andThen (newSocket PlainSocket (descriptor s) SSL False) (\<lambda>base.
     andThen (newSslOn S (descriptor s) BIO_NOCLOSE w) (\<lambda>(b, ssl, w1).
     andThen (modifyObj doProtectDescriptor p w1) (\<lambda>w2.
     case makeShared (base\<lparr>dynClass := SslSocket b ssl\<rparr>) w2 of (q, w3) \<Rightarrow>
     andThen (releasePtr S p w3) (\<lambda>w4. Inr (q, w4))))))"

text \<open>\<^verbatim>\<open>SslSocket(int descriptor)\<close> and \<^verbatim>\<open>SslSocket(int, BIO*, SSL*)\<close>.\<close>

definition makeSslSocketFd :: "'k sys \<Rightarrow> int \<Rightarrow> 'k world \<Rightarrow> (ptr \<times> 'k world) outcome" where
  "makeSslSocketFd S fd w =
     andThen (newSocket PlainSocket fd SSL False) (\<lambda>base.
     andThen (newSslOn S fd 0 w) (\<lambda>(b, ssl, w1).
     Inr (makeShared (base\<lparr>dynClass := SslSocket b ssl\<rparr>) w1)))"

definition newSslSocketRaw :: "int \<Rightarrow> handle \<Rightarrow> handle \<Rightarrow> sock outcome" where
  "newSslSocketRaw fd b ssl = newSocket (SslSocket b ssl) fd SSL False"

text \<open>A class derived from it without fields of its own.\<close>

definition newSslClientSocket :: "int \<Rightarrow> handle \<Rightarrow> handle \<Rightarrow> sock outcome" where
  "newSslClientSocket fd b ssl =
     andThen (newSslSocketRaw fd b ssl) (\<lambda>s. Inr (s\<lparr>dynClass := SslClientSocket b ssl\<rparr>))"

lemma newSslClientSocket_eq [simp]:
  "newSslClientSocket fd b ssl = newSocket (SslClientSocket b ssl) fd SSL False"
  by (simp add: newSslClientSocket_def newSslSocketRaw_def newSocket_def guarded_def)

section \<open>Reading and writing\<close>

definition utilsRead ::
    "'k sys \<Rightarrow> ptr \<Rightarrow> nat \<Rightarrow> int \<Rightarrow> 'k world \<Rightarrow> (io \<times> 'k world) outcome" where
  "utilsRead S p bufferSize flags w =
     andThen (deref w p) (\<lambda>s.
       Inr (case castSslSocket (dynClass s) of
              Some b \<Rightarrow> k_BIO_read S b bufferSize w
            | None \<Rightarrow> k_recv S (descriptor s) bufferSize flags w))"

definition utilsWrite :: "'k sys \<Rightarrow> ptr \<Rightarrow> string \<Rightarrow> 'k world \<Rightarrow> (int \<times> 'k world) outcome" where
  "utilsWrite S p message w =
     andThen (deref w p) (\<lambda>s.
       Inr (case castSslSocket (dynClass s) of
              Some b \<Rightarrow> k_BIO_write S b message w
            | None \<Rightarrow> k_write S (descriptor s) message w))"

section \<open>Facts\<close>

lemma newSslOn_frame [frame]: "newSslOn S fd flag w = Inr (b, ssl, w') \<Longrightarrow> sameProc w w'"
  by (auto simp: newSslOn_def outcome_simps split: prod.splits dest!: frame intro: sameProc_trans)

lemma newSslOn_sat: "sat (sslCrashes S) (\<lambda>(b, ssl, w'). newSslOn S fd flag w = Inr (b, ssl, w')) (newSslOn S fd flag w)"
proof -
  obtain b w1 where b: "k_BIO_new_socket S fd flag w = (b, w1)" by (metis surj_pair)
  obtain ssl w2 where n: "k_SSL_new S (sslGlobalCtx w1) w1 = (ssl, w2)" by (metis surj_pair)
  have "sat (sslCrashes S) (\<lambda>w3. setBio S ssl b w2 = Inr w3) (setBio S ssl b w2)"
    by (rule sat_setBio [OF n]) simp_all
  then have "sat (sslCrashes S) (\<lambda>(b', ssl', w'). newSslOn S fd flag w = Inr (b', ssl', w'))
      (andThen (setBio S ssl b w2) (\<lambda>w3. Inr (b, ssl, w3)))"
    by (rule sat_andThen) (simp add: newSslOn_def b n)
  then show ?thesis by (simp add: newSslOn_def b n)
qed

lemma utilsRead_frame [frame]: "utilsRead S p n flags w = Inr (r, w') \<Longrightarrow> sameProc w w'"
  by (auto simp: utilsRead_def outcome_simps split: option.splits dest: frame)

lemma utilsWrite_frame [frame]: "utilsWrite S p m w = Inr (r, w') \<Longrightarrow> sameProc w w'"
  by (auto simp: utilsWrite_def outcome_simps split: option.splits dest: frame)

lemma utilsRead_total: "deref w p = Inr s \<Longrightarrow> \<exists>r w'. utilsRead S p n flags w = Inr (r, w')"
  by (auto simp: utilsRead_def split: option.splits)

lemma utilsWrite_total: "deref w p = Inr s \<Longrightarrow> \<exists>r w'. utilsWrite S p m w = Inr (r, w')"
  by (auto simp: utilsWrite_def split: option.splits)

text \<open>The owner of the old object becomes the owner of the new one.\<close>

lemma makeSslSocket_owned:
  assumes own: "owned w (add_mset p M)" and p: "p \<noteq> nullptr"
    and fd: "deref w p = Inr s" "descriptor s \<noteq> -1"
  shows "sat (sslCrashes S) (\<lambda>(q, w'). owned w' (add_mset q M) \<and> q \<noteq> nullptr) (makeSslSocket S p w)"
proof -
  obtain base where base: "newSocket PlainSocket (descriptor s) SSL False = Inr base"
    using fd(2) by (simp add: newSocket_def FREE_SOCKET_def)
  show ?thesis
    unfolding makeSslSocket_def fd(1) base andThen.simps
  proof (rule sat_andThen [OF newSslOn_sat], clarify, goal_cases)
    case (1 b ssl w1)
    then have "owned w1 (add_mset p M)"
      using own owned_sameProc newSslOn_frame by blast
    then obtain w2 where w2: "modifyObj doProtectDescriptor p w1 = Inr w2" "owned w2 (add_mset p M)"
      using owned_modify p by (metis union_single_eq_member)
    obtain q w3 where q: "makeShared (base\<lparr>dynClass := SslSocket b ssl\<rparr>) w2 = (q, w3)"
      by (metis surj_pair)
    with w2 have q3: "owned w3 (add_mset p (add_mset q M))" "q \<noteq> nullptr"
      using owned_make by (metis add_mset_commute, blast)
    then obtain w4 where "releasePtr S p w3 = Inr w4" "owned w4 (add_mset q M)"
      using owned_release by blast
    with w2 q q3 show ?case by simp
  qed
qed

lemma read_sat:
  "owned w M \<Longrightarrow> p \<in># M \<Longrightarrow> p \<noteq> nullptr \<Longrightarrow>
   sat E (\<lambda>(r, w'). owned w' M) (utilsRead S p n flags w)"
proof -
  assume own: "owned w M" and p: "p \<in># M" "p \<noteq> nullptr"
  then obtain s where "deref w p = Inr s" using owned_deref by blast
  then obtain r w' where r: "utilsRead S p n flags w = Inr (r, w')" using utilsRead_total by blast
  then show ?thesis using own owned_sameProc [OF utilsRead_frame [OF r]] by simp
qed

lemma write_sat:
  "owned w M \<Longrightarrow> p \<in># M \<Longrightarrow> p \<noteq> nullptr \<Longrightarrow>
   sat E (\<lambda>(r, w'). owned w' M) (utilsWrite S p m w)"
proof -
  assume own: "owned w M" and p: "p \<in># M" "p \<noteq> nullptr"
  then obtain s where "deref w p = Inr s" using owned_deref by blast
  then obtain r w' where r: "utilsWrite S p m w = Inr (r, w')" using utilsWrite_total by blast
  then show ?thesis using own owned_sameProc [OF utilsWrite_frame [OF r]] by simp
qed

section \<open>Handing a descriptor over\<close>

lemma makeSslSocket_known:
  assumes "owned w (add_mset p M)" "p \<notin># M" "p \<noteq> nullptr"
    and "deref w p = Inr s" "dynClass s = TcpSocket" "makeSslSocket S p w = Inr (q, w')"
  shows "\<exists>b ssl. trace w' = trace w @ [Tls (EvBioNew (descriptor s) 0 b),
      Tls (EvSslNew (sslGlobalCtx w) ssl), Tls (EvSslSetBio ssl b)] \<and>
    deref w' p = Inl UseAfterFree \<and>
    deref w' q = Inr \<lparr>dynClass = SslSocket b ssl, protectDescriptor = False,
      descriptor = descriptor s, events = 0, revents = 0, socketType = SSL,
      listenSocket = False, clientStatus = NO_STATUS\<rparr> \<and> q \<notin># M"
proof -
  obtain b ssl w1 where n: "newSslOn S (descriptor s) BIO_NOCLOSE w = Inr (b, ssl, w1)"
    using assms(4,6) by (auto simp: makeSslSocket_def outcome_simps)
  have t1: "trace w1 = trace w @ [Tls (EvBioNew (descriptor s) 0 b),
      Tls (EvSslNew (sslGlobalCtx w) ssl), Tls (EvSslSetBio ssl b)]"
    using n by (auto simp: newSslOn_def outcome_simps call_defs BIO_NOCLOSE_def split: prod.splits)
  have o1: "owned w1 (add_mset p M)" using assms(1) owned_sameProc [OF newSslOn_frame [OF n]] by simp
  have d1: "deref w1 p = Inr s"
    using assms(4) deref_cong sameProcD(1) [OF newSslOn_frame [OF n]] by metis
  obtain w2 where w2: "modifyObj doProtectDescriptor p w1 = Inr w2" "owned w2 (add_mset p M)"
    using owned_modify [OF o1 _ assms(3)] by force
  then have t2: "trace w2 = trace w1" by (auto simp: modifyObj_def split: if_splits option.splits)
  have d2: "deref w2 p = Inr (doProtectDescriptor s)" using deref_modify [OF w2(1) d1] by simp
  define base where "base = \<lparr>dynClass = SslSocket b ssl, protectDescriptor = False,
      descriptor = descriptor s, events = 0, revents = 0, socketType = SSL,
      listenSocket = False, clientStatus = NO_STATUS\<rparr>"
  obtain q3 w3 where w3: "makeShared base w2 = (q3, w3)" by (metis surj_pair)
  have o3: "owned w3 (add_mset p (add_mset q3 M))" "q3 \<noteq> nullptr"
    using owned_make [OF w2(2) w3] by (simp_all add: add_mset_commute)
  have "q3 = nextPtr w2" using w3 by (simp add: makeShared_def)
  then have ne: "q3 \<noteq> p" "q3 \<notin># M" using owned_nextPtr [OF w2(2)] by auto
  have d3: "deref w3 p = Inr (doProtectDescriptor s)" "deref w3 q3 = Inr base"
    using deref_make [OF w3 o3(2)] d2 ne by simp_all
  obtain w4 where w4: "releasePtr S p w3 = Inr w4"
    using owned_release [OF o3(1)] by blast
  have "p \<notin># add_mset q3 M" using assms(2) ne by simp
  with release_closes_once [OF o3(1) assms(3) d3(1) w4] assms(5)
  have t4: "trace w4 = trace w3" "deref w4 p = Inl UseAfterFree"
    by (simp_all add: destroyEvents_def doProtectDescriptor_def)
  have d4: "deref w4 q3 = Inr base"
    using w4 d3(2) ne o3(2)
    by (auto simp: releasePtr_def deref_def sameProcD [OF destroySocket_frame]
        split: if_splits option.splits)
  have fd: "descriptor s \<noteq> FREE_SOCKET" and eq: "q = q3" "w' = w4"
    using assms(4,6) n w2(1) w3 w4
    by (auto simp: makeSslSocket_def newSocket_def NO_EVENTS_def base_def outcome_simps
        guarded_def split: if_splits)
  have t3: "trace w3 = trace w2" using w3 by (auto simp: makeShared_def)
  show ?thesis
    using t1 t2 t3 t4 d4 eq ne(2) unfolding base_def by auto
qed

text \<open>
  Wrapping a received socket hands its descriptor over: the TLS socket gets the
  descriptor, a BIO on it that does not own it and an SSL object of the process's context,
  and the plain object goes away without closing anything.
\<close>

theorem makeSslSocket_hands_over:
  assumes "owned w (add_mset p M)" "p \<notin># M" "p \<noteq> nullptr"
    and "deref w p = Inr s" "dynClass s = TcpSocket" "makeSslSocket S p w = Inr (q, w')"
  shows "\<exists>b ssl. trace w' = trace w @ [Tls (EvBioNew (descriptor s) 0 b),
      Tls (EvSslNew (sslGlobalCtx w) ssl), Tls (EvSslSetBio ssl b)] \<and>
    deref w' p = Inl UseAfterFree \<and>
    deref w' q = Inr \<lparr>dynClass = SslSocket b ssl, protectDescriptor = False,
      descriptor = descriptor s, events = 0, revents = 0, socketType = SSL,
      listenSocket = False, clientStatus = NO_STATUS\<rparr>"
  using makeSslSocket_known [OF assms] by blast

theorem makeSslSocket_hands_over_witness:
  "\<exists>q w'. makeSslSocket replay 1 (exampleWorld [(exampleSock 6 TCP)\<lparr>dynClass := TcpSocket\<rparr>]
      [AHandle 20, AHandle 30]) = Inr (q, w') \<and>
    trace w' = [Tls (EvBioNew 6 0 20), Tls (EvSslNew 0 30), Tls (EvSslSetBio 30 20)]"
proof -
  let ?s = "(exampleSock 6 TCP)\<lparr>dynClass := TcpSocket\<rparr>"
  let ?w = "exampleWorld [?s] [AHandle 20, AHandle 30]"
  have own: "owned ?w (add_mset 1 {#})"
    by (auto simp: owned_def ownersOf_def)
  have d: "deref ?w 1 = Inr ?s" by (simp add: deref_def)
  obtain q w' where q: "makeSslSocket replay 1 ?w = Inr (q, w')"
    by (simp add: makeSslSocket_def newSslOn_def call_defs replay_def deref_def exampleSock_def modifyObj_def
        makeShared_def releasePtr_def newSocket_def FREE_SOCKET_def guarded_def destroySocket_def doProtectDescriptor_def)
  then have "Tls (EvBioNew 6 0 20) \<in> set (trace w')" "Tls (EvSslNew 0 30) \<in> set (trace w')"
    by (auto simp: makeSslSocket_def newSslOn_def call_defs replay_def deref_def exampleSock_def
        modifyObj_def makeShared_def releasePtr_def newSocket_def FREE_SOCKET_def outcome_simps
        guarded_def destroySocket_def doProtectDescriptor_def BIO_NOCLOSE_def)
  with makeSslSocket_hands_over [OF own _ _ d _ q] q show ?thesis
    by (auto simp: exampleSock_def)
qed

end
