(* ===== verification/SslContext.thy ===== *)
theory SslContext
  imports Replay
begin

text \<open>
  \<^verbatim>\<open>InitSsl.cpp\<close>: the process-wide TLS context with its error code and key password.
  The globals are fields of \<open>world\<close>; OpenSSL's functions are the environment's.
\<close>

section \<open>The password callback\<close>

text \<open>
  OpenSSL calls \<^verbatim>\<open>pass_user_password_cb(buf, size, ...)\<close> with a buffer of \<open>room\<close> bytes. A
  password longer than a positive \<open>room\<close> is refused with \<open>0\<close>; otherwise the bytes are
  copied, even where \<open>room\<close> is not positive.
\<close>

definition pass_user_password_cb :: "string \<Rightarrow> int \<Rightarrow> (int \<times> string) outcome" where
  "pass_user_password_cb password room =
     (if room > 0 \<and> int (length password) > room then Inr (0, [])
      else guarded (int (length password) \<le> max room 0) BufferOverflow
             (Inr (int (length password), password)))"

section \<open>Creating and dropping the context\<close>

text \<open>
  One of the three failure branches of \<^verbatim>\<open>createContext\<close>: the error is fetched into the
  global, the context is freed and the global pointer reset. The \<^verbatim>\<open>unsigned long\<close> error is
  returned as an \<^verbatim>\<open>int\<close>, which keeps its low 32 bits.
\<close>

definition ctxFailure :: "'k sys \<Rightarrow> 'k world \<Rightarrow> 32 word \<times> 'k world" where
  "ctxFailure S w =
     (case k_ERR_get_error S w of (e, w1) \<Rightarrow>
        let w2 = k_SSL_CTX_free S (sslGlobalCtx w1) (w1\<lparr>sslError := e\<rparr>);
            w3 = w2\<lparr>sslGlobalCtx := 0\<rparr>
        in (ucast (sslError w3), w3))"

definition createContext ::
    "'k sys \<Rightarrow> string \<Rightarrow> string \<Rightarrow> string \<Rightarrow> string \<Rightarrow> 'k world \<Rightarrow> 32 word \<times> 'k world" where
  "createContext S ca crt key password w =
     (if sslGlobalCtx w \<noteq> 0 then (0, w)
      else
        (case k_SSL_CTX_new S (w\<lparr>keyFilePassword := password\<rparr>) of (ctx, w1) \<Rightarrow>
         case k_use_certificate S ctx (cstr crt) (w1\<lparr>sslGlobalCtx := ctx\<rparr>) of (e1, w2) \<Rightarrow>
         if e1 \<noteq> 1 then ctxFailure S w2
         else
         case k_use_PrivateKey S (sslGlobalCtx w2) (cstr key) (keyFilePassword w2) w2 of (e2, w3) \<Rightarrow>
         if e2 \<noteq> 1 then ctxFailure S w3
         else
         case k_load_verify S (sslGlobalCtx w3) (cstr ca) w3 of (e3, w4) \<Rightarrow>
         if e3 \<noteq> 1 then ctxFailure S w4
         else (ucast (sslError w4), w4)))"

definition createClientContext :: "'k sys \<Rightarrow> 'k world \<Rightarrow> 32 word \<times> 'k world" where
  "createClientContext S w =
     (if sslGlobalCtx w \<noteq> 0 then (0, w)
      else case k_SSL_CTX_new S w of (ctx, w1) \<Rightarrow>
        (ucast (sslError w1), w1\<lparr>sslGlobalCtx := ctx\<rparr>))"

definition dropContext :: "'k sys \<Rightarrow> 'k world \<Rightarrow> 'k world" where
  "dropContext S w =
     (if sslGlobalCtx w = 0 then w
      else (k_SSL_CTX_free S (sslGlobalCtx w) w)\<lparr>sslGlobalCtx := 0\<rparr>)"

section \<open>What they change\<close>

text \<open>
  \<open>sameHeap\<close>: nothing but the environment, the trace and the globals of \<^verbatim>\<open>InitSsl.cpp\<close>
  changes.
\<close>

definition sameHeap :: "'k world \<Rightarrow> 'k world \<Rightarrow> bool" where
  "sameHeap w w' \<longleftrightarrow> heap w' = heap w \<and> nextPtr w' = nextPtr w \<and> recvCmsg w' = recvCmsg w \<and>
     sendCmsg w' = sendCmsg w \<and> appCfg w' = appCfg w"

lemma sameHeap_sameProc: "sameProc w w' \<Longrightarrow> sameHeap w w'"
  by (simp add: sameHeap_def sameProcD)

lemma ctxFailure_frame [frame]: "ctxFailure S w = (r, w') \<Longrightarrow> sameHeap w w'"
  by (auto simp: ctxFailure_def Let_def k_ERR_get_error_def k_SSL_CTX_free_def sameHeap_def
      split: prod.splits)

lemma createContext_frame [frame]: "createContext S ca crt key pw w = (r, w') \<Longrightarrow> sameHeap w w'"
  by (auto simp: createContext_def k_SSL_CTX_new_def k_use_certificate_def k_use_PrivateKey_def
      k_load_verify_def sameHeap_def split: prod.splits if_splits dest!: ctxFailure_frame)

lemma ctxFailure_drops: "ctxFailure S w = (r, w') \<Longrightarrow> sslGlobalCtx w' = 0 \<and> r = ucast (sslError w')"
  by (auto simp: ctxFailure_def Let_def split: prod.splits)

text \<open>Every call but the failed ones leaves the error code alone.\<close>

lemma createContext_cases:
  assumes "createContext S ca crt key pw w = (r, w')"
  shows "sslGlobalCtx w \<noteq> 0 \<and> r = 0 \<and> w' = w \<or>
    sslGlobalCtx w = 0 \<and> sslGlobalCtx w' = 0 \<and> r = ucast (sslError w') \<or>
    sslGlobalCtx w = 0 \<and> sslError w' = sslError w \<and> r = ucast (sslError w) \<and>
      keyFilePassword w' = pw"
  using assms
  by (auto simp: createContext_def k_SSL_CTX_new_def k_use_certificate_def k_use_PrivateKey_def
      k_load_verify_def split: prod.splits if_splits dest: ctxFailure_drops)

section \<open>Properties\<close>


text \<open>The three files a new context is loaded with, in order, with what the calls returned.\<close>

definition loadEvents :: "handle \<Rightarrow> string \<Rightarrow> string \<Rightarrow> string \<Rightarrow> int list \<Rightarrow> event list" where
  "loadEvents ctx ca crt key rs =
     map2 (\<lambda>f r. Ctx (f r)) [EvUseCert ctx (cstr crt), EvUseKey ctx (cstr key), EvLoadCa ctx (cstr ca)] rs"

text \<open>
  C31. \<^verbatim>\<open>createContext\<close> returns at once, with success, when a context exists. Otherwise it makes
  a context and loads the certificate, the key and the authorities into it, in this order.
  If all three succeed, the global is the new context and the error code the process
  already had stays and is returned: a success does not clear it. At the first one that
  fails it stops: the error that \<^verbatim>\<open>ERR_get_error\<close> gives is stored in the global and is what is
  returned, the context is freed, and the global context is null. What is returned is the low
  32 bits of the code.
\<close>

theorem createContext_contract:
  assumes "createContext S ca crt key pw w = (r, w')"
  shows "if sslGlobalCtx w \<noteq> 0 then r = 0 \<and> w' = w
    else keyFilePassword w' = pw \<and> heap w' = heap w \<and> appCfg w' = appCfg w \<and> r = ucast (sslError w') \<and>
      (\<exists>ctx.
        sslGlobalCtx w' = ctx \<and> sslError w' = sslError w \<and>
          trace w' = trace w @ Ctx (EvCtxNew ctx) # loadEvents ctx ca crt key [1, 1, 1] \<or>
        (\<exists>rs n e. length rs < 3 \<and> set rs \<subseteq> {1} \<and> n \<noteq> 1 \<and> sslGlobalCtx w' = 0 \<and> sslError w' = e \<and>
          trace w' = trace w @ Ctx (EvCtxNew ctx) # loadEvents ctx ca crt key (rs @ [n]) @
            [Ctx (EvErrGet e), Ctx (EvCtxFree ctx)]))"
proof (cases "sslGlobalCtx w = 0")
  case True
  note frame = createContext_frame [OF assms]
  from True assms obtain ctx w1 r1 w2 where c: "k_SSL_CTX_new S (w\<lparr>keyFilePassword := pw\<rparr>) = (ctx, w1)"
    "k_use_certificate S ctx (cstr crt) (w1\<lparr>sslGlobalCtx := ctx\<rparr>) = (r1, w2)" by (metis surj_pair)
  have g2: "sslGlobalCtx w2 = ctx" using c by (auto simp: call_defs split: prod.splits)
  obtain r2 w3 where d: "k_use_PrivateKey S ctx (cstr key) (keyFilePassword w2) w2 = (r2, w3)" by (metis surj_pair)
  have g3: "sslGlobalCtx w3 = ctx" using d g2 by (auto simp: call_defs split: prod.splits)
  obtain r3 w4 where f: "k_load_verify S ctx (cstr ca) w3 = (r3, w4)" by (metis surj_pair)
  have run: "(r, w') = (if r1 \<noteq> 1 then ctxFailure S w2 else if r2 \<noteq> 1 then ctxFailure S w3
    else if r3 \<noteq> 1 then ctxFailure S w4 else (ucast (sslError w4), w4))"
    using assms True c d f g2 g3 by (simp add: createContext_def cong: if_cong)
  have w2: "trace w2 = trace w @ Ctx (EvCtxNew ctx) # loadEvents ctx ca crt key [r1]" "keyFilePassword w2 = pw"
    "sslError w2 = sslError w"
    using c by (auto simp: call_defs loadEvents_def split: prod.splits)
  have w3: "trace w3 = trace w @ Ctx (EvCtxNew ctx) # loadEvents ctx ca crt key [r1, r2]" "keyFilePassword w3 = pw"
    "sslError w3 = sslError w"
    using d w2 by (auto simp: call_defs loadEvents_def split: prod.splits)
  have w4: "trace w4 = trace w @ Ctx (EvCtxNew ctx) # loadEvents ctx ca crt key [r1, r2, r3]" "keyFilePassword w4 = pw"
    "sslError w4 = sslError w" "sslGlobalCtx w4 = ctx"
    using f w3 g3 by (auto simp: call_defs loadEvents_def split: prod.splits)
  have fails: "sslGlobalCtx w' = 0 \<and> keyFilePassword w' = keyFilePassword v \<and> r = ucast (sslError w') \<and>
      trace w' = trace v @ [Ctx (EvErrGet (sslError w')), Ctx (EvCtxFree (sslGlobalCtx v))]"
    if "(r, w') = ctxFailure S v" for v
    using that by (auto simp: ctxFailure_def call_defs Let_def split: prod.splits)
  consider "r1 \<noteq> 1" "(r, w') = ctxFailure S w2" | "r1 = 1" "r2 \<noteq> 1" "(r, w') = ctxFailure S w3"
    | "r1 = 1" "r2 = 1" "r3 \<noteq> 1" "(r, w') = ctxFailure S w4"
    | "r1 = 1" "r2 = 1" "r3 = 1" "(r, w') = (ucast (sslError w4), w4)" using run by metis
  then have "keyFilePassword w' = pw \<and> r = ucast (sslError w') \<and>
        (sslGlobalCtx w' = ctx \<and> sslError w' = sslError w \<and>
          trace w' = trace w @ Ctx (EvCtxNew ctx) # loadEvents ctx ca crt key [1, 1, 1] \<or>
        (\<exists>rs n e. length rs < 3 \<and> set rs \<subseteq> {1} \<and> n \<noteq> 1 \<and> sslGlobalCtx w' = 0 \<and> sslError w' = e \<and>
          trace w' = trace w @ Ctx (EvCtxNew ctx) # loadEvents ctx ca crt key (rs @ [n]) @
            [Ctx (EvErrGet e), Ctx (EvCtxFree ctx)]))"
  proof cases
    case 1
    with fails [OF 1(2)] w2 g2 show ?thesis
      by (intro conjI disjI2 exI [of _ "[]"] exI [of _ r1] exI [of _ "sslError w'"]) simp_all
  next
    case 2
    with fails [OF 2(3)] w3 g3 show ?thesis
      by (intro conjI disjI2 exI [of _ "[1]"] exI [of _ r2] exI [of _ "sslError w'"]) simp_all
  next
    case 3
    with fails [OF 3(4)] w4 show ?thesis
      by (intro conjI disjI2 exI [of _ "[1, 1]"] exI [of _ r3] exI [of _ "sslError w'"]) simp_all
  next
    case 4
    with w4 show ?thesis by simp
  qed
  with True frame show ?thesis unfolding sameHeap_def by auto
next
  case False
  with assms show ?thesis by (simp add: createContext_def)
qed

theorem createContext_contract_witness:
  "\<exists>r w'. createContext replay ''ca'' ''crt'' ''key'' ''pw''
      (startWorld DISPATCHER [AHandle 7, ARet 1, ARet 0, AErr 33558530]) = (r, w') \<and>
    r = 33558530 \<and> sslError w' = 33558530 \<and> sslGlobalCtx w' = 0 \<and> keyFilePassword w' = ''pw'' \<and>
    trace w' = [Ctx (EvCtxNew 7), Ctx (EvUseCert 7 ''crt'' 1), Ctx (EvUseKey 7 ''key'' 0),
      Ctx (EvErrGet 33558530), Ctx (EvCtxFree 7)]"
proof -
  let ?w = "startWorld DISPATCHER [AHandle 7, ARet 1, ARet 0, AErr 33558530]"
  obtain r w' where c: "createContext replay ''ca'' ''crt'' ''key'' ''pw'' ?w = (r, w')"
    by (metis surj_pair)
  then have t: "trace w' = [Ctx (EvCtxNew 7), Ctx (EvUseCert 7 ''crt'' 1), Ctx (EvUseKey 7 ''key'' 0),
      Ctx (EvErrGet 33558530), Ctx (EvCtxFree 7)]"
    by (auto simp: createContext_def ctxFailure_def Let_def call_defs replay_def cstr_def)
  have len: "length (loadEvents ctx ''ca'' ''crt'' ''key'' [1, 1, 1]) = 3" for ctx by (simp add: loadEvents_def)
  from createContext_contract [OF c] have r: "r = ucast (sslError w')" "keyFilePassword w' = ''pw''"
    and alt: "\<exists>ctx. trace w' = Ctx (EvCtxNew ctx) # loadEvents ctx ''ca'' ''crt'' ''key'' [1, 1, 1] \<or>
      (\<exists>es. sslGlobalCtx w' = 0 \<and> trace w' = es @ [Ctx (EvErrGet (sslError w')), Ctx (EvCtxFree ctx)])" by auto
  have "\<nexists>ctx. trace w' = Ctx (EvCtxNew ctx) # loadEvents ctx ''ca'' ''crt'' ''key'' [1, 1, 1]"
    using len arg_cong [OF t, of length] by (auto dest: arg_cong [of _ _ length])
  with alt obtain es ctx where e: "sslGlobalCtx w' = 0"
    "trace w' = es @ [Ctx (EvErrGet (sslError w')), Ctx (EvCtxFree ctx)]" by auto
  then have "sslError w' = 33558530" using arg_cong [OF t, of "\<lambda>t. last (butlast t)"] by (simp add: butlast_append)
  with c r t e(1) show ?thesis by simp
qed

text \<open>
  After a failed \<^verbatim>\<open>createContext\<close>, a second attempt that loads every file and keeps its
  context still returns the error of the first.
\<close>

theorem createContext_retry_reports_old_error:
  assumes "sslGlobalCtx w = 0" "createContext S ca crt key pw w = (r1, w1)" "sslGlobalCtx w1 = 0"
    and "createContext S ca2 crt2 key2 pw2 w1 = (r2, w2)" "sslGlobalCtx w2 \<noteq> 0"
  shows "r2 = r1"
  using createContext_cases [OF assms(2)] createContext_cases [OF assms(4)] assms by auto

theorem createContext_retry_witness:
  "\<exists>w1 w2. createContext replay ''ca'' ''crt'' ''key'' ''pw'' (startWorld DISPATCHER
      [AHandle 7, ARet 0, AErr 33558530, AHandle 8, ARet 1, ARet 1, ARet 1]) = (33558530, w1) \<and>
    createContext replay ''ca'' ''crt'' ''key'' ''pw'' w1 = (33558530, w2) \<and> sslGlobalCtx w2 = 8"
proof -
  let ?w = "startWorld DISPATCHER
      [AHandle 7, ARet 0, AErr 33558530, AHandle 8, ARet 1, ARet 1, ARet 1]"
  obtain r1 w1 where c1: "createContext replay ''ca'' ''crt'' ''key'' ''pw'' ?w = (r1, w1)"
    by (metis surj_pair)
  obtain r2 w2 where c2: "createContext replay ''ca'' ''crt'' ''key'' ''pw'' w1 = (r2, w2)"
    by (metis surj_pair)
  have w1: "r1 = 33558530" "sslGlobalCtx w1 = 0" "kern w1 = [AHandle 8, ARet 1, ARet 1, ARet 1]"
    using c1 by (auto simp: createContext_def call_defs replay_def ctxFailure_def Let_def)
  with c2 have "sslGlobalCtx w2 = 8"
    by (auto simp: createContext_def call_defs replay_def split: prod.splits)
  with createContext_retry_reports_old_error [OF _ c1 w1(2) c2] c1 c2 w1 show ?thesis
    by simp
qed

text \<open>
  The password callback never writes more than the room it is given, as long as that is
  positive: it copies the whole password or refuses with \<open>0\<close>.
\<close>

theorem pass_user_password_cb_bounded:
  assumes "0 < room"
  shows "\<exists>bs. pass_user_password_cb pw room = Inr (int (length bs), bs) \<and>
    int (length bs) \<le> room \<and> bs = (if int (length pw) \<le> room then pw else [])"
  using assms by (simp add: pass_user_password_cb_def)

theorem pass_user_password_cb_bounded_witness:
  "\<exists>bs. pass_user_password_cb ''1q2w3e4r'' 1024 = Inr (int (length bs), bs) \<and>
    int (length bs) \<le> 1024 \<and> bs = ''1q2w3e4r''"
  using pass_user_password_cb_bounded [of 1024 "''1q2w3e4r''"] by simp

end
