(* ===== verification/ConfigProtocol.thy ===== *)
theory ConfigProtocol
  imports SslContext
begin

text \<open>
  The configuration message: the text \<^verbatim>\<open>processDispatcherConnection\<close> of \<^verbatim>\<open>mylsnr.cpp\<close> formats
  and \<^verbatim>\<open>processConfig\<close> of \<^verbatim>\<open>mydisp.cpp\<close> cuts into lines and hands to
  \<^verbatim>\<open>retrieveConfigOption\<close>. The loop over the buffer is proved equal to a fold over the lines,
  and the locale \<open>config_reader\<close> is the part of the interface \<^verbatim>\<open>ApplicationConfig\<close> that fold
  relies on.
\<close>

section \<open>Formatting\<close>

text \<open>\<^verbatim>\<open>%d\<close>: decimal digits, with a minus sign in front of a negative number.\<close>

fun showNat :: "nat \<Rightarrow> string" where
  "showNat n =
     (if n < 10 then [char_of (48 + n)] else showNat (n div 10) @ [char_of (48 + n mod 10)])"

declare showNat.simps [simp del]

definition showInt :: "int \<Rightarrow> string" where
  "showInt i = (if i < 0 then CHR ''-'' # showNat (nat (- i)) else showNat (nat i))"

text \<open>The text \<^verbatim>\<open>snprintf\<close> produces; \<^verbatim>\<open>%s\<close> takes each value up to its first NUL.\<close>

definition formatConfig :: "int \<Rightarrow> ApplicationConfig \<Rightarrow> string" where
  "formatConfig pid c =
     ''PPID='' @ showInt pid @ [NL] @
     ''CAFILE='' @ cstr (caFile c) @ [NL] @
     ''CERTFILE='' @ cstr (certFile c) @ [NL] @
     ''KEYFILE='' @ cstr (keyFile c) @ [NL]"

section \<open>Parsing\<close>

text \<open>
  The loop of \<^verbatim>\<open>processConfig\<close>, with the two pointers as indices into \<open>buf\<close> and the local
  array \<open>line\<close> carried along. The copy and the store of the terminator are not checked by
  the code: past the end of \<open>line\<close> they are a buffer overflow.
\<close>

function configLoop ::
    "char list \<Rightarrow> nat \<Rightarrow> nat \<Rightarrow> nat \<Rightarrow> char list \<Rightarrow> ApplicationConfig \<Rightarrow> ApplicationConfig outcome" where
  "configLoop buf bufSize startp endp line c =
     (if endp < bufSize then
        (if buf ! endp \<noteq> NL then configLoop buf bufSize startp (Suc endp) line c
         else
           (let n = endp - startp in
            guarded (n \<le> length line) BufferOverflow
              (let line1 = overlay (take n (drop startp buf)) line in
               guarded (n < length line1) BufferOverflow
                 (let line2 = line1[n := NUL] in
                  configLoop buf bufSize (Suc endp) (Suc endp) line2
                    (retrieveConfigOption line2 c)))))
      else Inr c)"
  by pat_completeness auto
termination
  by (relation "measure (\<lambda>(buf, bufSize, startp, endp, line, c). bufSize - endp)") auto

declare configLoop.simps [simp del]

definition LINE_BUFFER_SIZE :: nat where "LINE_BUFFER_SIZE = 256"

definition processConfig ::
    "'k sys \<Rightarrow> char list \<Rightarrow> nat \<Rightarrow> 'k world \<Rightarrow> (bool \<times> 'k world) outcome" where
  "processConfig S bufferConfig bufferSize w =
     andThen (configLoop bufferConfig bufferSize 0 0
                (freshArray S ''lineBuffer'' LINE_BUFFER_SIZE w) (appCfg w)) (\<lambda>c.
     case createContext S (caFile c) (certFile c) (keyFile c) ''1q2w3e4r'' (w\<lparr>appCfg := c\<rparr>) of
       (r, w1) \<Rightarrow> Inr (r = 0, w1))"

section \<open>Lines\<close>

text \<open>The newline-terminated lines of a text; bytes after the last newline belong to none.\<close>

fun linesFrom :: "string \<Rightarrow> string \<Rightarrow> string list" where
  "linesFrom acc [] = []"
| "linesFrom acc (x # xs) = (if x = NL then acc # linesFrom [] xs else linesFrom (acc @ [x]) xs)"

definition completeLines :: "string \<Rightarrow> string list" where
  "completeLines s = linesFrom [] s"

fun applyLines :: "string list \<Rightarrow> ApplicationConfig \<Rightarrow> ApplicationConfig outcome" where
  "applyLines [] c = Inr c"
| "applyLines (l # ls) c =
     (if length l < LINE_BUFFER_SIZE then applyLines ls (retrieveConfigOption l c)
      else Inl BufferOverflow)"

lemma linesFrom_line: "NL \<notin> set l \<Longrightarrow> linesFrom acc (l @ NL # s) = (acc @ l) # linesFrom [] s"
  by (induction l arbitrary: acc) auto

lemma completeLines_line [simp]: "NL \<notin> set l \<Longrightarrow> completeLines (l @ NL # s) = l # completeLines s"
  by (simp add: completeLines_def linesFrom_line)

lemma linesFrom_open: "NL \<notin> set l \<Longrightarrow> linesFrom acc l = []"
  by (induction l arbitrary: acc) auto

lemma completeLines_open [simp]: "NL \<notin> set l \<Longrightarrow> completeLines l = []"
  by (simp add: completeLines_def linesFrom_open)

lemma applyLines_fold:
  "applyLines ls c =
     (if \<forall>l \<in> set ls. length l < LINE_BUFFER_SIZE then Inr (fold retrieveConfigOption ls c)
      else Inl BufferOverflow)"
  by (induction ls arbitrary: c) auto

text \<open>
  What the array held before, beyond the terminator of the line, never matters: neither for
  the comparison with a key nor for the value.
\<close>

lemma cstr_terminated: "cstr (xs @ NUL # ys) = cstr xs"
  by (induction xs) (auto simp: cstr_def)

lemma retrieve_terminated: "retrieveConfigOption (l @ NUL # ys) c = retrieveConfigOption l c"
proof -
  have m: "memeq (l @ NUL # ys) k = memeq l k" if "NUL \<notin> set k" for k
    using that by (rule memeq_terminated)
  have v: "cstr (drop n (l @ NUL # ys)) = cstr (drop n l)" if "n \<le> length l" for n
    using that by (simp add: cstr_terminated)
  have ca: "cstr (drop 7 (l @ NUL # ys)) = cstr (drop 7 l)" if "memeq l ''CAFILE=''"
    using that by (intro v) (auto dest: memeq_length)
  have cert: "cstr (drop 9 (l @ NUL # ys)) = cstr (drop 9 l)" if "memeq l ''CERTFILE=''"
    using that by (intro v) (auto dest: memeq_length)
  have key: "cstr (drop 8 (l @ NUL # ys)) = cstr (drop 8 l)" if "memeq l ''KEYFILE=''"
    using that by (intro v) (auto dest: memeq_length)
  show ?thesis
    using ca cert key by (simp add: retrieveConfigOption_def m del: drop_append)
qed

lemma overlay_terminate:
  assumes "length xs < length line"
  shows "(overlay xs line)[length xs := NUL] = xs @ NUL # drop (Suc (length xs)) line"
  using assms by (simp add: overlay_def list_update_append Cons_nth_drop_Suc [symmetric])

theorem configLoop_lines:
  assumes "startp \<le> endp" "bufSize \<le> length buf" "length line = LINE_BUFFER_SIZE"
  shows "configLoop buf bufSize startp endp line c =
    applyLines (linesFrom (take (endp - startp) (drop startp buf)) (drop endp (take bufSize buf))) c"
  using assms
proof (induction buf bufSize startp endp line c rule: configLoop.induct)
  case (1 buf bufSize startp endp line c)
  define n where "n = endp - startp"
  define l where "l = take n (drop startp buf)"
  show ?case
  proof (cases "endp < bufSize")
    case False
    then show ?thesis by (simp add: configLoop.simps [of buf bufSize startp endp])
  next
    case lt: True
    with 1 have len: "length l = n" "endp < length buf" by (auto simp: l_def n_def)
    have d: "drop endp (take bufSize buf) = buf ! endp # drop (Suc endp) (take bufSize buf)"
      using lt "1.prems" by (metis Cons_nth_drop_Suc length_take min.absorb2 nth_take)
    show ?thesis
    proof (cases "buf ! endp = NL")
      case False
      have "take (Suc endp - startp) (drop startp buf) = l @ [buf ! endp]"
        using "1.prems"(1) len(2) by (simp add: l_def n_def Suc_diff_le take_Suc_conv_app_nth)
      with False lt "1.IH"(1) "1.prems" d show ?thesis
        by (simp add: configLoop.simps [of buf bufSize startp endp] l_def n_def)
    next
      case nl: True
      show ?thesis
      proof (cases "n < LINE_BUFFER_SIZE")
        case False
        with nl lt d len "1.prems"(3) show ?thesis
          by (simp add: configLoop.simps [of buf bufSize startp endp] n_def [symmetric]
              l_def [symmetric] Let_def guarded_def)
      next
        case True
        define line2 where "line2 = l @ NUL # drop (Suc n) line"
        have line2: "(overlay l line)[n := NUL] = line2" "length line2 = LINE_BUFFER_SIZE"
          using True len "1.prems"(3) overlay_terminate [of l line] by (auto simp: line2_def)
        have step: "configLoop buf bufSize startp endp line c =
          configLoop buf bufSize (Suc endp) (Suc endp) line2 (retrieveConfigOption line2 c)"
          using True nl lt len "1.prems"(3) line2
          by (simp add: configLoop.simps [of buf bufSize startp endp] n_def [symmetric]
              l_def [symmetric] Let_def)
        have "configLoop buf bufSize (Suc endp) (Suc endp) line2 (retrieveConfigOption line2 c) =
          applyLines (linesFrom [] (drop (Suc endp) (take bufSize buf))) (retrieveConfigOption line2 c)"
          using "1.IH"(2) [OF lt, of n "overlay l line" line2] nl True len "1.prems" line2
          by (simp add: n_def l_def)
        moreover have "retrieveConfigOption line2 c = retrieveConfigOption l c"
          unfolding line2_def by (rule retrieve_terminated)
        ultimately show ?thesis using step d nl True len by (simp add: l_def n_def)
      qed
    qed
  qed
qed

corollary configLoop_message:
  "length line = LINE_BUFFER_SIZE \<Longrightarrow> bufSize \<le> length buf \<Longrightarrow>
   configLoop buf bufSize 0 0 line c = applyLines (completeLines (take bufSize buf)) c"
  by (simp add: configLoop_lines completeLines_def)

section \<open>The configuration interface\<close>

text \<open>
  What a message may rely on of the virtual interface \<^verbatim>\<open>ApplicationConfig\<close>: each of the three
  keys sets its own value and no other, and any other line changes nothing.
\<close>

locale config_reader =
  fixes retrieve :: "string \<Rightarrow> 'c \<Rightarrow> 'c"
    and get :: "string \<Rightarrow> 'c \<Rightarrow> string"
    and keys :: "string set"
  assumes hit: "k \<in> keys \<Longrightarrow> NUL \<notin> set v \<Longrightarrow> get k (retrieve (k @ v) c) = v"
    and miss: "k \<in> keys \<Longrightarrow> \<not> memeq l k \<Longrightarrow> get k (retrieve l c) = get k c"
begin

text \<open>A key that no line starts with keeps its value.\<close>

lemma fold_miss:
  "k \<in> keys \<Longrightarrow> \<forall>l \<in> set ls. \<not> memeq l k \<Longrightarrow> get k (fold retrieve ls c) = get k c"
  by (induction ls arbitrary: c) (auto simp: miss)

text \<open>The last line that starts with a key decides its value.\<close>

lemma fold_last:
  assumes "k \<in> keys" "NUL \<notin> set v" "\<forall>l \<in> set ls2. \<not> memeq l k"
  shows "get k (fold retrieve (ls1 @ (k @ v) # ls2) c) = v"
  using assms by (simp add: fold_miss hit)

end

fun getOption :: "string \<Rightarrow> ApplicationConfig \<Rightarrow> string" where
  "getOption k c =
     (if k = ''CAFILE='' then caFile c
      else if k = ''CERTFILE='' then certFile c
      else if k = ''KEYFILE='' then keyFile c
      else [])"

lemmas config_setters = setCaFile_def setCertFile_def setKeyFile_def

lemma cstr_id [simp]: "NUL \<notin> set v \<Longrightarrow> cstr v = v"
  unfolding cstr_def by (auto simp: takeWhile_eq_all_conv)

lemma retrieve_hit:
  "retrieveConfigOption (''CAFILE='' @ v) c = c\<lparr>caFile := cstr v\<rparr>"
  "retrieveConfigOption (''CERTFILE='' @ v) c = c\<lparr>certFile := cstr v\<rparr>"
  "retrieveConfigOption (''KEYFILE='' @ v) c = c\<lparr>keyFile := cstr v\<rparr>"
  "retrieveConfigOption (''CONFIGPPID='' @ v) c = c"
  by (simp_all add: retrieveConfigOption_def memeq_def config_setters)

lemma retrieve_miss:
  "\<not> memeq l ''CAFILE='' \<Longrightarrow> caFile (retrieveConfigOption l c) = caFile c"
  "\<not> memeq l ''CERTFILE='' \<Longrightarrow> certFile (retrieveConfigOption l c) = certFile c"
  "\<not> memeq l ''KEYFILE='' \<Longrightarrow> keyFile (retrieveConfigOption l c) = keyFile c"
  by (simp_all add: retrieveConfigOption_def config_setters)

interpretation cfg: config_reader retrieveConfigOption getOption
  "{''CAFILE='', ''CERTFILE='', ''KEYFILE=''}"
proof (unfold_locales, goal_cases)
  case (1 k v c)
  then consider "k = ''CAFILE=''" | "k = ''CERTFILE=''" | "k = ''KEYFILE=''" by blast
  then show ?case using 1(2) by cases (simp_all add: retrieve_hit del: append.simps)
next
  case (2 k l c)
  then consider "k = ''CAFILE=''" | "k = ''CERTFILE=''" | "k = ''KEYFILE=''" by blast
  then show ?case using 2(2) by cases (simp_all add: retrieve_miss)
qed

section \<open>Lengths of formatted numbers\<close>

lemma showNat_digits: "set (showNat n) \<subseteq> {c. 48 \<le> (of_char c :: nat) \<and> (of_char c :: nat) < 58}"
proof (induction n rule: showNat.induct)
  case (1 n)
  then show ?case
    by (subst showNat.simps) (auto simp: of_char_of)
qed

lemma showInt_plain: "NL \<notin> set (showInt i)" "NUL \<notin> set (showInt i)"
  using showNat_digits [of "nat i"] showNat_digits [of "nat (- i)"]
  by (auto simp: showInt_def)

lemma showNat_length: "n < 10 ^ k \<Longrightarrow> 0 < k \<Longrightarrow> length (showNat n) \<le> k"
proof (induction n arbitrary: k rule: showNat.induct)
  case (1 n)
  show ?case
  proof (cases "n < 10")
    case True
    with "1.prems"(2) show ?thesis by (subst showNat.simps) simp
  next
    case False
    obtain j where k: "k = Suc j" using "1.prems"(2) by (cases k) auto
    with False "1.prems"(1) have "j \<noteq> 0" by (cases j) auto
    with k have j: "k = Suc j" "0 < j" by simp_all
    with "1.prems"(1) have "n div 10 < 10 ^ j"
      by (simp add: less_mult_imp_div_less mult.commute)
    with False "1.IH" j show ?thesis by (subst showNat.simps) simp
  qed
qed

text \<open>A process id is an \<^verbatim>\<open>int\<close> of 32 bits: eleven characters at most.\<close>

lemma showInt_length: "- (2 ^ 31) \<le> i \<Longrightarrow> i < 2 ^ 31 \<Longrightarrow> length (showInt i) \<le> 11"
  using showNat_length [of "nat i" 10] showNat_length [of "nat (- i)" 10]
  by (auto simp: showInt_def nat_less_iff)

section \<open>The message as lines\<close>

text \<open>A value that survives the message: one line, no NUL.\<close>

definition plainValue :: "string \<Rightarrow> bool" where
  "plainValue v \<longleftrightarrow> NL \<notin> set v \<and> NUL \<notin> set v"

lemma completeLines_formatConfig:
  assumes "plainValue (caFile c)" "plainValue (certFile c)" "plainValue (keyFile c)"
  shows "completeLines (''CONFIG'' @ formatConfig pid c) =
    [''CONFIGPPID='' @ showInt pid, ''CAFILE='' @ caFile c, ''CERTFILE='' @ certFile c,
     ''KEYFILE='' @ keyFile c]"
proof -
  have eq: "''CONFIG'' @ formatConfig pid c =
    (''CONFIGPPID='' @ showInt pid) @ NL # (''CAFILE='' @ caFile c) @ NL #
    (''CERTFILE='' @ certFile c) @ NL # (''KEYFILE='' @ keyFile c) @ NL # []"
    using assms by (simp add: formatConfig_def plainValue_def)
  have nl: "NL \<notin> set (''CONFIGPPID='' @ showInt pid)" "NL \<notin> set (''CAFILE='' @ caFile c)"
    "NL \<notin> set (''CERTFILE='' @ certFile c)" "NL \<notin> set (''KEYFILE='' @ keyFile c)"
    using assms showInt_plain by (auto simp: plainValue_def)
  show ?thesis
    unfolding eq completeLines_line [OF nl(1)] completeLines_line [OF nl(2)]
      completeLines_line [OF nl(3)] completeLines_line [OF nl(4)]
    by (simp add: completeLines_def)
qed

section \<open>Properties of the configuration message\<close>

text \<open>The outcome of \<^verbatim>\<open>processConfig\<close> in terms of the lines of the received bytes.\<close>

lemma processConfig_lines:
  assumes "n \<le> length buf"
  shows "processConfig S buf n w =
    andThen (applyLines (completeLines (take n buf)) (appCfg w)) (\<lambda>c.
    case createContext S (caFile c) (certFile c) (keyFile c) ''1q2w3e4r'' (w\<lparr>appCfg := c\<rparr>) of
      (r, w1) \<Rightarrow> Inr (r = 0, w1))"
  using assms by (simp add: processConfig_def configLoop_message LINE_BUFFER_SIZE_def)

text \<open>
  A configuration the message can carry: every value is one line without NUL, and each line
  fits the 256-byte array of the receiver with its terminator.
\<close>

definition carries :: "ApplicationConfig \<Rightarrow> bool" where
  "carries c \<longleftrightarrow> plainValue (caFile c) \<and> plainValue (certFile c) \<and> plainValue (keyFile c) \<and>
     length (caFile c) \<le> 248 \<and> length (certFile c) \<le> 246 \<and> length (keyFile c) \<le> 247"

definition withFiles :: "ApplicationConfig \<Rightarrow> ApplicationConfig \<Rightarrow> ApplicationConfig" where
  "withFiles cfg c = c\<lparr>caFile := caFile cfg, certFile := certFile cfg, keyFile := keyFile cfg\<rparr>"

lemma applyLines_formatConfig:
  assumes "carries cfg" "- (2 ^ 31) \<le> pid" "pid < 2 ^ 31"
  shows "applyLines (completeLines (''CONFIG'' @ formatConfig pid cfg)) c = Inr (withFiles cfg c)"
proof -
  have "length (showInt pid) \<le> 11" using showInt_length assms(2,3) by blast
  moreover have "completeLines (''CONFIG'' @ formatConfig pid cfg) =
    [''CONFIGPPID='' @ showInt pid, ''CAFILE='' @ caFile cfg, ''CERTFILE='' @ certFile cfg,
     ''KEYFILE='' @ keyFile cfg]"
    using assms(1) by (intro completeLines_formatConfig) (auto simp: carries_def)
  ultimately show ?thesis
    using assms(1)
    by (simp add: applyLines_fold carries_def LINE_BUFFER_SIZE_def plainValue_def withFiles_def
        retrieve_hit del: append.simps)
qed

text \<open>
  C9. Round trip of the configuration: when the dispatcher reads the label and the text the
  listener formatted in one piece, it ends up with the listener's three file names, whatever
  its own configuration and the uninitialised array held before, and goes on to create the
  TLS context from them.
\<close>

theorem config_roundtrip:
  assumes "carries cfg" "- (2 ^ 31) \<le> pid" "pid < 2 ^ 31"
    and "take n buf = ''CONFIG'' @ formatConfig pid cfg" "n \<le> length buf"
  shows "processConfig S buf n w =
    (case createContext S (caFile cfg) (certFile cfg) (keyFile cfg) ''1q2w3e4r''
            (w\<lparr>appCfg := withFiles cfg (appCfg w)\<rparr>) of (r, w1) \<Rightarrow> Inr (r = 0, w1))"
  using processConfig_lines [OF assms(5)] applyLines_formatConfig [OF assms(1-3)] assms(4)
  by (simp add: withFiles_def)

definition exampleConfig :: ApplicationConfig where
  "exampleConfig = \<lparr>applicationType = LISTENER, ok = True, caFile = ''ca-web.crt'',
     certFile = ''dispatcher.crt'', keyFile = ''dispatcher.key'', dispPath = []\<rparr>"

lemma exampleConfig_carries: "carries exampleConfig"
  by (simp add: carries_def exampleConfig_def plainValue_def)

theorem config_roundtrip_witness:
  "\<exists>w'. processConfig replay (''CONFIG'' @ formatConfig 4711 exampleConfig)
      (length (''CONFIG'' @ formatConfig 4711 exampleConfig))
      (startWorld DISPATCHER [AHandle 7, ARet 1, ARet 1, ARet 1]) = Inr (True, w') \<and>
    caFile (appCfg w') = ''ca-web.crt'' \<and> keyFile (appCfg w') = ''dispatcher.key''"
proof -
  let ?m = "''CONFIG'' @ formatConfig 4711 exampleConfig"
  let ?w = "startWorld DISPATCHER [AHandle 7, ARet 1, ARet 1, ARet 1]"
  have "processConfig replay ?m (length ?m) ?w =
    (case createContext replay (caFile exampleConfig) (certFile exampleConfig) (keyFile exampleConfig)
            ''1q2w3e4r'' (?w\<lparr>appCfg := withFiles exampleConfig (appCfg ?w)\<rparr>) of
       (r, w1) \<Rightarrow> Inr (r = 0, w1))"
    by (rule config_roundtrip [OF exampleConfig_carries]) simp_all
  then show ?thesis
    by (simp add: createContext_def call_defs replay_def exampleConfig_def withFiles_def
        createConfig_def startWorld_def logCall_def)
qed

text \<open>
  C25. \<^verbatim>\<open>processConfig\<close> overruns its 256-byte line array exactly when one of the complete
  lines it received has 256 bytes or more: nothing else of the message matters, and no
  shorter line ever does.
\<close>

theorem processConfig_overflow_iff:
  assumes "n \<le> length buf"
  shows "processConfig S buf n w = Inl BufferOverflow \<longleftrightarrow>
    (\<exists>l \<in> set (completeLines (take n buf)). 256 \<le> length l)"
  using processConfig_lines [OF assms, of S w]
  by (auto simp: applyLines_fold LINE_BUFFER_SIZE_def not_less split: prod.splits)

theorem processConfig_overflow_witness:
  "processConfig replay (''CONFIG'' @ formatConfig 1 (exampleConfig\<lparr>caFile := replicate 249 CHR ''a''\<rparr>))
     (length (''CONFIG'' @ formatConfig 1 (exampleConfig\<lparr>caFile := replicate 249 CHR ''a''\<rparr>)))
     (startWorld DISPATCHER []) = Inl BufferOverflow"
proof -
  let ?c = "exampleConfig\<lparr>caFile := replicate 249 CHR ''a''\<rparr>"
  let ?m = "''CONFIG'' @ formatConfig 1 ?c"
  have "completeLines ?m = [''CONFIGPPID='' @ showInt 1, ''CAFILE='' @ caFile ?c,
      ''CERTFILE='' @ certFile ?c, ''KEYFILE='' @ keyFile ?c]"
    by (rule completeLines_formatConfig) (auto simp: plainValue_def exampleConfig_def)
  then have "\<exists>l \<in> set (completeLines (take (length ?m) ?m)). 256 \<le> length l"
    by simp
  then show ?thesis
    using processConfig_overflow_iff [of "length ?m" ?m replay "startWorld DISPATCHER []"] by simp
qed

text \<open>
  C24. The pointer loop of \<^verbatim>\<open>processConfig\<close> is a fold: it applies \<^verbatim>\<open>retrieveConfigOption\<close> to
  the newline-terminated lines in order, whatever is in the reused line array, and it stops
  with an overflow at the first line of 256 bytes or more.
\<close>

theorem configLoop_fold:
  assumes "length line = 256" "n \<le> length buf"
  shows "configLoop buf n 0 0 line c =
    (if \<forall>l \<in> set (completeLines (take n buf)). length l < 256
     then Inr (fold retrieveConfigOption (completeLines (take n buf)) c)
     else Inl BufferOverflow)"
  using configLoop_message [of line n buf c] assms
  by (simp add: applyLines_fold LINE_BUFFER_SIZE_def)

theorem configLoop_fold_witness:
  "configLoop (''KEYFILE=a'' @ [NL] @ ''KEYFILE=b'' @ [NL] @ ''tail'') 24 0 0 (replicate 256 NUL)
     exampleConfig = Inr (exampleConfig\<lparr>keyFile := ''b''\<rparr>)"
  using configLoop_fold [of "replicate 256 NUL" 24
      "''KEYFILE=a'' @ [NL] @ ''KEYFILE=b'' @ [NL] @ ''tail''" exampleConfig]
  by (simp add: completeLines_def retrieveConfigOption_def memeq_def setKeyFile_def cstr_def)

text \<open>
  A message without a newline configures nothing. So when the label \<^verbatim>\<open>CONFIG\<close> is read
  before the text that follows it has been written, the dispatcher tries to create its TLS
  context from the empty file names it started with.
\<close>

theorem processConfig_label_only:
  assumes "NL \<notin> set (take n buf)" "n \<le> length buf"
  shows "processConfig S buf n w =
    (case createContext S (caFile (appCfg w)) (certFile (appCfg w)) (keyFile (appCfg w))
            ''1q2w3e4r'' w of (r, w1) \<Rightarrow> Inr (r = 0, w1))"
  using processConfig_lines [OF assms(2), of S w] assms(1) by simp

theorem processConfig_label_only_witness:
  "\<exists>w'. processConfig replay ''CONFIG'' 6
      (startWorld DISPATCHER [AHandle 7, ARet 0, AErr 33558530]) = Inr (False, w') \<and>
    Ctx (EvUseCert 7 [] 0) \<in> set (trace w')"
proof -
  have "processConfig replay ''CONFIG'' 6
      (startWorld DISPATCHER [AHandle 7, ARet 0, AErr 33558530]) =
    (case createContext replay [] [] [] ''1q2w3e4r''
        (startWorld DISPATCHER [AHandle 7, ARet 0, AErr 33558530]) of (r, w1) \<Rightarrow> Inr (r = 0, w1))"
    using processConfig_label_only [of 6 "''CONFIG''" replay
        "startWorld DISPATCHER [AHandle 7, ARet 0, AErr 33558530]"]
    by (simp add: createConfig_def)
  then show ?thesis
    by (simp add: createContext_def call_defs replay_def ctxFailure_def Let_def cstr_def)
qed

end
