(* ===== verification/FdPassing.thy ===== *)
theory FdPassing
  imports SharedPtr
begin

text \<open>
  Passing a descriptor over a UNIX socket: \<^verbatim>\<open>sendSocket\<close> of \<^verbatim>\<open>SocketUtils.cpp\<close> on the
  listener's side, \<^verbatim>\<open>ReceivedTcpSocketFactory::createSocket\<close> on the dispatcher's. The message
  is two bytes, a null byte and a status; status zero comes with a control message that
  carries the descriptor.
\<close>

section \<open>Sending\<close>

text \<open>
  The two bytes of the local array \<open>buf\<close> and the descriptor put into the control buffer.
  \<^verbatim>\<open>buf[1] = -fd_to_send\<close> keeps the low eight bits; a zero there is replaced by one.
\<close>

definition fdMessage :: "int \<Rightarrow> string \<times> int option" where
  "fdMessage fd_to_send =
     (if fd_to_send < 0 then
        (let b1 = char_of (- fd_to_send) in ([NUL, if b1 = NUL then CHR 0x01 else b1], None))
      else ([NUL, NUL], Some fd_to_send))"

text \<open>
  The control buffer is a static that is allocated on first use; a failed \<^verbatim>\<open>malloc\<close> ends the
  call. A \<^verbatim>\<open>sendmsg\<close> to a dispatcher that is gone raises SIGPIPE.
\<close>

definition sendSocket :: "'k sys \<Rightarrow> ptr \<Rightarrow> ptr \<Rightarrow> 'k world \<Rightarrow> (bool \<times> 'k world) outcome" where
  "sendSocket S socketSender socketToSend w =
     andThen (deref w socketSender) (\<lambda>sender.
     andThen (deref w socketToSend) (\<lambda>tosend.
     let fd = descriptor sender; fd_to_send = descriptor tosend in
     case (if fd_to_send < 0 \<or> sendCmsg w then (True, w)
           else case k_malloc S w of (got, w1) \<Rightarrow> (got, w1\<lparr>sendCmsg := got\<rparr>)) of (ready, w2) \<Rightarrow>
     if \<not> ready then Inr (False, w2)
     else case fdMessage fd_to_send of (buf, control) \<Rightarrow>
          case k_sendmsg S fd buf control w2 of (n, w3) \<Rightarrow>
          unlessKilled S w3 (Inr (n = 2, w3))))"

section \<open>Receiving\<close>

text \<open>
  The scan of the received bytes. The end \<open>nr\<close> moves while the loop runs: every null byte
  takes two off it. \<open>cmsg\<close> is the integer in the control buffer, whatever put it there. The
  result is the status and the descriptor; a read past the array is \<open>OutOfBounds\<close>.
\<close>

function scanBytes ::
    "char list \<Rightarrow> int \<Rightarrow> nat \<Rightarrow> int \<Rightarrow> int \<times> int \<Rightarrow> (int \<times> int) outcome" where
  "scanBytes buf cmsg i nr st =
     (if int i < nr then
        guarded (i < length buf) OutOfBounds
          (if buf ! i = NUL then
             guarded (Suc i < length buf) OutOfBounds
               (let status = of_char (buf ! Suc i) in
                scanBytes buf cmsg (Suc i) (nr - 2)
                  (status, if status = 0 then cmsg else - status))
           else scanBytes buf cmsg (Suc i) nr st)
      else Inr st)"
  by pat_completeness auto
termination
  by (relation "measure (\<lambda>(buf, cmsg, i, nr, st). nat (nr - int i))") auto

declare scanBytes.simps [simp del]

definition MAXLINE :: nat where "MAXLINE = 128"

text \<open>The static control buffer of the receiver, allocated on first use.\<close>

definition allocRecvCmsg :: "'k sys \<Rightarrow> 'k world \<Rightarrow> int option \<times> 'k world" where
  "allocRecvCmsg S w =
     (case recvCmsg w of
        Some v \<Rightarrow> (Some v, w)
      | None \<Rightarrow>
          (case k_malloc S w of (got, w1) \<Rightarrow>
             if got then (Some (sys_cmsg S (kern w1)), w1\<lparr>recvCmsg := Some (sys_cmsg S (kern w1))\<rparr>)
             else (None, w1)))"

text \<open>
  The endless loop around \<^verbatim>\<open>recvmsg\<close>. A failed call is logged and tried again, and so is a
  message without a null byte; \<open>None\<close> is a run that never returns.
\<close>

partial_function (option) recvLoop ::
    "'k sys \<Rightarrow> int \<Rightarrow> char list \<Rightarrow> 'k world \<Rightarrow> (ptr \<times> 'k world) outcome option" where
  "recvLoop S fd buf w =
     (case allocRecvCmsg S w of (room, w1) \<Rightarrow>
      case room of
        None \<Rightarrow> Some (Inr (nullptr, w1))
      | Some old \<Rightarrow>
         (case k_recvmsg S fd MAXLINE w1 of ((r, control), w2) \<Rightarrow>
          if ioRet r = 0 then Some (Inr (nullptr, w2))
          else
            (let cmsg = (case control of None \<Rightarrow> old | Some f \<Rightarrow> f);
                 w3 = w2\<lparr>recvCmsg := Some cmsg\<rparr>;
                 buf1 = overlay (ioBytes r) buf
             in case scanBytes buf1 cmsg 0 (ioRet r) (-1, 0) of
                  Inl e \<Rightarrow> Some (Inl e)
                | Inr (status, newfd) \<Rightarrow>
                    if 0 \<le> status then
                      Some (if 0 < newfd
                            then andThen (newTcpSocket newfd)
                                   (\<lambda>s. Inr (makeShared s w3))
                            else Inr (nullptr, w3))
                    else recvLoop S fd buf1 w3)))"

definition createReceivedSocket :: "'k sys \<Rightarrow> ptr \<Rightarrow> 'k world \<Rightarrow> (ptr \<times> 'k world) outcome" where
  "createReceivedSocket S unixSocket w =
     andThen (deref w unixSocket) (\<lambda>u.
       case recvLoop S (descriptor u) (freshArray S ''buf'' MAXLINE w) w of
         None \<Rightarrow> Inl Diverges
       | Some r \<Rightarrow> r)"

text \<open>The factory is the pointer it holds; making one copies the pointer.\<close>

definition createReceivedTcpSocketFactory :: "ptr \<Rightarrow> 'k world \<Rightarrow> (ptr \<times> 'k world) outcome" where
  "createReceivedTcpSocketFactory unixSocket w = andThen (sharePtr unixSocket w) (\<lambda>w1. Inr (unixSocket, w1))"

lemma andThen_createReceived [simp]:
  "andThen (createReceivedTcpSocketFactory u w) g = andThen (sharePtr u w) (\<lambda>w1. g (u, w1))"
  by (simp add: createReceivedTcpSocketFactory_def andThen_assoc)

section \<open>The scan\<close>

lemma scanBytes_done: "nr \<le> int i \<Longrightarrow> scanBytes buf cmsg i nr st = Inr st"
  by (simp add: scanBytes.simps [of buf cmsg i])

lemma of_char_0_iff: "(of_char c :: int) = 0 \<longleftrightarrow> c = NUL"
proof
  assume "(of_char c :: int) = 0"
  then have "(of_char c :: int) = of_char NUL" by simp
  then show "c = NUL" by (simp only: of_char_eq_iff)
qed simp

text \<open>The two-byte message: the status is its second byte.\<close>

lemma scanBytes_pair:
  assumes "2 \<le> length buf" "buf ! 0 = NUL"
  shows "scanBytes buf cmsg 0 2 st =
    Inr (of_char (buf ! 1), if buf ! 1 = NUL then cmsg else - of_char (buf ! 1))"
proof -
  have "buf \<noteq> []" using assms(1) by auto
  then show ?thesis
    using assms of_char_0_iff [of "buf ! 1"] by (simp add: scanBytes.simps [of buf cmsg 0 2] Let_def scanBytes_done)
qed

section \<open>What the receiver returns\<close>

text \<open>
  A pointer that is null, or a fresh TCP socket on a positive descriptor, owned once.
\<close>

definition receivedOk :: "ptr multiset \<Rightarrow> ptr \<times> 'k world \<Rightarrow> bool" where
  "receivedOk M r \<longleftrightarrow>
     (case r of (p, w) \<Rightarrow>
        if p = nullptr then owned w M
        else owned w (add_mset p M) \<and>
             (\<exists>s. deref w p = Inr s \<and> 0 < descriptor s \<and> socketType s = TCP))"

lemma allocRecvCmsg_owned: "allocRecvCmsg S w = (room, w') \<Longrightarrow> owned w' M = owned w M"
  by (auto simp: allocRecvCmsg_def split: option.splits prod.splits if_splits
      dest!: frame simp: owned_sameProc)

lemma scanBytes_sat: "sat {OutOfBounds} (\<lambda>_. True) (scanBytes buf cmsg i nr st)"
proof (induction buf cmsg i nr st rule: scanBytes.induct)
  case (1 buf cmsg i nr st)
  then show ?case
    by (subst scanBytes.simps) (auto simp: guarded_def Let_def)
qed

text \<open>
  What the loop returns, by an invariant \<open>I\<close> of the state at its head: no socket when there is
  no room or no message, a new socket for a positive number, or a read past the array.
\<close>

lemma recvLoop_rule:
  assumes run: "recvLoop S fd buf w = Some r" and start: "I w"
    and none: "\<And>w w1. I w \<Longrightarrow> allocRecvCmsg S w = (None, w1) \<Longrightarrow> Q (Inr (nullptr, w1))"
    and message: "\<And>w old w1 io control w2 w3. I w \<Longrightarrow> allocRecvCmsg S w = (Some old, w1) \<Longrightarrow>
      k_recvmsg S fd MAXLINE w1 = ((io, control), w2) \<Longrightarrow>
      w3 = w2\<lparr>recvCmsg := Some (case control of None \<Rightarrow> old | Some f \<Rightarrow> f)\<rparr> \<Longrightarrow>
      I w3 \<and> Q (Inr (nullptr, w2)) \<and> Q (Inr (nullptr, w3))"
    and socket: "\<And>w old w1 io control w2 w3 buf status newfd s. I w \<Longrightarrow> allocRecvCmsg S w = (Some old, w1) \<Longrightarrow>
      k_recvmsg S fd MAXLINE w1 = ((io, control), w2) \<Longrightarrow>
      w3 = w2\<lparr>recvCmsg := Some (case control of None \<Rightarrow> old | Some f \<Rightarrow> f)\<rparr> \<Longrightarrow>
      scanBytes (overlay (ioBytes io) buf) (case control of None \<Rightarrow> old | Some f \<Rightarrow> f) 0 (ioRet io) (-1, 0) =
        Inr (status, newfd) \<Longrightarrow> 0 < newfd \<Longrightarrow> newSocket TcpSocket newfd TCP False = Inr s \<Longrightarrow>
      Q (Inr (makeShared s w3))"
    and past: "Q (Inl OutOfBounds)"
  shows "Q r"
proof -
  have "S = S0 \<longrightarrow> fd = fd0 \<longrightarrow> I w \<longrightarrow> Q r" if "recvLoop S0 fd0 buf w = Some r" for S0 fd0 buf w r
  proof (rule recvLoop.raw_induct [where P = "\<lambda>S0 fd0 buf w r. S = S0 \<longrightarrow> fd = fd0 \<longrightarrow> I w \<longrightarrow> Q r", OF _ that],
      intro impI, goal_cases)
    case (1 f S0 fd0 buf w r)
    note here = 1(5) and eq0 = 1(2) [folded 1(3,4)] and IH = 1(1) [of S0 fd0, folded 1(3,4)]
    obtain room w1 where a: "allocRecvCmsg S w = (room, w1)" by (metis surj_pair)
    show ?case
    proof (cases room)
      case None
      with a eq0 here none show ?thesis by auto
    next
      case (Some old)
      note al = a [unfolded Some]
      obtain io control w2 where m: "k_recvmsg S fd MAXLINE w1 = ((io, control), w2)" by (metis surj_pair)
      define cmsg where "cmsg = (case control of None \<Rightarrow> old | Some f \<Rightarrow> f)"
      define buf1 where "buf1 = overlay (ioBytes io) buf"
      let ?w3 = "w2\<lparr>recvCmsg := Some cmsg\<rparr>"
      note eq = eq0 [unfolded al m prod.case option.case, folded cmsg_def buf1_def, unfolded Let_def]
      have Q: "I ?w3 \<and> Q (Inr (nullptr, w2)) \<and> Q (Inr (nullptr, ?w3))"
        using message [OF here al m refl] by (simp add: cmsg_def)
      show ?thesis
      proof (cases "scanBytes buf1 cmsg 0 (ioRet io) (-1, 0)")
        case (Inl e)
        then have "e = OutOfBounds" using scanBytes_sat [of buf1 cmsg 0 "ioRet io" "(-1, 0)"] by simp
        with Inl eq Q past show ?thesis by (auto split: if_splits)
      next
        case (Inr st)
        obtain status newfd where st: "st = (status, newfd)" by (cases st)
        have made: "Q (Inr (makeShared s ?w3))" if "0 < newfd" "newSocket TcpSocket newfd TCP False = Inr s" for s
          using socket [OF here al m refl _ that] Inr st by (simp add: cmsg_def buf1_def)
        have again: "f S fd buf1 ?w3 = Some r \<Longrightarrow> Q r" using IH Q by blast
        show ?thesis
          using eq Inr st Q made again by (auto simp: newSocket_def guarded_def FREE_SOCKET_def split: if_splits)
      qed
    qed
  qed
  with run start show ?thesis by blast
qed

lemma recvLoop_ok:
  assumes "recvLoop S fd buf w = Some r" "owned w M"
  shows "sat {OutOfBounds} (receivedOk M) r"
proof (rule recvLoop_rule [OF assms(1), of "\<lambda>w. owned w M"], goal_cases)
  case (2 w w1)
  then have "owned w1 M" using allocRecvCmsg_owned by blast
  then show ?case by (simp add: receivedOk_def)
next
  case (3 w old w1 io control w2 w3)
  then have "owned w2 M" using allocRecvCmsg_owned call_frame(5) owned_frame by blast
  with 3(4) show ?case by (simp add: receivedOk_def)
next
  case (4 w old w1 io control w2 w3 buf status newfd s)
  then have "owned w2 M" using allocRecvCmsg_owned call_frame(5) owned_frame by blast
  with 4(4) have "owned w3 M" by simp
  moreover obtain p v where mk: "makeShared s w3 = (p, v)" by (metis surj_pair)
  ultimately have "owned v (add_mset p M)" "p \<noteq> nullptr" using owned_make by blast+
  with mk 4(6,7) show ?case by (auto simp: receivedOk_def deref_make newSocket_Inr)
qed (use assms(2) in simp_all)

lemma createReceivedSocket_ok:
  assumes "owned w M" "u \<in># M" "u \<noteq> nullptr"
  shows "sat {OutOfBounds, Diverges} (receivedOk M) (createReceivedSocket S u w)"
proof -
  obtain s where s: "deref w u = Inr s" using owned_deref assms by blast
  have "sat {OutOfBounds, Diverges} (receivedOk M) r"
    if "recvLoop S fd buf w = Some r" for fd buf r
    by (rule sat_mono [OF recvLoop_ok [OF that assms(1)]]) auto
  with s show ?thesis by (simp add: createReceivedSocket_def split: option.splits)
qed

section \<open>Properties of descriptor passing\<close>

text \<open>One round of the receive loop, with the control buffer in place.\<close>

lemma recvLoop_message:
  assumes "recvCmsg w = Some old" "sys_recvmsg S fd MAXLINE (kern w) = ((r, control), k)"
    and "r \<noteq> Data []"
    and "scanBytes (overlay (ioBytes r) buf) (case control of None \<Rightarrow> old | Some f \<Rightarrow> f) 0 (ioRet r)
           (-1, 0) = Inr (status, newfd)" "0 \<le> status"
  shows "recvLoop S fd buf w =
    Some (if 0 < newfd
          then andThen (newSocket TcpSocket newfd TCP False) (\<lambda>s. Inr (makeShared s
                 ((logCall (Io (EvRecvmsg fd MAXLINE r control)) k w)\<lparr>recvCmsg :=
                   Some (case control of None \<Rightarrow> old | Some f \<Rightarrow> f)\<rparr>)))
          else Inr (nullptr, (logCall (Io (EvRecvmsg fd MAXLINE r control)) k w)\<lparr>recvCmsg :=
                   Some (case control of None \<Rightarrow> old | Some f \<Rightarrow> f)\<rparr>))"
  using assms
  by (simp add: recvLoop.simps [of S fd buf w] allocRecvCmsg_def k_recvmsg_def Let_def
      del: logCall_simps)

lemma scanBytes_pair_overlay:
  assumes "length buf = 128"
  shows "scanBytes (overlay [NUL, b] buf) cmsg 0 2 st =
    Inr (of_char b, if b = NUL then cmsg else - of_char b)"
  using scanBytes_pair [of "overlay [NUL, b] buf" cmsg st] assms by (simp add: overlay_def)

text \<open>
  What a two-byte message becomes: with status zero the descriptor number in the control
  buffer decides, with any other status there is no socket.
\<close>

lemma createReceivedSocket_pair:
  assumes u: "deref w u = Inr su" and c: "recvCmsg w = Some old"
    and m: "sys_recvmsg S (descriptor su) 128 (kern w) = ((Data [NUL, b], control), k)"
  defines "cmsg \<equiv> (case control of None \<Rightarrow> old | Some f \<Rightarrow> f)"
  shows "createReceivedSocket S u w =
    (let w1 = (logCall (Io (EvRecvmsg (descriptor su) 128 (Data [NUL, b]) control)) k w)
                \<lparr>recvCmsg := Some cmsg\<rparr>
     in if b = NUL \<and> 0 < cmsg
        then Inr (makeShared \<lparr>dynClass = TcpSocket, protectDescriptor = False, descriptor = cmsg,
               events = 0, revents = 0, socketType = TCP, listenSocket = False,
               clientStatus = NO_STATUS\<rparr> w1)
        else Inr (nullptr, w1))"
proof -
  let ?buf = "freshArray S ''buf'' MAXLINE w"
  have s: "scanBytes (overlay (ioBytes (Data [NUL, b])) ?buf) cmsg 0 (ioRet (Data [NUL, b])) (-1, 0) =
      Inr (of_char b, if b = NUL then cmsg else - of_char b)"
    by (simp add: scanBytes_pair_overlay MAXLINE_def)
  have pos: "0 \<le> (of_char b :: int)" by (metis of_nat_of_char of_nat_0_le_iff)
  have neg: "b \<noteq> NUL \<Longrightarrow> \<not> 0 < - (of_char b :: int)" by (simp add: not_less pos)
  show ?thesis
    using recvLoop_message [OF c m [folded MAXLINE_def] _ s [unfolded cmsg_def] pos] u neg
    by (simp add: createReceivedSocket_def cmsg_def newSocket_def FREE_SOCKET_def NO_EVENTS_def
        Let_def MAXLINE_def)
qed

text \<open>
  C10. Round trip of a descriptor. If \<^verbatim>\<open>sendSocket\<close> reports success for a socket with a
  descriptor that is not negative, its last call was a \<^verbatim>\<open>sendmsg\<close> of two bytes on the
  descriptor of the UNIX socket. Let \<open>bytes\<close> and \<open>control\<close> be what that call was given. A
  dispatcher whose \<^verbatim>\<open>recvmsg\<close> delivers them, with the number the kernel installs for the
  descriptor in \<open>control\<close> if there is one, gets a fresh TCP socket on the number installed
  for the descriptor of the socket that was sent, whatever its control buffer held before.
\<close>

theorem fd_roundtrip:
  assumes send: "sendSocket S sender tosend w = Inr (True, w1)"
    "deref w sender = Inr ss" "deref w tosend = Inr st" "0 \<le> descriptor st"
    and sent: "trace w1 = es @ [Io (EvSendmsg d bytes control n)]"
    and recv: "deref v u = Inr su" "recvCmsg v = Some old"
    "sys_recvmsg S2 (descriptor su) 128 (kern v) = ((Data bytes, map_option install control), k)"
    "0 < install (descriptor st)"
  shows "d = descriptor ss \<and> n = 2 \<and> length bytes = 2 \<and>
    (\<exists>p v1 s. createReceivedSocket S2 u v = Inr (p, v1) \<and>
      p = nextPtr v \<and> heap v1 p = Some \<lparr>obj = s, useCount = 1\<rparr> \<and>
      descriptor s = install (descriptor st) \<and> socketType s = TCP \<and> \<not> protectDescriptor s)"
proof -
  from send sent have msg: "d = descriptor ss" "n = 2" "bytes = [NUL, NUL]" "control = Some (descriptor st)"
    by (auto simp: sendSocket_def Let_def fdMessage_def k_sendmsg_def outcome_simps split: prod.splits if_splits)
  with createReceivedSocket_pair [OF recv(1,2), of S2 NUL "Some (install (descriptor st))" k] recv(3,4)
  show ?thesis by (simp add: Let_def makeShared_def)
qed

theorem fd_roundtrip_witness:
  "\<exists>w1 es bytes control p v1 s.
    sendSocket replay 1 2 (exampleWorld [exampleSock 5 UNIX, exampleSock 6 TCP] [ARet 2]) = Inr (True, w1) \<and>
    trace w1 = es @ [Io (EvSendmsg 5 bytes control 2)] \<and>
    createReceivedSocket replay 1 (exampleWorld [exampleSock 3 UNIX]
      [AMsg (Data bytes) (map_option (\<lambda>fd. fd + 3) control)]) = Inr (p, v1) \<and>
    heap v1 p = Some \<lparr>obj = s, useCount = 1\<rparr> \<and> descriptor s = 9"
proof -
  let ?w = "exampleWorld [exampleSock 5 UNIX, exampleSock 6 TCP] [ARet 2]"
  obtain w1 es d bytes control n where w1: "sendSocket replay 1 2 ?w = Inr (True, w1)"
    "trace w1 = es @ [Io (EvSendmsg d bytes control n)]"
    by (simp add: sendSocket_def deref_def exampleSock_def fdMessage_def call_defs replay_def)
  let ?v = "exampleWorld [exampleSock 3 UNIX] [AMsg (Data bytes) (map_option (\<lambda>fd. fd + 3) control)]"
  have "deref ?w 1 = Inr (exampleSock 5 UNIX)" "deref ?w 2 = Inr (exampleSock 6 TCP)"
    "deref ?v 1 = Inr (exampleSock 3 UNIX)"
    by (simp_all add: deref_def)
  from fd_roundtrip [OF w1(1) this(1,2) _ w1(2) this(3), of "-1" replay "\<lambda>fd. fd + 3" "[]"] w1
  show ?thesis by (auto simp: exampleSock_def replay_def)
qed

text \<open>
  C37. The control buffer is never reset between messages: a two-byte message with status zero
  that carries no descriptor hands out the number of the descriptor received before it,
  which by then belongs to another socket.
\<close>

theorem stale_descriptor_reused:
  assumes "deref w u = Inr su" "recvCmsg w = Some old" "0 < old" "0 < nextPtr w"
    and "sys_recvmsg S (descriptor su) 128 (kern w) = ((Data [NUL, NUL], None), k)"
  shows "\<exists>p w1 s. createReceivedSocket S u w = Inr (p, w1) \<and> deref w1 p = Inr s \<and>
    descriptor s = old"
  using createReceivedSocket_pair [OF assms(1,2,5)] assms(3,4)
  by (auto simp: Let_def makeShared_def deref_def)

theorem stale_descriptor_reused_witness:
  "\<exists>p w1 s. createReceivedSocket replay 1 ((exampleWorld [exampleSock 3 UNIX]
      [AMsg (Data [NUL, NUL]) None])\<lparr>recvCmsg := Some 9\<rparr>) = Inr (p, w1) \<and>
    deref w1 p = Inr s \<and> descriptor s = 9"
  by (rule stale_descriptor_reused [where su = "exampleSock 3 UNIX" and k = "[]"])
    (simp_all add: deref_def exampleSock_def replay_def)

text \<open>
  Descriptor 0 is never accepted, and neither is a message with an error status: the
  receiver reports no socket, and it does not close the descriptor it was given.
\<close>

theorem received_without_socket:
  assumes "deref w u = Inr su" "recvCmsg w = Some old"
    and "sys_recvmsg S (descriptor su) 128 (kern w) = ((Data [NUL, b], Some fd), k)"
    and "b \<noteq> NUL \<or> fd = 0"
  shows "\<exists>w1. createReceivedSocket S u w = Inr (nullptr, w1) \<and> heap w1 = heap w \<and>
    trace w1 = trace w @ [Io (EvRecvmsg (descriptor su) 128 (Data [NUL, b]) (Some fd))]"
  using createReceivedSocket_pair [OF assms(1-3)] assms(4) by (auto simp: Let_def)

theorem received_without_socket_witness:
  "\<exists>w1. createReceivedSocket replay 1
      (exampleWorld [exampleSock 3 UNIX] [AMsg (Data [NUL, NUL]) (Some 0)]) = Inr (nullptr, w1) \<and>
    trace w1 = [Io (EvRecvmsg 3 128 (Data [NUL, NUL]) (Some 0))]"
  using received_without_socket [of "exampleWorld [exampleSock 3 UNIX] [AMsg (Data [NUL, NUL]) (Some 0)]"
      1 "exampleSock 3 UNIX" "-1" replay NUL 0 "[]"]
  by (auto simp: deref_def exampleSock_def replay_def)

text \<open>
  C38. A \<^verbatim>\<open>recvmsg\<close> that keeps failing is called for ever: the loop has no way out on an
  error, so once the UNIX socket only returns errors the dispatcher spins in it.
\<close>

theorem recv_error_spins:
  assumes "deref w u = Inr su" "recvCmsg w = Some old"
    and "\<And>k. \<exists>n k1. sys_recvmsg S (descriptor su) 128 k = ((Fail n, None), k1)"
  shows "createReceivedSocket S u w = Inl Diverges"
proof -
  have "recvLoop S (descriptor su) buf w \<noteq> Some r" for buf r
  proof
    assume ret: "recvLoop S (descriptor su) buf w = Some r"
    have "(\<exists>old. recvCmsg w = Some old) \<longrightarrow> S = S \<longrightarrow> descriptor su = descriptor su \<longrightarrow> False"
    proof (rule recvLoop.raw_induct [where P = "\<lambda>S' fd buf w r.
          (\<exists>old. recvCmsg w = Some old) \<longrightarrow> S' = S \<longrightarrow> fd = descriptor su \<longrightarrow> False", OF _ ret],
        intro impI, goal_cases)
      case (1 f S' fd buf w r)
      then obtain old where old: "recvCmsg w = Some old" by blast
      obtain n k1 where k: "sys_recvmsg S (descriptor su) 128 (kern w) = ((Fail n, None), k1)"
        using assms(3) by blast
      from 1(2) 1(4,5) old k
      have "f S (descriptor su) buf ((logCall (Io (EvRecvmsg (descriptor su) 128 (Fail n) None)) k1 w)
          \<lparr>recvCmsg := Some old\<rparr>) = Some r"
        by (simp add: allocRecvCmsg_def k_recvmsg_def MAXLINE_def scanBytes_done Let_def
            del: logCall_simps)
      with 1(1) show ?case by fastforce
    qed
    with assms(2) show False by blast
  qed
  then have "recvLoop S (descriptor su) (freshArray S ''buf'' MAXLINE w) w = None"
    by (metis not_None_eq)
  with assms(1) show ?thesis by (simp add: createReceivedSocket_def)
qed

theorem recv_error_spins_witness:
  "createReceivedSocket (replay\<lparr>sys_recvmsg := \<lambda>fd n k. ((Fail 10, None), k)\<rparr>) 1
     (exampleWorld [exampleSock 3 UNIX] []) = Inl Diverges"
  by (rule recv_error_spins [of _ _ "exampleSock 3 UNIX" "-1"])
    (simp_all add: deref_def exampleSock_def)

section \<open>When the receiver returns\<close>

lemma recvLoop_returns:
  fixes m :: "'k \<Rightarrow> nat"
  assumes "\<And>k. m (snd (sys_malloc S k)) \<le> m k"
    and "\<And>k. fst (fst (sys_recvmsg S fd MAXLINE k)) \<in> insert (Data []) {Data [NUL, x] | x. True} \<or>
      m (snd (sys_recvmsg S fd MAXLINE k)) < m k"
    and "2 \<le> length buf"
  shows "\<exists>r. recvLoop S fd buf w = Some r"
  using assms(3)
proof (induction "m (kern w)" arbitrary: buf w rule: less_induct)
  case less
  obtain room w1 where a: "allocRecvCmsg S w = (room, w1)" by (metis surj_pair)
  have w1: "m (kern w1) \<le> m (kern w)"
    using a assms(1) [of "kern w"] by (auto simp: allocRecvCmsg_def k_malloc_def split: option.splits prod.splits if_splits)
  show ?case
  proof (cases room)
    case None
    with a show ?thesis by (simp add: recvLoop.simps [of S fd buf w])
  next
    case (Some old)
    obtain r control k where k: "sys_recvmsg S fd MAXLINE (kern w1) = ((r, control), k)" by (metis prod.collapse)
    let ?c = "case control of None \<Rightarrow> old | Some f \<Rightarrow> f"
    let ?w3 = "(logCall (Io (EvRecvmsg fd MAXLINE r control)) k w1)\<lparr>recvCmsg := Some ?c\<rparr>"
    let ?buf = "overlay (ioBytes r) buf"
    have len: "2 \<le> length ?buf" using less.prems by (simp add: overlay_def)
    have again: "\<exists>x. recvLoop S fd ?buf ?w3 = Some x" if "m k < m (kern w1)"
      using less.hyps [of ?w3 ?buf] that w1 len by simp
    consider "ioRet r = 0" | x where "r = Data [NUL, x]" | "m k < m (kern w1)" "ioRet r \<noteq> 0"
      using assms(2) [of "kern w1"] k by (cases "ioRet r = 0") auto
    then show ?thesis
    proof cases
      case 2
      have "scanBytes ?buf ?c 0 (ioRet r) (-1, 0) = Inr (of_char x, if x = NUL then ?c else - of_char x)"
        using scanBytes_pair [OF len] 2 by (simp add: overlay_def)
      moreover have "0 \<le> (of_char x :: int)" by (metis of_nat_of_char of_nat_0_le_iff)
      ultimately show ?thesis
        using a Some k by (simp add: recvLoop.simps [of S fd buf w] k_recvmsg_def Let_def)
    next
      case 3
      with a Some k again show ?thesis
        by (simp add: recvLoop.simps [of S fd buf w] k_recvmsg_def Let_def split: sum.splits prod.splits)
    qed (use a Some k in \<open>simp add: recvLoop.simps [of S fd buf w] k_recvmsg_def\<close>)
  qed
qed



end
