(* ===== verification/MainLoop.thy ===== *)
theory MainLoop
  imports Prelude
begin

text \<open>
  The shape the three \<^verbatim>\<open>main\<close> functions share: a loop that runs a body until a flag is set.
  The body may crash, the loop need not end. The locale \<open>main_loop\<close> is what a body has to
  keep for a property to hold at every round; each program interprets it on its own body.
\<close>

partial_function (option) repeatUntil ::
    "('s \<Rightarrow> bool) \<Rightarrow> ('s \<Rightarrow> 's outcome) \<Rightarrow> 's \<Rightarrow> 's outcome option" where
  "repeatUntil stop body s =
     (if stop s then Some (Inr s)
      else case body s of
             Inl e \<Rightarrow> Some (Inl e)
           | Inr t \<Rightarrow> repeatUntil stop body t)"

text \<open>The states found at the head of the loop.\<close>

inductive loopReaches :: "('s \<Rightarrow> bool) \<Rightarrow> ('s \<Rightarrow> 's outcome) \<Rightarrow> 's \<Rightarrow> 's \<Rightarrow> bool"
  for stop body s where
  start: "loopReaches stop body s s"
| again: "loopReaches stop body s t \<Longrightarrow> \<not> stop t \<Longrightarrow> body t = Inr u \<Longrightarrow> loopReaches stop body s u"

inductive_cases loopReachesE: "loopReaches stop body s t"

lemmas loopReaches_intros = loopReaches.start loopReaches.again

lemma loopReaches_trans:
  "loopReaches stop body t u \<Longrightarrow> loopReaches stop body s t \<Longrightarrow> loopReaches stop body s u"
  by (induction rule: loopReaches.induct) (auto intro: loopReaches_intros)

text \<open>Where the loop returns, it does so from a state it reaches.\<close>

lemma repeatUntil_reaches:
  assumes "repeatUntil stop body s = Some r"
  shows "\<exists>t. loopReaches stop body s t \<and>
    (r = Inr t \<and> stop t \<or> (\<exists>e. r = Inl e \<and> \<not> stop t \<and> body t = Inl e))"
proof (rule repeatUntil.raw_induct [where P = "\<lambda>stop body s r. \<exists>t. loopReaches stop body s t \<and>
    (r = Inr t \<and> stop t \<or> (\<exists>e. r = Inl e \<and> \<not> stop t \<and> body t = Inl e))", OF _ assms],
    goal_cases)
  case (1 f stop body s r)
  show ?case
  proof (cases "stop s \<or> (\<exists>e. body s = Inl e)")
    case True
    with 1(2) show ?thesis
      by (intro exI [of _ s]) (auto intro: loopReaches.start split: if_splits)
  next
    case False
    then obtain t where t: "\<not> stop s" "body s = Inr t" by (cases "body s") auto
    with 1(2) have "f stop body t = Some r" by simp
    from 1(1) [OF this] t show ?thesis
      by (blast intro: loopReaches_trans loopReaches.again [OF loopReaches.start])
  qed
qed

locale main_loop =
  fixes stop :: "'s \<Rightarrow> bool"
    and body :: "'s \<Rightarrow> 's outcome"
    and inv :: "'s \<Rightarrow> bool"
    and crashes :: "crash set"
  assumes body_ok: "inv s \<Longrightarrow> \<not> stop s \<Longrightarrow> sat crashes inv (body s)"
begin

lemma reaches_inv: "loopReaches stop body s t \<Longrightarrow> inv s \<Longrightarrow> inv t"
proof (induction rule: loopReaches.induct)
  case (again t u)
  then show ?case using body_ok [of t] by simp
qed

lemma result_ok:
  assumes "repeatUntil stop body s = Some r" "inv s"
  shows "sat crashes (\<lambda>t. inv t \<and> stop t) r"
proof -
  obtain t where t: "loopReaches stop body s t"
    "r = Inr t \<and> stop t \<or> (\<exists>e. r = Inl e \<and> \<not> stop t \<and> body t = Inl e)"
    using repeatUntil_reaches [OF assms(1)] by blast
  with reaches_inv assms(2) have "inv t" by blast
  with t(2) show ?thesis using body_ok [of t] by auto
qed

lemma never_crashes_otherwise:
  "loopReaches stop body s t \<Longrightarrow> inv s \<Longrightarrow> \<not> stop t \<Longrightarrow> body t = Inl e \<Longrightarrow> e \<in> crashes"
  using reaches_inv body_ok [of t] by fastforce

end

end
