(* ===== verification/Dispatcher.thy ===== *)
theory Dispatcher
  imports SocketsPoller SocketIO ConfigProtocol FdPassing MainLoop
begin

text \<open>
  \<^verbatim>\<open>mydisp.cpp\<close>: the process that serves the clients. \<open>dispatcherProcess\<close> handles the UNIX
  socket to the listener, \<open>processClient\<close> one client, \<open>dispatcherRound\<close> is the body of the
  loop in \<^verbatim>\<open>main\<close>.
\<close>

definition MAX_SOCKETS :: nat where "MAX_SOCKETS = 10"
definition MSG_PEEK :: int where "MSG_PEEK = 2"

section \<open>The UNIX socket\<close>

text \<open>
  The branch of \<^verbatim>\<open>dispatcherProcess\<close> for a two-byte message: take the client's descriptor
  over and wrap it, then store it or turn it away. The local pointer loses its owner at the
  end of the block.
\<close>

definition storeClient ::
    "'k sys \<Rightarrow> ptr \<Rightarrow> sockets_list \<Rightarrow> 'k world \<Rightarrow> (bool \<times> sockets_list \<times> 'k world) outcome" where
  "storeClient S clientSslSocket socketsList w =
     andThen (putSocket clientSslSocket socketsList w) (\<lambda>(stored, socketsList1, w1).
     andThen (if stored then Inr w1
              else andThen (utilsWrite S clientSslSocket (''FAILED BUSY TRY LATER!!!!'' @ [NL]) w1)
                     (\<lambda>(n, w2). Inr w2)) (\<lambda>w3.
     andThen (modifyObj pollForWrite clientSslSocket w3) (\<lambda>w4.
     andThen (modifyObj (setClientStatus HELLO) clientSslSocket w4) (\<lambda>w5.
     andThen (releasePtr S clientSslSocket w5) (\<lambda>w6. Inr (True, socketsList1, w6))))))"

definition receiveClient ::
    "'k sys \<Rightarrow> ptr \<Rightarrow> sockets_list \<Rightarrow> 'k world \<Rightarrow> (bool \<times> sockets_list \<times> 'k world) outcome" where
  "receiveClient S receivedTcpSocketFactory socketsList w =
     andThen (createReceivedSocket S receivedTcpSocketFactory w) (\<lambda>(clientSocket, w1).
     if clientSocket = nullptr then Inr (False, socketsList, w1)
     else andThen (makeSslSocket S clientSocket w1) (\<lambda>(clientSslSocket, w2).
          storeClient S clientSslSocket socketsList w2))"

text \<open>The branch for the configuration: read it for good and process it.\<close>

definition receiveConfig :: "'k sys \<Rightarrow> int \<Rightarrow> 'k world \<Rightarrow> (bool \<times> 'k world) outcome" where
  "receiveConfig S fd w =
     (let configBuffer = freshArray S ''configBuffer'' 4096 w in
      case k_recv S fd 4096 0 w of (r, w1) \<Rightarrow>
      if ioRet r < 0 then Inr (False, w1)
      else processConfig S (overlay (ioBytes r) configBuffer) (nat (ioRet r)) w1)"

text \<open>
  The message is peeked at into an array of 200 bytes; what the array held before shows
  through behind a short message, and \<^verbatim>\<open>memcmp\<close> looks at it.
\<close>

definition dispatcherProcess ::
    "'k sys \<Rightarrow> ptr \<Rightarrow> ptr \<Rightarrow> sockets_list \<Rightarrow> 'k world \<Rightarrow>
     (bool \<times> sockets_list \<times> 'k world) outcome" where
  "dispatcherProcess S unixSocket receivedTcpSocketFactory socketsList w =
     andThen (deref w unixSocket) (\<lambda>u.
     if isDropped u then Inr (False, socketsList, w)
     else
       (let message0 = freshArray S ''message'' 200 w in
        case k_recv S (descriptor u) 200 MSG_PEEK w of (r, w1) \<Rightarrow>
        let message = overlay (ioBytes r) message0; read_size = ioRet r in
        if read_size = 0 then Inr (False, socketsList, w1)
        else if read_size = 2 then receiveClient S receivedTcpSocketFactory socketsList w1
        else if memeq message ''CONFIG'' then
          andThen (receiveConfig S (descriptor u) w1) (\<lambda>(b, w2). Inr (b, socketsList, w2))
        else if memeq message ''EXIT'' then Inr (False, socketsList, w1)
        else Inr (True, socketsList, w1)))"

section \<open>A client\<close>

text \<open>
  Reading: an empty read is answered with a test write, a message that starts with \<^verbatim>\<open>EXIT\<close>
  says goodbye, and any message makes the socket look ready for writing. The flag says
  whether the function goes on.
\<close>

definition clientRead :: "'k sys \<Rightarrow> ptr \<Rightarrow> 'k world \<Rightarrow> (bool \<times> 'k world) outcome" where
  "clientRead S clientSocket w =
     (let buffer0 = freshArray S ''buffer'' 100 w in
      andThen (utilsRead S clientSocket 100 0 w) (\<lambda>(r, w1).
      let buffer = overlay (ioBytes r) buffer0 in
      if ioRet r = 0 then
        andThen (utilsWrite S clientSocket (''EXIT'' @ [NL]) w1) (\<lambda>(bytes, w2).
        if bytes < 0 then Inr (False, w2) else Inr (True, w2))
      else if 0 < ioRet r then
        andThen (if memeq buffer ''EXIT'' then modifyObj (setClientStatus BYE) clientSocket w1
                 else Inr w1) (\<lambda>w2.
        andThen (modifyObj (setRevents POLLOUT) clientSocket w2) (\<lambda>w3. Inr (True, w3)))
      else Inr (False, w1)))"

definition clientWrite :: "'k sys \<Rightarrow> ptr \<Rightarrow> 'k world \<Rightarrow> (bool \<times> 'k world) outcome" where
  "clientWrite S clientSocket w =
     andThen (deref w clientSocket) (\<lambda>s.
     if clientStatus s = HELLO then
       andThen (utilsWrite S clientSocket (''HELLO!!!!'' @ [NL]) w) (\<lambda>(bytes, w1).
       andThen (modifyObj (setClientStatus ECHO) clientSocket w1) (\<lambda>w2.
       Inr (bytes \<noteq> -1, w2)))
     else if clientStatus s = ECHO then
       andThen (utilsWrite S clientSocket (''ECHOO!!!!'' @ [NL]) w) (\<lambda>(bytes, w1).
       Inr (bytes \<noteq> -1, w1))
     else if clientStatus s = BYE then
       andThen (utilsWrite S clientSocket (''BYE...'' @ [NL]) w) (\<lambda>(bytes, w1). Inr (False, w1))
     else Inr (True, w))"

definition processClient :: "'k sys \<Rightarrow> ptr \<Rightarrow> 'k world \<Rightarrow> (bool \<times> 'k world) outcome" where
  "processClient S clientSocket w =
     andThen (deref w clientSocket) (\<lambda>s.
     if isDropped s then Inr (False, w)
     else
       andThen (if isReadAvailable s then clientRead S clientSocket w else Inr (True, w))
         (\<lambda>(continue, w1).
       if \<not> continue then Inr (False, w1)
       else
         andThen (deref w1 clientSocket) (\<lambda>s1.
         if isWriteAvailable s1 then clientWrite S clientSocket w1 else Inr (True, w1))))"

section \<open>The main loop\<close>

fun requestClientReads :: "ptr list \<Rightarrow> 'k world \<Rightarrow> 'k world outcome" where
  "requestClientReads [] w = Inr w"
| "requestClientReads (p # ps) w =
     andThen (deref w p) (\<lambda>s.
     andThen (if socketType s \<noteq> UNIX then modifyObj pollForRead p w else Inr w)
       (requestClientReads ps))"

text \<open>The \<^verbatim>\<open>for\<close> loop over the ready sockets; the flag is \<^verbatim>\<open>dispatcherFailed\<close>.\<close>

fun processReady ::
    "'k sys \<Rightarrow> ptr \<Rightarrow> ptr \<Rightarrow> ptr list \<Rightarrow> sockets_list \<Rightarrow> 'k world \<Rightarrow>
     (bool \<times> sockets_list \<times> 'k world) outcome" where
  "processReady S unixSocket factory [] socketsList w = Inr (False, socketsList, w)"
| "processReady S unixSocket factory (p # ps) socketsList w =
     andThen (deref w p) (\<lambda>s.
     if socketType s = UNIX then
       andThen (dispatcherProcess S unixSocket factory socketsList w) (\<lambda>(good, socketsList1, w1).
       if \<not> good then Inr (True, socketsList1, w1)
       else processReady S unixSocket factory ps socketsList1 w1)
     else if socketType s = TCP \<or> socketType s = SSL then
       andThen (processClient S p w) (\<lambda>(good, w1).
       andThen (if \<not> good then delSocket S p socketsList w1 else Inr (True, socketsList, w1))
         (\<lambda>(deleted, socketsList1, w2).
       processReady S unixSocket factory ps socketsList1 w2))
     else processReady S unixSocket factory ps socketsList w)"

text \<open>The variables of \<^verbatim>\<open>main\<close> that the loop changes, and the flag that ends it.\<close>

record 'k dstate =
  dispatcherFailed :: bool
  socketsList :: sockets_list
  reSocketsList :: sockets_list
  world :: "'k world"

definition pollAndProcess ::
    "'k sys \<Rightarrow> ptr \<Rightarrow> ptr \<Rightarrow> 'k dstate \<Rightarrow> 'k dstate outcome" where
  "pollAndProcess S unixSocket factory d =
     andThen (pollSockets S (socketsList d) (reSocketsList d) (world d)) (\<lambda>(errorType, re, w).
     if errorType = NO_ERROR then
       andThen (processReady S unixSocket factory (sockets re) (socketsList d) w)
         (\<lambda>(failed, l1, w1).
         Inr \<lparr>dispatcherFailed = failed, socketsList = l1, reSocketsList = re, world = w1\<rparr>)
     else if errorType = TIMEOUT then Inr (d\<lparr>reSocketsList := re, world := w\<rparr>)
     else if errorType = ERROR then
       Inr (d\<lparr>dispatcherFailed := True, reSocketsList := re, world := w\<rparr>)
     else Inr (d\<lparr>reSocketsList := re, world := w\<rparr>))"

definition dispatcherRound ::
    "'k sys \<Rightarrow> ptr \<Rightarrow> ptr \<Rightarrow> 'k dstate \<Rightarrow> 'k dstate outcome" where
  "dispatcherRound S unixSocket factory d =
     andThen (modifyObj pollForRead unixSocket (world d)) (\<lambda>w1.
     andThen (clearSockets S (reSocketsList d) w1) (\<lambda>(re1, w2).
     andThen (requestClientReads (sockets (socketsList d)) w2) (\<lambda>w3.
     pollAndProcess S unixSocket factory (d\<lparr>reSocketsList := re1, world := w3\<rparr>))))"

text \<open>The loop itself: \<open>None\<close> is a dispatcher that runs for ever.\<close>

definition dispatcherLoop ::
    "'k sys \<Rightarrow> ptr \<Rightarrow> ptr \<Rightarrow> 'k dstate \<Rightarrow> 'k dstate outcome option" where
  "dispatcherLoop S unixSocket factory d =
     repeatUntil dispatcherFailed (dispatcherRound S unixSocket factory) d"

abbreviation dispatcherReaches ::
    "'k sys \<Rightarrow> ptr \<Rightarrow> ptr \<Rightarrow> 'k dstate \<Rightarrow> 'k dstate \<Rightarrow> bool" where
  "dispatcherReaches S unixSocket factory \<equiv>
     loopReaches dispatcherFailed (dispatcherRound S unixSocket factory)"

section \<open>Before and after the loop\<close>

text \<open>
  \<^verbatim>\<open>main\<close> copies the pointer to the UNIX socket into the factory and into the list before
  the loop; on return its locals are destroyed in reverse order: the two lists, the
  factory's pointer, its own.
\<close>

definition dispatcherStart :: "ptr \<Rightarrow> 'k world \<Rightarrow> 'k dstate outcome" where
  "dispatcherStart unixSocket w =
     andThen (createReceivedTcpSocketFactory unixSocket w) (\<lambda>(factory, w1).
     andThen (putSocket unixSocket (newSocketsList MAX_SOCKETS) w1) (\<lambda>(stored, l, w2).
     Inr \<lparr>dispatcherFailed = False, socketsList = l,
          reSocketsList = newSocketsList MAX_SOCKETS, world = w2\<rparr>))"

definition dispatcherExit :: "'k sys \<Rightarrow> ptr \<Rightarrow> 'k dstate \<Rightarrow> 'k world outcome" where
  "dispatcherExit S unixSocket d =
     andThen (clearSockets S (reSocketsList d) (world d)) (\<lambda>(re, w1).
     andThen (clearSockets S (socketsList d) w1) (\<lambda>(l, w2).
     andThen (releasePtr S unixSocket w2) (\<lambda>w3.
     releasePtr S unixSocket w3)))"

end
