(* ===== verification/DispatcherSafety.thy ===== *)
theory DispatcherSafety
  imports Dispatcher
begin

text \<open>
  Memory safety of the dispatcher: under exact owner counts no handler dereferences a null
  or dangling pointer to a socket and no assertion fails, whatever the environment answers. The proofs
  follow the code: one \<open>sat\<close> lemma per handler, then the loop as an interpretation of
  \<open>main_loop\<close>.
\<close>

section \<open>The handlers\<close>

lemma clientRead_sat:
  "owned w M \<Longrightarrow> p \<in># M \<Longrightarrow> p \<noteq> nullptr \<Longrightarrow>
   sat E (\<lambda>(b, w'). owned w' M) (clientRead S p w)"
  unfolding clientRead_def Let_def
  by (auto intro!: sat_andThen [OF read_sat [where M = M]] sat_andThen [OF write_sat [where M = M]]
      sat_andThen [OF modify_sat [where M = M]]
      sat_andThen [where Q = "\<lambda>w'. owned w' M"] modify_sat)

lemma clientWrite_sat:
  "owned w M \<Longrightarrow> p \<in># M \<Longrightarrow> p \<noteq> nullptr \<Longrightarrow>
   sat E (\<lambda>(b, w'). owned w' M) (clientWrite S p w)"
  unfolding clientWrite_def
  by (auto intro!: sat_andThen [OF deref_sat [where M = M]] sat_andThen [OF write_sat [where M = M]]
      sat_andThen [OF modify_sat [where M = M]])

lemma processClient_sat:
  "owned w M \<Longrightarrow> p \<in># M \<Longrightarrow> p \<noteq> nullptr \<Longrightarrow>
   sat E (\<lambda>(b, w'). owned w' M) (processClient S p w)"
  unfolding processClient_def
  by (auto intro!: sat_andThen [OF deref_sat [where M = M]]
      sat_andThen [where Q = "\<lambda>(b, w'). owned w' M"] clientRead_sat clientWrite_sat)


lemma makeSslSocket_sat:
  assumes "receivedOk M (p, w)" "p \<noteq> nullptr" "sslCrashes S \<subseteq> E"
  shows "sat E (\<lambda>(q, w'). owned w' (add_mset q M) \<and> q \<noteq> nullptr) (makeSslSocket S p w)"
proof -
  from assms obtain s where "owned w (add_mset p M)" "deref w p = Inr s" "descriptor s \<noteq> -1"
    by (auto simp: receivedOk_def)
  then show ?thesis using sat_mono [OF makeSslSocket_owned [OF _ assms(2)] assms(3)] by blast
qed

lemma storeClient_sat:
  assumes own: "owned w (add_mset c (mset (sockets l) + M))" and c: "c \<noteq> nullptr" and l: "listOk MAX_SOCKETS l"
  shows "sat E (\<lambda>(b, l', w'). owned w' (mset (sockets l') + M) \<and> listOk MAX_SOCKETS l') (storeClient S c l w)"
proof -
  from own have "owned w (mset (sockets l) + add_mset c M)" by simp
  then have put: "sat E (\<lambda>(b, l', w'). owned w' (mset (sockets l') + add_mset c M) \<and> listOk MAX_SOCKETS l')
      (putSocket c l w)"
    using c l by (intro putSocket_sat) auto
  show ?thesis
    unfolding storeClient_def
  proof (rule sat_andThen [OF put], clarify, goal_cases)
    case (1 b l1 w1)
    let ?N = "add_mset c (mset (sockets l1) + M)"
    from 1 have w1: "owned w1 ?N" by simp
    have busy: "sat E (\<lambda>w. owned w ?N) (if b then Inr w1
        else andThen (utilsWrite S c (''FAILED BUSY TRY LATER!!!!'' @ [NL]) w1) (\<lambda>(n, w2). Inr w2))"
      using w1 c by (auto intro!: sat_andThen [OF write_sat [where M = "?N"]])
    show ?case
      by (rule sat_andThen [OF busy], rule sat_andThen [OF modify_sat [where M = "?N"]],
          simp_all add: c, rule sat_andThen [OF modify_sat [where M = "?N"]], simp_all add: c,
          rule sat_andThen [OF release_sat], assumption, simp add: 1)
  qed
qed

lemma receiveClient_sat:
  assumes own: "owned w (mset (sockets l) + M)" and f: "f \<in># M" "f \<noteq> nullptr" and l: "listOk MAX_SOCKETS l"
  shows "sat ({OutOfBounds, Diverges} \<union> sslCrashes S)
    (\<lambda>(b, l', w'). owned w' (mset (sockets l') + M) \<and> listOk MAX_SOCKETS l') (receiveClient S f l w)"
proof -
  have "sat ({OutOfBounds, Diverges} \<union> sslCrashes S) (receivedOk (mset (sockets l) + M)) (createReceivedSocket S f w)"
    by (rule sat_mono [OF createReceivedSocket_ok [OF own _ f(2)]]) (use f(1) in auto)
  then show ?thesis
    unfolding receiveClient_def
  proof (rule sat_andThen, goal_cases)
    case (1 r)
    obtain p w1 where r: "r = (p, w1)" by (cases r)
    show ?case
    proof (cases "p = nullptr")
      case True
      with 1 r l show ?thesis by (simp add: receivedOk_def)
    next
      case False
      from 1 r have "receivedOk (mset (sockets l) + M) (p, w1)" by simp
      then have "sat ({OutOfBounds, Diverges} \<union> sslCrashes S)
          (\<lambda>(b, l', w'). owned w' (mset (sockets l') + M) \<and> listOk MAX_SOCKETS l')
          (andThen (makeSslSocket S p w1) (\<lambda>(c, w2). storeClient S c l w2))"
        by (rule sat_andThen [OF makeSslSocket_sat [OF _ False Un_upper2]]) (auto intro: storeClient_sat l)
      with False r show ?thesis by simp
    qed
  qed
qed

lemma processConfig_sat:
  assumes "owned w M" "n \<le> length buf"
  shows "sat {BufferOverflow} (\<lambda>(b, w'). owned w' M) (processConfig S buf n w)"
proof -
  let ?loop = "configLoop buf n 0 0 (freshArray S ''lineBuffer'' LINE_BUFFER_SIZE w) (appCfg w)"
  have "sat {BufferOverflow} (\<lambda>_. True) ?loop"
    using configLoop_message [of _ n buf] assms(2) by (auto simp: applyLines_fold)
  then show ?thesis
    unfolding processConfig_def
  proof (rule sat_andThen, goal_cases)
    case (1 c)
    obtain r w1 where cc: "createContext S (caFile c) (certFile c) (keyFile c) ''1q2w3e4r''
        (w\<lparr>appCfg := c\<rparr>) = (r, w1)" by (metis surj_pair)
    from createContext_frame [OF cc] have "owned w1 M"
      using assms(1) by (simp add: sameHeap_def owned_cong [of w1 w])
    with cc show ?case by simp
  qed
qed

lemma receiveConfig_sat:
  assumes "owned w M"
  shows "sat {BufferOverflow} (\<lambda>(b, w'). owned w' M) (receiveConfig S fd w)"
proof -
  obtain r w1 where r: "k_recv S fd 4096 0 w = (r, w1)" by (metis surj_pair)
  then have "owned w1 M" using assms owned_sameProc call_frame(2) by blast
  moreover have "nat (ioRet r) \<le> length (overlay (ioBytes r) (freshArray S ''configBuffer'' 4096 w))"
    if "\<not> ioRet r < 0"
    using that by (cases r) (auto simp: overlay_def)
  ultimately show ?thesis using r by (simp add: receiveConfig_def Let_def processConfig_sat)
qed

text \<open>
  The crashes a dispatcher can meet: a long configuration line, a read past the receive array,
  the endless receive loop, and, where \<^verbatim>\<open>SSL_new\<close> can fail, its null pointer.
\<close>

definition dispatcherCrashes :: "'k sys \<Rightarrow> crash set" where
  "dispatcherCrashes S = {BufferOverflow, OutOfBounds, Diverges} \<union> sslCrashes S"

lemma dispatcherProcess_sat:
  assumes own: "owned w (mset (sockets l) + M)" and u: "u \<in># M" "u \<noteq> nullptr"
    and f: "f \<in># M" "f \<noteq> nullptr" and l: "listOk MAX_SOCKETS l"
  shows "sat (dispatcherCrashes S)
    (\<lambda>(b, l', w'). owned w' (mset (sockets l') + M) \<and> listOk MAX_SOCKETS l') (dispatcherProcess S u f l w)"
proof -
  obtain s where s: "deref w u = Inr s" using owned_deref own u by force
  obtain r w1 where r: "k_recv S (descriptor s) 200 MSG_PEEK w = (r, w1)" by (metis surj_pair)
  then have w1: "owned w1 (mset (sockets l) + M)" using own owned_sameProc call_frame(2) by blast
  have rc: "sat (dispatcherCrashes S) (\<lambda>(b, l', w'). owned w' (mset (sockets l') + M) \<and> listOk MAX_SOCKETS l')
      (receiveClient S f l w1)"
    by (rule sat_mono [OF receiveClient_sat [OF w1 f l]]) (auto simp: dispatcherCrashes_def)
  have cfg: "sat (dispatcherCrashes S) (\<lambda>(b, l', w'). owned w' (mset (sockets l') + M) \<and> listOk MAX_SOCKETS l')
      (andThen (receiveConfig S (descriptor s) w1) (\<lambda>(b, w2). Inr (b, l, w2)))"
    by (rule sat_andThen [OF sat_mono [OF receiveConfig_sat [OF w1]]]) (use l in \<open>auto simp: dispatcherCrashes_def\<close>)
  show ?thesis
    using own s r w1 rc cfg l by (simp add: dispatcherProcess_def Let_def)
qed


lemma processReady_sat:
  assumes "owned w (mset (sockets l) + M)" "set ps \<subseteq> set_mset M" "nullptr \<notin> set ps"
    and "u \<in># M" "u \<noteq> nullptr" "f \<in># M" "f \<noteq> nullptr" "listOk MAX_SOCKETS l"
  shows "sat (dispatcherCrashes S)
    (\<lambda>(b, l', w'). owned w' (mset (sockets l') + M) \<and> listOk MAX_SOCKETS l') (processReady S u f ps l w)"
  using assms
proof (induction ps arbitrary: l w)
  case Nil
  then show ?case by simp
next
  case (Cons p ps)
  let ?P = "\<lambda>(b, l', w'). owned w' (mset (sockets l') + M) \<and> listOk MAX_SOCKETS l'"
  from Cons.prems have p: "p \<in># mset (sockets l) + M" "p \<noteq> nullptr" by auto
  then obtain s where s: "deref w p = Inr s" using owned_deref Cons.prems(1) by blast
  have rest: "sat (dispatcherCrashes S) ?P (processReady S u f ps l1 w1)"
    if "owned w1 (mset (sockets l1) + M)" "listOk MAX_SOCKETS l1" for l1 w1
    using Cons.IH [OF that(1)] that(2) Cons.prems by simp
  have unix: "sat (dispatcherCrashes S) ?P (andThen (dispatcherProcess S u f l w) (\<lambda>(good, l1, w1).
      if \<not> good then Inr (True, l1, w1) else processReady S u f ps l1 w1))"
    by (rule sat_andThen [OF dispatcherProcess_sat [OF Cons.prems(1,4-8)]]) (auto intro: rest)
  have client: "sat (dispatcherCrashes S) ?P (andThen (processClient S p w) (\<lambda>(good, w1).
      andThen (if \<not> good then delSocket S p l w1 else Inr (True, l, w1)) (\<lambda>(deleted, l1, w2).
      processReady S u f ps l1 w2)))"
  proof (rule sat_andThen [OF processClient_sat [OF Cons.prems(1) p]], clarify, goal_cases)
    case (1 good w1)
    note o = this
    then have "sat (dispatcherCrashes S) ?P
        (if \<not> good then delSocket S p l w1 else Inr (True, l, w1))"
      using delSocket_sat [OF o p Cons.prems(8)] Cons.prems(8) by simp
    then show ?case
      by (rule sat_andThen) (auto intro: rest)
  qed
  show ?case
    using s unix client rest [OF Cons.prems(1,8)] by simp
qed

lemma requestClientReads_sat:
  "owned w M \<Longrightarrow> set ps \<subseteq> set_mset M \<Longrightarrow> nullptr \<notin> set ps \<Longrightarrow>
   sat E (\<lambda>w'. owned w' M) (requestClientReads ps w)"
proof (induction ps arbitrary: w)
  case Nil
  then show ?case by simp
next
  case (Cons p ps)
  then have p: "p \<in># M" "p \<noteq> nullptr" by auto
  then obtain s where s: "deref w p = Inr s" using owned_deref Cons.prems(1) by blast
  have "sat E (\<lambda>w'. owned w' M) (if socketType s \<noteq> UNIX then modifyObj pollForRead p w else Inr w)"
    using modify_sat [OF Cons.prems(1) p] Cons.prems(1) by simp
  then have "sat E (\<lambda>w'. owned w' M)
    (andThen (if socketType s \<noteq> UNIX then modifyObj pollForRead p w else Inr w)
       (requestClientReads ps))"
    by (rule sat_andThen) (use Cons in auto)
  with s show ?case by simp
qed

text \<open>
  The invariant of the loop: the two lists, \<^verbatim>\<open>main\<close>'s own pointer and the factory's account
  for every owner, no list is over its size and none holds a null pointer.
\<close>

definition dispatcherInv :: "ptr \<Rightarrow> 'k dstate \<Rightarrow> bool" where
  "dispatcherInv u d \<longleftrightarrow>
     owned (world d) (mset (sockets (socketsList d)) + mset (sockets (reSocketsList d)) + {#u, u#}) \<and>
     u \<noteq> nullptr \<and> listOk MAX_SOCKETS (socketsList d) \<and> listOk MAX_SOCKETS (reSocketsList d)"

lemma pollAndProcess_sat:
  assumes inv: "dispatcherInv u d" and re: "sockets (reSocketsList d) = []"
  shows "sat (dispatcherCrashes S) (dispatcherInv u) (pollAndProcess S u u d)"
proof -
  let ?l = "socketsList d" and ?re = "reSocketsList d"
  have u: "u \<noteq> nullptr" and ok: "listOk MAX_SOCKETS ?l" "listOk MAX_SOCKETS ?re"
    and own: "owned (world d) (mset (sockets ?l) + mset (sockets ?re) + {#u, u#})"
    using inv by (auto simp: dispatcherInv_def)
  have nn: "nullptr \<notin> set (sockets ?l)" "length (sockets ?l) \<le> MAX_SOCKETS_TO_POLL"
    using ok(1) by (auto simp: listOk_def MAX_SOCKETS_def MAX_SOCKETS_TO_POLL_def)
  obtain e re2 w4 where p: "pollSockets S ?l ?re (world d) = Inr (e, re2, w4)"
    "owned w4 (mset (sockets ?l) + mset (sockets re2) + {#u, u#})" "maxSize re2 = maxSize ?re"
    "length (sockets re2) \<le> maxSize ?re" "set (sockets re2) \<subseteq> set (sockets ?l)"
    using pollSockets_owned [OF own nn, where S = S] re by auto
  then have re2: "listOk MAX_SOCKETS re2" using ok nn by (auto simp: listOk_def)
  have ready: "sat (dispatcherCrashes S) (dispatcherInv u)
     (andThen (processReady S u u (sockets re2) ?l w4) (\<lambda>(failed, l1, w5).
      Inr \<lparr>dispatcherFailed = failed, socketsList = l1, reSocketsList = re2, world = w5\<rparr>))"
    by (rule sat_andThen [OF processReady_sat [where M = "mset (sockets re2) + {#u, u#}"]])
      (use p u re2 ok in \<open>auto simp: listOk_def dispatcherInv_def ac_simps\<close>)
  show ?thesis
    using p ready re2 ok u by (auto simp: pollAndProcess_def dispatcherInv_def)
qed

lemma dispatcherRound_sat:
  assumes inv: "dispatcherInv u d"
  shows "sat (dispatcherCrashes S) (dispatcherInv u) (dispatcherRound S u u d)"
proof -
  let ?M = "mset (sockets (socketsList d)) + {#u, u#}"
  from inv have own: "owned (world d) (mset (sockets (reSocketsList d)) + ?M)" and u: "u \<noteq> nullptr"
    and ok: "listOk MAX_SOCKETS (socketsList d)" "listOk MAX_SOCKETS (reSocketsList d)"
    by (auto simp: dispatcherInv_def ac_simps)
  show ?thesis
    unfolding dispatcherRound_def
  proof (rule sat_andThen [OF modify_sat [OF own]], simp, rule u, goal_cases)
    case (1 w1)
    show ?case
    proof (rule sat_andThen [OF clearSockets_sat [OF 1]], clarify, goal_cases)
      case (1 re1 w2)
      show ?case
      proof (rule sat_andThen [OF requestClientReads_sat [OF 1]], goal_cases)
        case (3 w3)
        then show ?case
          using ok u by (intro pollAndProcess_sat) (auto simp: dispatcherInv_def listOk_def)
      qed (use ok in \<open>auto simp: listOk_def\<close>)
    qed
  qed
qed

interpretation dl: main_loop dispatcherFailed "dispatcherRound S u u" "dispatcherInv u"
  "dispatcherCrashes S" for S :: "'k sys" and u
  by unfold_locales (rule dispatcherRound_sat)

end
