(* ===== verification/DispatcherRun.thy ===== *)
theory DispatcherRun
  imports DispatcherSafety
begin

text \<open>
  The dispatcher's whole run: from \<open>dispatcherStart\<close> through any number of rounds to
  \<open>dispatcherExit\<close>, and what becomes of it once its list of sockets is full.
\<close>

section \<open>A full list\<close>

lemma storeClient_full_list:
  "length (sockets l) = maxSize l \<Longrightarrow> storeClient S c l w = Inr (b, l', w') \<Longrightarrow> l' = l"
  by (auto simp: storeClient_def outcome_simps)

lemma receiveClient_full_list:
  "length (sockets l) = maxSize l \<Longrightarrow> receiveClient S f l w = Inr (b, l', w') \<Longrightarrow> l' = l"
  by (auto simp: receiveClient_def outcome_simps split: if_splits dest: storeClient_full_list)

lemma dispatcherProcess_full_list:
  "length (sockets l) = maxSize l \<Longrightarrow> dispatcherProcess S u f l w = Inr (b, l', w') \<Longrightarrow> l' = l"
  by (auto simp: dispatcherProcess_def Let_def outcome_simps split: if_splits prod.splits
      dest: receiveClient_full_list)

lemma processReady_full_list:
  "length (sockets l) = maxSize l \<Longrightarrow> processReady S u f ps l w = Inr (b, l', w') \<Longrightarrow> l' = l"
proof (induction ps arbitrary: w)
  case Nil
  then show ?case by simp
next
  case (Cons p ps)
  then show ?case
    by (auto simp: outcome_simps split: if_splits dest: dispatcherProcess_full_list)
qed

lemma pollAndProcess_full_list:
  assumes full: "length (sockets (socketsList d)) = maxSize (socketsList d)"
    and run: "pollAndProcess S u f d = Inr d'"
  shows "socketsList d' = socketsList d"
proof -
  from run obtain e re w where "pollSockets S (socketsList d) (reSocketsList d) (world d) = Inr (e, re, w)"
    by (auto simp: pollAndProcess_def andThen_eq_Inr)
  moreover have "l1 = socketsList d"
    if "processReady S u f (sockets re) (socketsList d) w = Inr (failed, l1, w1)" for failed l1 w1
    using processReady_full_list [OF full that] .
  ultimately show ?thesis
    using run by (auto simp: pollAndProcess_def andThen_eq_Inr split: if_splits)
qed

lemma dispatcherRound_full_list:
  assumes full: "length (sockets (socketsList d)) = maxSize (socketsList d)"
    and run: "dispatcherRound S u f d = Inr d'"
  shows "socketsList d' = socketsList d"
proof -
  from run obtain re1 w3 where
    "pollAndProcess S u f (d\<lparr>reSocketsList := re1, world := w3\<rparr>) = Inr d'"
    by (auto simp: dispatcherRound_def andThen_eq_Inr)
  then show ?thesis
    using pollAndProcess_full_list [of "d\<lparr>reSocketsList := re1, world := w3\<rparr>"] full by simp
qed

interpretation full: main_loop dispatcherFailed "dispatcherRound S u f"
  "\<lambda>d. socketsList d = l \<and> length (sockets l) = maxSize l" UNIV for S :: "'k sys" and u f l
proof (unfold_locales, elim conjE, goal_cases)
  case (1 d)
  show ?case
  proof (cases "dispatcherRound S u f d")
    case (Inr d')
    have "length (sockets (socketsList d)) = maxSize (socketsList d)"
      unfolding \<open>socketsList d = l\<close> by (fact 1)
    from dispatcherRound_full_list [OF this Inr] 1 Inr show ?thesis by simp
  qed simp
qed

section \<open>From start to exit\<close>

lemma dispatcherStart_inv:
  assumes "owned w {#u#}" "u \<noteq> nullptr"
  shows "\<exists>d. dispatcherStart u w = Inr d \<and> dispatcherInv u d"
proof -
  obtain w1 where w1: "sharePtr u w = Inr w1" "owned w1 {#u, u#}"
    using owned_share [OF assms(1)] by auto
  let ?l = "newSocketsList MAX_SOCKETS"
  have o1: "owned w1 (mset (sockets ?l) + {#u, u#})"
    using w1(2) by (simp add: newSocketsList_def)
  obtain b l w2 where put: "putSocket u ?l w1 = Inr (b, l, w2)"
    using sl.put_total [OF o1, of u] by auto
  from sl.put_own [OF o1 _ this] have "owned w2 (mset (sockets l) + {#u, u#})"
    "sockets l = [u]" "maxSize l = MAX_SOCKETS"
    by (auto simp: newSocketsList_def MAX_SOCKETS_def)
  with w1 put assms(2) show ?thesis
    by (auto simp: dispatcherStart_def dispatcherInv_def listOk_def newSocketsList_def MAX_SOCKETS_def)
qed

lemma dispatcherExit_owned:
  assumes "dispatcherInv u d"
  shows "\<exists>w'. dispatcherExit S u d = Inr w' \<and> owned w' {#}"
proof -
  let ?M = "{#u, u#}"
  have o: "owned (world d) (mset (sockets (reSocketsList d)) + (mset (sockets (socketsList d)) + ?M))"
    using assms by (simp add: dispatcherInv_def ac_simps)
  have "sat {} (\<lambda>w'. owned w' {#}) (dispatcherExit S u d)"
    unfolding dispatcherExit_def
  proof (rule sat_andThen [OF clearSockets_sat [OF o]], clarify, goal_cases)
    case (1 re w1)
    show ?case
    proof (rule sat_andThen [OF clearSockets_sat [OF 1]], clarify, goal_cases)
      case (1 l w2)
      show ?case by (rule sat_andThen [OF release_sat [OF 1]]) (rule release_sat)
    qed
  qed
  then show ?thesis by (rule sat_emptyD)
qed

text \<open>
  C1. Memory safety of the dispatcher. Started on a live UNIX socket that nobody else owns,
  in every round it reaches, whatever the environment answers, the owner counts are exact,
  neither list is over its ten entries, and the round returns or ends in one of the ways of
  \<open>dispatcherCrashes\<close>: an overflow of the configuration line array, a read past the receive
  array, the receive loop that never ends, or, only in an environment where \<^verbatim>\<open>SSL_new\<close> can fail,
  its null pointer given to \<^verbatim>\<open>SSL_set_bio\<close>. No null or dangling pointer to a socket is ever
  used, no assertion fails.
\<close>

theorem dispatcher_memory_safe:
  assumes "owned w {#u#}" "u \<noteq> nullptr" "dispatcherStart u w = Inr d"
    and "dispatcherReaches S u u d d1"
  shows "dispatcherInv u d1 \<and>
    sat (dispatcherCrashes S) (dispatcherInv u) (dispatcherRound S u u d1)"
proof -
  have "dispatcherInv u d" using dispatcherStart_inv [OF assms(1,2)] assms(3) by auto
  with assms(4) have "dispatcherInv u d1" by (rule dl.reaches_inv)
  with dispatcherRound_sat show ?thesis by blast
qed

theorem dispatcher_memory_safe_witness:
  "\<exists>d. dispatcherStart 1 (exampleWorld [exampleSock 3 UNIX] []) = Inr d \<and>
    sockets (socketsList d) = [1] \<and> dispatcherInv 1 d"
proof -
  let ?w = "exampleWorld [exampleSock 3 UNIX] []"
  have own: "owned ?w {#1#}" by (auto simp: owned_def ownersOf_def)
  obtain d where d: "dispatcherStart 1 ?w = Inr d" "sockets (socketsList d) = [1]"
    by (auto simp: dispatcherStart_def sharePtr_def putSocket_def newSocketsList_def
        MAX_SOCKETS_def outcome_simps)
  with dispatcher_memory_safe [OF own _ d(1) loopReaches.start] show ?thesis by simp
qed

text \<open>
  When the dispatcher leaves its loop, destroying the locals of \<^verbatim>\<open>main\<close> frees every socket
  object: nothing is left in the heap and no pointer is dropped twice.
\<close>

theorem dispatcher_exit_frees_all:
  assumes "owned w {#u#}" "u \<noteq> nullptr" "dispatcherStart u w = Inr d"
    and "dispatcherLoop S u u d = Some (Inr d1)"
  shows "\<exists>w1. dispatcherExit S u d1 = Inr w1 \<and> (\<forall>p. heap w1 p = None)"
proof -
  have "dispatcherInv u d" using dispatcherStart_inv [OF assms(1,2)] assms(3) by auto
  with assms(4) have "dispatcherInv u d1"
    unfolding dispatcherLoop_def using dl.result_ok by fastforce
  then obtain w1 where "dispatcherExit S u d1 = Inr w1" "owned w1 {#}"
    using dispatcherExit_owned by blast
  then show ?thesis using owned_None by fastforce
qed

theorem dispatcher_exit_frees_all_witness:
  "\<exists>d d1 w1. dispatcherStart 1 (exampleWorld [exampleSock 3 UNIX] []) = Inr d \<and>
    dispatcherLoop replay 1 1 d = Some (Inr d1) \<and> dispatcherExit replay 1 d1 = Inr w1 \<and>
    heap w1 1 = None"
proof -
  let ?w = "exampleWorld [exampleSock 3 UNIX] []"
  have own: "owned ?w {#1#}" by (auto simp: owned_def ownersOf_def)
  obtain d where d: "dispatcherStart 1 ?w = Inr d" "\<not> dispatcherFailed d"
    "sockets (socketsList d) = [1]" "sockets (reSocketsList d) = []" "kern (world d) = []"
    "heap (world d) 1 = Some \<lparr>obj = exampleSock 3 UNIX, useCount = 3\<rparr>"
    by (auto simp: dispatcherStart_def sharePtr_def putSocket_def newSocketsList_def
        MAX_SOCKETS_def outcome_simps)
  then obtain d1 where "dispatcherRound replay 1 1 d = Inr d1" "dispatcherFailed d1"
    by (auto simp: dispatcherRound_def pollAndProcess_def pollSockets_def clearSockets_def
        modifyObj_def deref_def exampleSock_def MAX_SOCKETS_TO_POLL_def call_defs replay_def
        EINTR_def sock_defs)
  with d(2) have l: "dispatcherLoop replay 1 1 d = Some (Inr d1)"
    by (simp add: dispatcherLoop_def repeatUntil.simps)
  from dispatcher_exit_frees_all [OF own _ d(1) l] d(1) l show ?thesis by auto
qed

text \<open>
  C22. Once the dispatcher's list holds as many sockets as it can, it never changes again: no
  later round adds a socket, and none takes out a client that has gone, since \<^verbatim>\<open>delSocket\<close>
  refuses to work on a full list.
\<close>

theorem dispatcher_full_forever:
  assumes "length (sockets (socketsList d)) = maxSize (socketsList d)"
    and "dispatcherReaches S u f d d1"
  shows "socketsList d1 = socketsList d"
  using full.reaches_inv [OF assms(2), of "socketsList d"] assms(1) by simp

theorem dispatcher_full_forever_witness:
  "\<exists>d1. dispatcherReaches replay 1 1
      \<lparr>dispatcherFailed = False, socketsList = \<lparr>sockets = [1, 2], maxSize = 2\<rparr>,
       reSocketsList = \<lparr>sockets = [], maxSize = 2\<rparr>,
       world = exampleWorld [exampleSock 3 UNIX, exampleSock 6 SSL]
         [APoll \<lparr>pollRet = 1, pollErrno = 0, pollRevents = (\<lambda>i. if i = 1 then POLLHUP else 0)\<rparr>]\<rparr> d1 \<and>
    sockets (socketsList d1) = [1, 2] \<and> sockets (reSocketsList d1) = [2]"
proof -
  let ?r = "\<lparr>pollRet = 1, pollErrno = 0, pollRevents = (\<lambda>i. if i = 1 then POLLHUP else 0)\<rparr>"
  let ?d = "\<lparr>dispatcherFailed = False, socketsList = \<lparr>sockets = [1, 2], maxSize = 2\<rparr>,
       reSocketsList = \<lparr>sockets = [], maxSize = 2\<rparr>,
       world = exampleWorld [exampleSock 3 UNIX, exampleSock 6 SSL] [APoll ?r]\<rparr>"
  obtain d1 where "dispatcherRound replay 1 1 ?d = Inr d1" "sockets (reSocketsList d1) = [2]"
    by (auto simp: dispatcherRound_def pollAndProcess_def pollSockets_def clearSockets_def
        modifyObj_def deref_def exampleSock_def MAX_SOCKETS_TO_POLL_def call_defs replay_def
        putSocket_def sharePtr_def processClient_def isDropped_def sock_defs poll_bits
        NO_EVENTS_def)
  then have "dispatcherReaches replay 1 1 ?d d1"
    by (intro loopReaches.again [OF loopReaches.start]) simp_all
  with dispatcher_full_forever [OF _ this] \<open>sockets (reSocketsList d1) = [2]\<close> show ?thesis
    by auto
qed

end
