(* ===== verification/SocketFactories.thy ===== *)
theory SocketFactories
  imports FdPassing SocketIO
begin

text \<open>
  \<^verbatim>\<open>SocketFactory.h\<close> and the factories behind it (\<^verbatim>\<open>UnixSocketFactory.cpp\<close>,
  \<^verbatim>\<open>UnixListenerSocketFactory.cpp\<close>, \<^verbatim>\<open>TcpListenerSocketFactory.cpp\<close>,
  \<^verbatim>\<open>TcpSslListenerSocketFactory.cpp\<close>, \<^verbatim>\<open>TcpSslConnectSocketFactory.cpp\<close>; the receiver is in
  theory \<open>FdPassing\<close>), with \<^verbatim>\<open>acceptConnection\<close> of the sockets they make. The locale
  \<open>socket_factory\<close> is the contract of the virtual \<^verbatim>\<open>createSocket\<close>.
\<close>

section \<open>Helpers of the factories\<close>

definition O_NONBLOCK :: "32 word" where "O_NONBLOCK = 0x800"

definition setnonblocking :: "'k sys \<Rightarrow> int \<Rightarrow> 'k world \<Rightarrow> bool \<times> 'k world" where
  "setnonblocking S fd w =
     (case k_getfl S fd w of (opts, w1) \<Rightarrow>
      if sint opts < 0 then (False, w1)
      else case k_setfl S fd (opts OR O_NONBLOCK) w1 of (r, w2) \<Rightarrow> (\<not> r < 0, w2))"

text \<open>
  The address of a UNIX socket: \<^verbatim>\<open>strncpy\<close> keeps at most 107 bytes of the C string in the
  108 bytes of \<^verbatim>\<open>sun_path\<close>, and the length passed on counts the path and the family.
\<close>

definition unixAddress :: "string \<Rightarrow> sockaddr" where
  "unixAddress path = (let sun_path = take 107 (cstr path) in SockaddrUn sun_path (length sun_path + 2))"

text \<open>\<^verbatim>\<open>INADDR_ANY\<close> with a port; the port stands for its number, not for the bytes \<^verbatim>\<open>htons\<close> makes.\<close>

definition anyAddress :: "16 word \<Rightarrow> sockaddr" where
  "anyAddress port = SockaddrIn [NUL, NUL, NUL, NUL] port"

text \<open>\<^verbatim>\<open>std::make_shared\<close> of a class derived from \<^verbatim>\<open>Socket\<close>.\<close>

definition makeObject :: "sock outcome \<Rightarrow> 'k world \<Rightarrow> (ptr \<times> 'k world) outcome" where
  "makeObject constructed w = andThen constructed (\<lambda>s. Inr (makeShared s w))"

abbreviation makeSocket ::
    "socketClass \<Rightarrow> int \<Rightarrow> SocketType \<Rightarrow> bool \<Rightarrow> 'k world \<Rightarrow> (ptr \<times> 'k world) outcome" where
  "makeSocket cls fd t listens \<equiv> makeObject (newSocket cls fd t listens)"

section \<open>The factories\<close>

text \<open>The derived classes of \<^verbatim>\<open>SocketFactory\<close> with their fields.\<close>

datatype socketFactory =
    UnixSocketFactory string
  | UnixListenerSocketFactory string
  | TcpListenerSocketFactory "16 word" "16 word"
  | TcpSslListenerSocketFactory "16 word" "16 word" handle
  | ReceivedTcpSocketFactory ptr
  | TcpSslConnectSocketFactory string "16 word" handle

definition unixCreate :: "'k sys \<Rightarrow> string \<Rightarrow> 'k world \<Rightarrow> (ptr \<times> 'k world) outcome" where
  "unixCreate S path w =
     (case k_socket S AF_UNIX w of (sfd, w1) \<Rightarrow>
      if sfd < 0 then Inr (nullptr, w1)
      else case k_connect S sfd (unixAddress path) w1 of (retVal, w2) \<Rightarrow>
        if retVal < 0 then Inr (nullptr, w2)
        else case setnonblocking S sfd w2 of (b, w3) \<Rightarrow> makeObject (newUnixSocket sfd) w3)"

definition unixListenerCreate :: "'k sys \<Rightarrow> string \<Rightarrow> 'k world \<Rightarrow> (ptr \<times> 'k world) outcome" where
  "unixListenerCreate S path w =
     (case k_socket S AF_UNIX w of (sfd, w1) \<Rightarrow>
      if sfd < 0 then Inr (nullptr, w1)
      else case k_bind S sfd (unixAddress path) (k_unlink S (cstr path) w1) of (retVal, w2) \<Rightarrow>
        if retVal < 0 then Inr (nullptr, w2)
        else case k_listen S sfd 3 w2 of (retVal, w3) \<Rightarrow>
          if retVal < 0 then Inr (nullptr, w3)
          else makeObject (newUnixListenerSocket sfd path) w3)"

text \<open>
  The body shared by the two TCP listeners, word for word the same in both files: a bound,
  listening descriptor or none. A failed \<^verbatim>\<open>setsockopt\<close> is only logged.
\<close>

definition openTcpListener ::
    "'k sys \<Rightarrow> 16 word \<Rightarrow> 16 word \<Rightarrow> 'k world \<Rightarrow> int option \<times> 'k world" where
  "openTcpListener S port queueLength w =
     (case k_socket S AF_INET w of (socketfd, w1) \<Rightarrow>
      if socketfd < 0 then (None, w1)
      else case k_setsockopt S socketfd w1 of (r, w2) \<Rightarrow>
        case k_bind S socketfd (anyAddress port) w2 of (retVal, w3) \<Rightarrow>
        if retVal < 0 then (None, w3)
        else case k_listen S socketfd (unat queueLength) w3 of (retVal, w4) \<Rightarrow>
          if retVal < 0 then (None, w4) else (Some socketfd, w4))"

definition tcpListenerCreate ::
    "'k sys \<Rightarrow> 16 word \<Rightarrow> 16 word \<Rightarrow> 'k world \<Rightarrow> (ptr \<times> 'k world) outcome" where
  "tcpListenerCreate S port queueLength w =
     (case openTcpListener S port queueLength w of
        (None, w1) \<Rightarrow> Inr (nullptr, w1)
      | (Some fd, w1) \<Rightarrow> makeObject (newTcpListenerSocket fd) w1)"

definition tcpSslListenerCreate ::
    "'k sys \<Rightarrow> 16 word \<Rightarrow> 16 word \<Rightarrow> handle \<Rightarrow> 'k world \<Rightarrow> (ptr \<times> 'k world) outcome" where
  "tcpSslListenerCreate S port queueLength ctx w =
     (case openTcpListener S port queueLength w of
        (None, w1) \<Rightarrow> Inr (nullptr, w1)
      | (Some fd, w1) \<Rightarrow> makeObject (newTcpSslListenerSocket fd ctx) w1)"

text \<open>
  \<^verbatim>\<open>BIO_free(sbio); SSL_free(ssl);\<close> after \<^verbatim>\<open>SSL_set_bio\<close>: the SSL object owns the BIO by then and
  frees it again, unless there is none.
\<close>

definition freeTwice :: "'k sys \<Rightarrow> handle \<Rightarrow> handle \<Rightarrow> 'k world \<Rightarrow> 'k world outcome" where
  "freeTwice S ssl sbio w =
     (let w1 = k_BIO_free S sbio w in guarded (sbio = 0) DoubleFree (Inr (k_SSL_free S ssl w1)))"

text \<open>
  Connecting a TLS client. \<^verbatim>\<open>memcpy\<close> copies \<^verbatim>\<open>h_length\<close> bytes into the four bytes of
  \<^verbatim>\<open>sin_addr\<close>.
\<close>

definition connectSsl ::
    "'k sys \<Rightarrow> handle \<Rightarrow> int \<Rightarrow> 'k world \<Rightarrow> (ptr \<times> 'k world) outcome" where
  "connectSsl S ctx sockfd w =
     (case k_SSL_new S ctx w of (ssl, w1) \<Rightarrow>
      case k_BIO_new_socket S sockfd BIO_NOCLOSE w1 of (sbio, w2) \<Rightarrow>
      andThen (setBio S ssl sbio w2) (\<lambda>w3.
      case k_SSL_connect S ssl w3 of (r, w4) \<Rightarrow>
      unlessKilled S w4
        (if r \<le> 0 then
           andThen (freeTwice S ssl sbio (k_close S sockfd w4)) (\<lambda>w5. Inr (nullptr, w5))
         else makeObject (newSslClientSocket sockfd sbio ssl) w4)))"

definition tcpSslConnectCreate ::
    "'k sys \<Rightarrow> string \<Rightarrow> 16 word \<Rightarrow> handle \<Rightarrow> 'k world \<Rightarrow> (ptr \<times> 'k world) outcome" where
  "tcpSslConnectCreate S host port ctx w =
     (case k_gethostbyname S (cstr host) w of (hostEntry, w1) \<Rightarrow>
      case hostEntry of
        None \<Rightarrow> Inr (nullptr, w1)
      | Some he \<Rightarrow>
         if hLength he = 0 then Inr (nullptr, w1)
         else case k_socket S AF_INET w1 of (sockfd, w2) \<Rightarrow>
           if sockfd = -1 then Inr (nullptr, w2)
           else guarded (hLength he \<le> 4) BufferOverflow
             (case k_connect S sockfd (SockaddrIn (take (hLength he) (hAddr he)) port) w2 of (r, w3) \<Rightarrow>
              if r \<noteq> 0 then Inr (nullptr, k_close S sockfd w3)
              else connectSsl S ctx sockfd w3))"

text \<open>The virtual method.\<close>

fun createSocket :: "'k sys \<Rightarrow> socketFactory \<Rightarrow> 'k world \<Rightarrow> (ptr \<times> 'k world) outcome" where
  "createSocket S (UnixSocketFactory path) w = unixCreate S path w"
| "createSocket S (UnixListenerSocketFactory path) w = unixListenerCreate S path w"
| "createSocket S (TcpListenerSocketFactory port q) w = tcpListenerCreate S port q w"
| "createSocket S (TcpSslListenerSocketFactory port q ctx) w = tcpSslListenerCreate S port q ctx w"
| "createSocket S (ReceivedTcpSocketFactory u) w = createReceivedSocket S u w"
| "createSocket S (TcpSslConnectSocketFactory host port ctx) w = tcpSslConnectCreate S host port ctx w"

text \<open>The functions that make the other factories.\<close>

definition createUnixSocketFactory :: "string \<Rightarrow> socketFactory" where
  [simp]: "createUnixSocketFactory path = UnixSocketFactory path"

definition createUnixListenerSocketFactory :: "string \<Rightarrow> socketFactory" where
  [simp]: "createUnixListenerSocketFactory path = UnixListenerSocketFactory path"

definition createTcpListenerSocketFactory :: "16 word \<Rightarrow> 16 word \<Rightarrow> socketFactory" where
  [simp]: "createTcpListenerSocketFactory port queueLength = TcpListenerSocketFactory port queueLength"

text \<open>
  The two functions that make a TLS factory throw when there is no context; the left side is
  the \<^verbatim>\<open>what()\<close> of the \<^verbatim>\<open>std::runtime_error\<close>.
\<close>

definition createTcpSslListenerSocketFactory ::
    "16 word \<Rightarrow> 16 word \<Rightarrow> 'k world \<Rightarrow> string + socketFactory" where
  "createTcpSslListenerSocketFactory port queueLength w =
     (if sslGlobalCtx w = 0 then Inl ''SSL global context is NULL''
      else Inr (TcpSslListenerSocketFactory port queueLength (sslGlobalCtx w)))"

definition createTcpSslConnectSocketFactory :: "string \<Rightarrow> 16 word \<Rightarrow> 'k world \<Rightarrow> string + socketFactory" where
  "createTcpSslConnectSocketFactory host port w =
     (if sslGlobalCtx w = 0 then Inl ''SSL global context is NULL''
      else Inr (TcpSslConnectSocketFactory host port (sslGlobalCtx w)))"

section \<open>Accepting a connection\<close>

text \<open>The methods of the two listeners without TLS differ in the type of the new socket only.\<close>

definition acceptPlain :: "'k sys \<Rightarrow> sock \<Rightarrow> SocketType \<Rightarrow> 'k world \<Rightarrow> (ptr \<times> 'k world) outcome" where
  "acceptPlain S s t w =
     (case k_accept S (descriptor s) w of (new_fd, w1) \<Rightarrow>
      if new_fd < 0 then Inr (nullptr, w1) else makeSocket PlainSocket new_fd t False w1)"

definition acceptUnix :: "'k sys \<Rightarrow> sock \<Rightarrow> 'k world \<Rightarrow> (ptr \<times> 'k world) outcome" where
  [simp]: "acceptUnix S s w = acceptPlain S s UNIX w"

definition acceptTcp :: "'k sys \<Rightarrow> sock \<Rightarrow> 'k world \<Rightarrow> (ptr \<times> 'k world) outcome" where
  [simp]: "acceptTcp S s w = acceptPlain S s TCP w"

definition acceptSsl :: "'k sys \<Rightarrow> sock \<Rightarrow> handle \<Rightarrow> 'k world \<Rightarrow> (ptr \<times> 'k world) outcome" where
  "acceptSsl S s ctx w =
     (case k_accept S (descriptor s) w of (newfd, w1) \<Rightarrow>
      if newfd < 0 then Inr (nullptr, w1)
      else case k_BIO_new_socket S newfd BIO_NOCLOSE w1 of (sbio, w2) \<Rightarrow>
        case k_SSL_new S ctx w2 of (ssl, w3) \<Rightarrow>
        andThen (setBio S ssl sbio w3) (\<lambda>w4.
        case k_SSL_accept S ssl w4 of (retVal, w5) \<Rightarrow>
        unlessKilled S w5
          (if retVal \<le> 0 then Inr (nullptr, w5)
           else makeSocket PlainSocket newfd SSL False w5)))"

text \<open>The virtual method; that of the base class asserts that it is never called.\<close>

definition acceptConnection :: "'k sys \<Rightarrow> ptr \<Rightarrow> 'k world \<Rightarrow> (ptr \<times> 'k world) outcome" where
  "acceptConnection S p w =
     andThen (deref w p) (\<lambda>s.
       case dynClass s of
         UnixListenerSocket path \<Rightarrow> acceptUnix S s w
       | TcpListenerSocket \<Rightarrow> acceptTcp S s w
       | TcpSslListenerSocket ctx \<Rightarrow> acceptSsl S s ctx w
       | _ \<Rightarrow> Inl AssertFailed)"

section \<open>What a factory promises\<close>

text \<open>
  The contract of \<^verbatim>\<open>createSocket\<close>: the caller becomes the owner of what it gets, null or not,
  and nobody else's ownership changes. \<open>needs\<close> are the pointers the factory itself holds.
\<close>

locale socket_factory = ownership own share release
  for own :: "'w \<Rightarrow> ptr multiset \<Rightarrow> bool"
    and share release +
  fixes create :: "'w \<Rightarrow> (ptr \<times> 'w) outcome"
    and needs :: "ptr multiset"
    and crashes :: "crash set"
  assumes create_ok: "own w M \<Longrightarrow> needs \<subseteq># M \<Longrightarrow>
    sat crashes (\<lambda>(p, w'). own w' (add_mset p M)) (create w)"
begin

text \<open>Creating and dropping leaves the accounts as they were.\<close>

lemma create_then_release:
  assumes "own w M" "needs \<subseteq># M" "create w = Inr (p, w1)"
  shows "\<exists>w2. release p w1 = Inr w2 \<and> own w2 M"
  using create_ok [OF assms(1,2)] assms(3) release_ok by fastforce

text \<open>Any number of sockets can be created; each has an owner of its own.\<close>

fun createMany :: "nat \<Rightarrow> 'w \<Rightarrow> (ptr list \<times> 'w) outcome" where
  "createMany 0 w = Inr ([], w)"
| "createMany (Suc n) w =
     andThen (create w) (\<lambda>(p, w1). andThen (createMany n w1) (\<lambda>(ps, w2). Inr (p # ps, w2)))"

lemma createMany_ok:
  assumes "own w M" "needs \<subseteq># M"
  shows "sat crashes (\<lambda>(ps, w'). length ps = n \<and> own w' (mset ps + M)) (createMany n w)"
  using assms
proof (induction n arbitrary: w M)
  case 0
  then show ?case by simp
next
  case (Suc n)
  show ?case
    unfolding createMany.simps
  proof (rule sat_andThen [OF create_ok [OF Suc.prems]], clarify, goal_cases)
    case (1 p w1)
    have n: "needs \<subseteq># add_mset p M"
      using subset_mset.trans [OF Suc.prems(2)] by simp
    show ?case by (rule sat_andThen [OF Suc.IH [OF 1 n]]) auto
  qed
qed

end

lemma owned_null [simp]: "owned w (add_mset nullptr M) = owned w M"
proof -
  have "(if p \<noteq> nullptr \<and> p \<in># add_mset nullptr M then Some (count (add_mset nullptr M) p) else None) =
      (if p \<noteq> nullptr \<and> p \<in># M then Some (count M p) else None)" for p
    by auto
  then show ?thesis unfolding owned_def by auto
qed

lemma makeSocket_sat:
  assumes "owned w M" "fd \<noteq> -1"
  shows "sat E (\<lambda>(p, w'). owned w' (add_mset p M)) (makeSocket cls fd t l w)"
proof -
  obtain s where s: "newSocket cls fd t l = Inr s" using assms(2) by (simp add: newSocket_def FREE_SOCKET_def)
  obtain p w' where "makeShared s w = (p, w')" by (metis surj_pair)
  with s owned_make [OF assms(1) this] show ?thesis by (simp add: makeObject_def)
qed

lemma setnonblocking_frame [frame]: "setnonblocking S fd w = (b, w') \<Longrightarrow> sameProc w w'"
  by (auto simp: setnonblocking_def split: prod.splits if_splits dest!: frame intro: sameProc_trans)

lemma openTcpListener_frame [frame]: "openTcpListener S port q w = (r, w') \<Longrightarrow> sameProc w w'"
  by (auto simp: openTcpListener_def split: prod.splits if_splits dest!: frame intro: sameProc_trans)

lemma openTcpListener_fd: "openTcpListener S port q w = (Some fd, w') \<Longrightarrow> 0 \<le> fd"
  by (auto simp: openTcpListener_def split: prod.splits if_splits)

lemmas owned_units [simp] = call_frame_unit [THEN owned_sameProc]

lemmas owned_calls = call_frame [THEN owned_frame]
  setnonblocking_frame [THEN owned_frame] openTcpListener_frame [THEN owned_frame]

lemma tcpListenerCreate_sat:
  "owned w M \<Longrightarrow> sat E (\<lambda>(p, w'). owned w' (add_mset p M)) (tcpListenerCreate S port q w)"
  "owned w M \<Longrightarrow> sat E (\<lambda>(p, w'). owned w' (add_mset p M)) (tcpSslListenerCreate S port q ctx w)"
  by (auto simp: tcpListenerCreate_def tcpSslListenerCreate_def split: prod.splits option.splits
      intro!: makeSocket_sat dest: owned_calls openTcpListener_fd)

lemma unixCreate_sat:
  "owned w M \<Longrightarrow> sat E (\<lambda>(p, w'). owned w' (add_mset p M)) (unixCreate S path w)"
  by (auto simp: unixCreate_def split: prod.splits
      intro!: makeSocket_sat dest!: owned_calls)

lemma unixListenerCreate_sat:
  "owned w M \<Longrightarrow> sat E (\<lambda>(p, w'). owned w' (add_mset p M)) (unixListenerCreate S path w)"
  by (auto simp: unixListenerCreate_def split: prod.splits
      intro!: makeSocket_sat dest!: owned_calls)

text \<open>
  The ways to crash that depend on the environment: no SSL object, a SIGPIPE, a handshake that
  fails, a host entry longer than an IPv4 address.
\<close>

definition peerCrashes :: "'k sys \<Rightarrow> crash set" where
  "peerCrashes S = sslCrashes S \<union> pipeCrashes S"

definition connectCrashes :: "'k sys \<Rightarrow> crash set" where
  "connectCrashes S = peerCrashes S \<union>
     (if \<exists>ssl k. fst (SSL_connect S ssl k) \<le> 0 then {DoubleFree} else {}) \<union>
     (if \<exists>name k he. fst (sys_gethostbyname S name k) = Some he \<and> 4 < hLength he then {BufferOverflow} else {})"

lemma connectSsl_sat:
  assumes "owned w M" "fd \<noteq> -1"
  shows "sat (connectCrashes S) (\<lambda>(p, w'). owned w' (add_mset p M)) (connectSsl S ctx fd w)"
proof -
  obtain ssl w1 b w2 where n: "k_SSL_new S ctx w = (ssl, w1)" "k_BIO_new_socket S fd BIO_NOCLOSE w1 = (b, w2)"
    by (metis surj_pair)
  have o2: "owned w2 M" using assms(1) n by (auto dest!: owned_calls)
  have "sat (connectCrashes S) (\<lambda>w3. owned w3 M) (setBio S ssl b w2)"
    by (rule sat_setBio [OF n(1)]) (use o2 in \<open>auto simp: connectCrashes_def peerCrashes_def\<close>)
  then show ?thesis
    unfolding connectSsl_def n prod.case
  proof (rule sat_andThen, goal_cases)
    case (1 w3)
    obtain r w4 where r: "k_SSL_connect S ssl w3 = (r, w4)" by (metis surj_pair)
    then have o4: "owned w4 M" using 1 by (auto dest!: owned_calls)
    have "fst (SSL_connect S ssl (kern w3)) = r" using r by (auto simp: k_SSL_connect_def split: prod.splits)
    then have "r \<le> 0 \<Longrightarrow> DoubleFree \<in> connectCrashes S" unfolding connectCrashes_def by auto
    with o4 have "sat (connectCrashes S) (\<lambda>(p, w'). owned w' (add_mset p M))
      (if r \<le> 0 then andThen (freeTwice S ssl b (k_close S fd w4)) (\<lambda>w5. Inr (nullptr, w5))
       else makeObject (newSslClientSocket fd b ssl) w4)"
      by (auto simp: freeTwice_def Let_def guarded_def intro!: makeSocket_sat assms(2))
    then have "sat (connectCrashes S) (\<lambda>(p, w'). owned w' (add_mset p M)) (unlessKilled S w4
      (if r \<le> 0 then andThen (freeTwice S ssl b (k_close S fd w4)) (\<lambda>w5. Inr (nullptr, w5))
       else makeObject (newSslClientSocket fd b ssl) w4))"
      by (rule sat_unlessKilled) (auto simp: connectCrashes_def peerCrashes_def)
    then show ?case by (simp add: r)
  qed
qed

lemma tcpSslConnectCreate_sat:
  assumes "owned w M"
  shows "sat (connectCrashes S) (\<lambda>(p, w'). owned w' (add_mset p M)) (tcpSslConnectCreate S host port ctx w)"
proof -
  have "BufferOverflow \<in> connectCrashes S" if "k_gethostbyname S name w = (Some he, w1)" "\<not> hLength he \<le> 4" for name he w1
  proof -
    have "fst (sys_gethostbyname S name (kern w)) = Some he"
      using that(1) by (auto simp: k_gethostbyname_def split: prod.splits)
    with that(2) have "\<exists>name k he. fst (sys_gethostbyname S name k) = Some he \<and> 4 < hLength he" by force
    then show ?thesis by (simp add: connectCrashes_def)
  qed
  with assms show ?thesis
    by (auto simp: tcpSslConnectCreate_def guarded_def split: prod.splits option.splits
        intro!: connectSsl_sat dest!: owned_calls)
qed


section \<open>Every factory keeps it\<close>

fun factoryNeeds :: "socketFactory \<Rightarrow> ptr multiset" where
  "factoryNeeds (ReceivedTcpSocketFactory u) = {#u#}"
| "factoryNeeds _ = {#}"

fun factoryCrashes :: "'k sys \<Rightarrow> socketFactory \<Rightarrow> crash set" where
  "factoryCrashes S (ReceivedTcpSocketFactory u) = {NullDeref, OutOfBounds, Diverges}"
| "factoryCrashes S (TcpSslConnectSocketFactory host port ctx) = connectCrashes S"
| "factoryCrashes S _ = {}"

lemma createReceivedSocket_sat:
  assumes "owned w M" "u \<in># M"
  shows "sat {NullDeref, OutOfBounds, Diverges} (\<lambda>(p, w'). owned w' (add_mset p M))
    (createReceivedSocket S u w)"
proof (cases "u = nullptr")
  case True
  then show ?thesis by (simp add: createReceivedSocket_def deref_def)
next
  case False
  from createReceivedSocket_ok [OF assms False, of S] show ?thesis
    by (rule sat_mono) (auto simp: receivedOk_def split: if_splits)
qed

lemma createSocket_sat:
  assumes "owned w M" "factoryNeeds f \<subseteq># M"
  shows "sat (factoryCrashes S f) (\<lambda>(p, w'). owned w' (add_mset p M)) (createSocket S f w)"
proof (cases f)
  case (ReceivedTcpSocketFactory u)
  with assms createReceivedSocket_sat [OF assms(1), of u S] show ?thesis by simp
next
  case (TcpSslConnectSocketFactory host port ctx)
  with tcpSslConnectCreate_sat [OF assms(1)] show ?thesis by simp
qed (use assms in \<open>simp_all add: unixCreate_sat unixListenerCreate_sat tcpListenerCreate_sat\<close>)

interpretation sf: socket_factory owned sharePtr "releasePtr S" "createSocket S f"
    "factoryNeeds f" "factoryCrashes S f" for S :: "'k sys" and f
  by unfold_locales (rule createSocket_sat)

lemma acceptPlain_sat:
  "owned w M \<Longrightarrow> sat E (\<lambda>(p, w'). owned w' (add_mset p M)) (acceptPlain S s t w)"
  by (auto simp: acceptPlain_def split: prod.splits intro!: makeSocket_sat dest!: owned_calls)

lemma acceptSsl_sat:
  assumes "owned w M" "peerCrashes S \<subseteq> E"
  shows "sat E (\<lambda>(p, w'). owned w' (add_mset p M)) (acceptSsl S s ctx w)"
proof -
  obtain fd w1 b w2 ssl w3 where n: "k_accept S (descriptor s) w = (fd, w1)"
    "k_BIO_new_socket S fd BIO_NOCLOSE w1 = (b, w2)" "k_SSL_new S ctx w2 = (ssl, w3)" by (metis surj_pair)
  have o1: "owned w1 M" "owned w3 M" using assms(1) n by (auto dest!: owned_calls)
  have "sat E (\<lambda>w4. owned w4 M) (setBio S ssl b w3)"
    by (rule sat_setBio [OF n(3)]) (use o1 assms(2) in \<open>auto simp: peerCrashes_def\<close>)
  then have "0 \<le> fd \<Longrightarrow> sat E (\<lambda>(p, w'). owned w' (add_mset p M)) (andThen (setBio S ssl b w3) (\<lambda>w4.
      case k_SSL_accept S ssl w4 of (r, w5) \<Rightarrow> unlessKilled S w5
        (if r \<le> 0 then Inr (nullptr, w5) else makeSocket PlainSocket fd SSL False w5)))"
    by (rule sat_andThen)
      (use assms(2) in \<open>auto simp: peerCrashes_def split: prod.splits intro!: sat_unlessKilled makeSocket_sat dest!: owned_calls\<close>)
  with n o1 show ?thesis by (simp add: acceptSsl_def)
qed

lemma acceptConnection_sat:
  assumes "owned w M" "deref w p = Inr s"
    and "dynClass s \<in> {TcpListenerSocket} \<union> range UnixListenerSocket \<union> range TcpSslListenerSocket"
    and "peerCrashes S \<subseteq> E"
  shows "sat E (\<lambda>(q, w'). owned w' (add_mset q M)) (acceptConnection S p w)"
  using assms by (auto simp: acceptConnection_def acceptPlain_sat acceptSsl_sat)

section \<open>Descriptors opened and closed\<close>

text \<open>
  The descriptors a sequence of calls has opened in the process (a result other
  than \<open>-1\<close> is a new descriptor), and those it has closed.
\<close>

fun opens :: "event list \<Rightarrow> int multiset" where
  "opens [] = {#}"
| "opens (Net (EvSocket d fd) # es) = (if fd = -1 then opens es else add_mset fd (opens es))"
| "opens (Net (EvAccept l fd) # es) = (if fd = -1 then opens es else add_mset fd (opens es))"
| "opens (e # es) = opens es"

fun closes :: "event list \<Rightarrow> int multiset" where
  "closes [] = {#}"
| "closes (Io (EvClose fd) # es) = add_mset fd (closes es)"
| "closes (e # es) = closes es"

lemma makeSocket_Inr:
  "makeSocket cls fd t l w = Inr (p, w') \<Longrightarrow> 0 < nextPtr w \<Longrightarrow>
   p \<noteq> nullptr \<and> trace w' = trace w \<and>
   deref w' p = Inr \<lparr>dynClass = cls, protectDescriptor = False, descriptor = fd, events = 0, revents = 0,
     socketType = t, listenSocket = l, clientStatus = NO_STATUS\<rparr>"
  by (auto simp: makeObject_def outcome_simps makeShared_def deref_def)

text \<open>
  C30. Connecting a client balances its descriptors: whatever fails, if the factory returns, a descriptor
  that was opened is closed again, and on success the returned socket has the only one.
\<close>

theorem connect_balances_descriptors:
  assumes "0 < nextPtr w" "createSocket S (TcpSslConnectSocketFactory host port ctx) w = Inr (p, w')"
  shows "\<exists>es. trace w' = trace w @ es \<and>
    (if p = nullptr then opens es = closes es
     else \<exists>s. deref w' p = Inr s \<and> opens es = add_mset (descriptor s) (closes es))"
  using assms
  by (auto simp: tcpSslConnectCreate_def call_defs outcome_simps connectSsl_def freeTwice_def Let_def
      split: prod.splits option.splits if_splits dest!: makeSocket_Inr)

theorem connect_balances_descriptors_witness:
  "\<exists>p w'. createSocket replay (TcpSslConnectSocketFactory ''localhost'' 5555 9)
      (startWorld LISTENER [AHost (Some \<lparr>hLength = 4, hAddr = [CHR 0x7F, NUL, NUL, CHR 0x01]\<rparr>),
        ARet 6, ARet 0, AHandle 30, AHandle 0, ARet (-1)]) = Inr (p, w') \<and>
    p = nullptr \<and> opens (trace w') = {#6#} \<and> closes (trace w') = {#6#}"
proof -
  let ?w = "startWorld LISTENER [AHost (Some \<lparr>hLength = 4, hAddr = [CHR 0x7F, NUL, NUL, CHR 0x01]\<rparr>),
        ARet 6, ARet 0, AHandle 30, AHandle 0, ARet (-1)]"
  obtain w' where w': "createSocket replay (TcpSslConnectSocketFactory ''localhost'' 5555 9) ?w =
      Inr (nullptr, w')" "opens (trace w') = {#6#}"
    by (simp add: tcpSslConnectCreate_def connectSsl_def freeTwice_def call_defs replay_def)
  with connect_balances_descriptors [OF _ w'(1)] show ?thesis by auto
qed

text \<open>
  C33. The listener factories: on success the returned socket listens on the only descriptor
  that was opened. On failure none of the three closes anything, so unless \<^verbatim>\<open>socket\<close> itself
  failed, as the only call made, its descriptor is lost.
\<close>

theorem listener_descriptors:
  assumes "f \<in> {UnixListenerSocketFactory path, TcpListenerSocketFactory port q,
      TcpSslListenerSocketFactory port q ctx}"
    and "createSocket S f w = Inr (p, w')" "0 < nextPtr w"
  shows "\<exists>es. trace w' = trace w @ es \<and> closes es = {#} \<and>
    (if p = nullptr
     then \<exists>d fd. Net (EvSocket d fd) \<in> set es \<and> (fd < 0 \<and> length es = 1 \<or> opens es = {#fd#})
     else \<exists>s. deref w' p = Inr s \<and> listenSocket s \<and> opens es = {#descriptor s#})"
  using assms
  by (auto simp: unixListenerCreate_def tcpListenerCreate_def tcpSslListenerCreate_def
      openTcpListener_def call_defs
      split: prod.splits option.splits if_splits dest!: makeSocket_Inr)

theorem listener_descriptors_witness:
  "\<exists>w'. createSocket replay (TcpSslListenerSocketFactory 5555 32 9)
      (startWorld LISTENER [ARet 4, ARet 0, ARet (-1)]) = Inr (nullptr, w') \<and>
    closes (trace w') = {#} \<and> opens (trace w') = {#4#}"
proof -
  let ?w = "startWorld LISTENER [ARet 4, ARet 0, ARet (-1)]"
  obtain w' where w': "createSocket replay (TcpSslListenerSocketFactory 5555 32 9) ?w = Inr (nullptr, w')"
    "opens (trace w') = {#4#}"
    by (simp add: tcpSslListenerCreate_def openTcpListener_def call_defs replay_def)
  with listener_descriptors [OF _ w'(1), of _ 5555 32 9] show ?thesis by auto
qed

text \<open>
  C34. A TLS handshake that fails costs the listener a descriptor: \<^verbatim>\<open>acceptConnection\<close> returns no
  socket, and neither the accepted descriptor is closed nor the SSL object freed.
\<close>

theorem ssl_accept_failure_leaks:
  assumes "deref w p = Inr s" "dynClass s = TcpSslListenerSocket ctx"
    and "sys_accept S (descriptor s) (kern w) = (fd, k1)" "0 \<le> fd"
    and "BIO_new_socket S fd 0 k1 = (b, k2)" "SSL_new S ctx k2 = (ssl, k3)"
    and "SSL_accept S ssl (SSL_set_bio S ssl b k3) = (n, k4)" "n \<le> 0"
    and "ssl \<noteq> 0" "\<not> sys_sigpipe S k4"
  shows "\<exists>w'. acceptConnection S p w = Inr (nullptr, w') \<and>
    trace w' = trace w @ [Net (EvAccept (descriptor s) fd), Tls (EvBioNew fd 0 b),
      Tls (EvSslNew ctx ssl), Tls (EvSslSetBio ssl b), Tls (EvSslAccept ssl n)]"
  using assms by (simp add: acceptConnection_def acceptSsl_def call_defs BIO_NOCLOSE_def)

theorem ssl_accept_failure_leaks_witness:
  "\<exists>w'. acceptConnection replay 1
      (exampleWorld [(exampleSock 4 TCP)\<lparr>dynClass := TcpSslListenerSocket 9\<rparr>]
        [ARet 6, AHandle 20, AHandle 30, ARet (-1)]) = Inr (nullptr, w') \<and>
    opens (trace w') = {#6#} \<and> closes (trace w') = {#}"
proof -
  let ?s = "(exampleSock 4 TCP)\<lparr>dynClass := TcpSslListenerSocket 9\<rparr>"
  let ?w = "exampleWorld [?s] [ARet 6, AHandle 20, AHandle 30, ARet (-1)]"
  have d: "deref ?w 1 = Inr ?s" by (simp add: deref_def)
  from ssl_accept_failure_leaks [OF d, of 9 replay 6 "[AHandle 20, AHandle 30, ARet (-1)]" 20
      "[AHandle 30, ARet (-1)]" 30 "[ARet (-1)]" "-1" "[]"]
  show ?thesis by (auto simp: exampleSock_def replay_def)
qed

text \<open>
  A TLS client that cannot complete the handshake frees its BIO twice: the BIO belongs to
  the SSL object since \<^verbatim>\<open>SSL_set_bio\<close>, is freed on its own and then again with the SSL object.
\<close>

theorem connect_failure_frees_bio_twice:
  assumes "SSL_new S ctx (kern w) = (ssl, k1)" "BIO_new_socket S fd 0 k1 = (b, k2)" "ssl \<noteq> 0" "b \<noteq> 0"
    and "SSL_connect S ssl (SSL_set_bio S ssl b k2) = (n, k3)" "n \<le> 0" "\<not> sys_sigpipe S k3"
  shows "connectSsl S ctx fd w = Inl DoubleFree"
  using assms by (simp add: connectSsl_def freeTwice_def call_defs BIO_NOCLOSE_def)

theorem connect_failure_frees_bio_twice_witness:
  "connectSsl replay 9 6 (startWorld LISTENER [AHandle 30, AHandle 20, ARet 0]) = Inl DoubleFree"
  using connect_failure_frees_bio_twice [of replay 9 "startWorld LISTENER [AHandle 30, AHandle 20, ARet 0]"
      30 "[AHandle 20, ARet 0]" 6 20 "[ARet 0]" 0 "[]"]
  by (simp add: replay_def)

text \<open>
  \<^verbatim>\<open>setnonblocking\<close> adds \<^verbatim>\<open>O_NONBLOCK\<close> and nothing else: it reads the flags once and
  writes them back with that bit set and every other bit as it was, or stops after a failed
  read, and it succeeds when both calls do.
\<close>

theorem setnonblocking_sets_one_bit:
  "\<exists>opts r. case setnonblocking S fd w of (good, w') \<Rightarrow>
    if sint opts < 0 then \<not> good \<and> trace w' = trace w @ [Net (EvGetfl fd opts)]
    else good = (0 \<le> r) \<and>
      trace w' = trace w @ [Net (EvGetfl fd opts), Net (EvSetfl fd (opts OR 0x800) r)] \<and>
      bit (opts OR 0x800) 11 \<and> (opts OR 0x800) AND NOT 0x800 = opts AND NOT 0x800"
proof -
  obtain opts w1 where g: "k_getfl S fd w = (opts, w1)" by (metis surj_pair)
  obtain r w2 where f: "k_setfl S fd (opts OR O_NONBLOCK) w1 = (r, w2)" by (metis surj_pair)
  have "bit (opts OR 0x800) 11" by (simp add: bit_simps)
  moreover have "(opts OR 0x800) AND NOT 0x800 = opts AND NOT 0x800"
    by (simp add: bit.conj_disj_distrib2)
  ultimately show ?thesis
    using g f
    by (auto intro!: exI [of _ opts] exI [of _ r] simp: setnonblocking_def call_defs O_NONBLOCK_def
        split: prod.splits)
qed

text \<open>
  The length of a UNIX address never exceeds the structure: the path is cut to 107 bytes
  and holds no NUL, so \<^verbatim>\<open>sun_path\<close> stays terminated and the length stays under 110.
\<close>

theorem unixAddress_bounded:
  "\<exists>p. unixAddress path = SockaddrUn p (length p + 2) \<and> length p < 108 \<and> NUL \<notin> set p \<and>
    length p + 2 < 110 \<and> (if length path < 108 \<and> NUL \<notin> set path then p = path else True)"
proof -
  have "cstr path = path" if "NUL \<notin> set path"
    using that by (auto simp: cstr_def takeWhile_eq_all_conv)
  moreover have "NUL \<notin> set (take 107 (cstr path))" using cstr_no_NUL in_set_takeD by fast
  ultimately show ?thesis by (auto simp: unixAddress_def Let_def)
qed

end
