(* ===== verification/DispatcherMain.thy ===== *)
theory DispatcherMain
  imports DispatcherRun SocketFactories
begin

text \<open>
  \<^verbatim>\<open>main\<close> of \<^verbatim>\<open>mydisp.cpp\<close> as a whole: the argument, the connection to the listener, the loop
  and the return, with the exit code; and how a dispatcher ends when the listener says
  goodbye. Nothing in the model throws a \<^verbatim>\<open>std::exception\<close>, so the handler of the function
  (exit code 13) has no branch.
\<close>

section \<open>The whole program\<close>

definition dispatcherMain ::
    "'k sys \<Rightarrow> string list \<Rightarrow> 'k world \<Rightarrow> (int \<times> 'k world) outcome option" where
  "dispatcherMain S argv w =
     (let w0 = w\<lparr>appCfg := createConfig DISPATCHER\<rparr> in
      if length argv \<noteq> 2 then Some (Inr (0, w0))
      else
        (case createSocket S (createUnixSocketFactory (argv ! 1)) w0 of
           Inl e \<Rightarrow> Some (Inl e)
         | Inr (unixSocket, w1) \<Rightarrow>
             if unixSocket = nullptr then Some (Inr (1, w1))
             else
               (case dispatcherStart unixSocket w1 of
                  Inl e \<Rightarrow> Some (Inl e)
                | Inr d \<Rightarrow>
                    (case dispatcherLoop S unixSocket unixSocket d of
                       None \<Rightarrow> None
                     | Some r \<Rightarrow> Some (andThen r (\<lambda>d1. andThen (dispatcherExit S unixSocket d1) (\<lambda>w2.
                                        Inr (0, w2))))))))"

lemma dispatcherLoop_inv:
  assumes "dispatcherInv u d" "dispatcherLoop S u u d = Some r"
  shows "sat (dispatcherCrashes S) (dispatcherInv u) r"
  using dl.result_ok [of S u d r] assms unfolding dispatcherLoop_def by (auto elim: sat_mono)

text \<open>
  C16. The dispatcher program as a whole, started with no socket object alive: whatever its
  arguments and whatever the kernel and OpenSSL answer, if it comes to an end it either
  returns 0 or 1 with every socket object freed, or it ends in one of the ways of
  \<open>dispatcherCrashes\<close>, of which the null SSL object only where \<^verbatim>\<open>SSL_new\<close> can fail. It never uses
  a null or dangling pointer to a socket, not even when the connection to the listener fails.
\<close>

theorem dispatcher_main_safe:
  assumes "owned w {#}" "dispatcherMain S argv w = Some r"
  shows "sat (dispatcherCrashes S) (\<lambda>(code, w'). code \<in> {0, 1} \<and> (\<forall>p. heap w' p = None)) r"
proof -
  let ?v = "w\<lparr>appCfg := createConfig DISPATCHER\<rparr>"
  have own: "owned ?v {#}" using assms(1) by simp
  show ?thesis
  proof (cases "length argv = 2")
    case False
    with assms(2) owned_None [OF own] show ?thesis by (auto simp: dispatcherMain_def Let_def)
  next
    case True
    obtain u w1 where u: "createSocket S (UnixSocketFactory (argv ! 1)) ?v = Inr (u, w1)" "owned w1 {#u#}"
      using createSocket_sat [OF own, of "UnixSocketFactory (argv ! 1)" S] by (auto dest!: sat_emptyD)
    show ?thesis
    proof (cases "u = nullptr")
      case True
      then have "heap w1 p = None" for p using owned_None [OF u(2)] by auto
      with True u assms(2) \<open>length argv = 2\<close> show ?thesis by (auto simp: dispatcherMain_def Let_def)
    next
      case False
      then obtain d where d: "dispatcherStart u w1 = Inr d" "dispatcherInv u d"
        using dispatcherStart_inv [OF u(2)] by auto
      with False u \<open>length argv = 2\<close> assms(2) obtain r1 where r1: "dispatcherLoop S u u d = Some r1"
        "r = andThen r1 (\<lambda>d1. andThen (dispatcherExit S u d1) (\<lambda>w2. Inr (0, w2)))"
        by (auto simp: dispatcherMain_def Let_def split: option.splits)
      show ?thesis
        unfolding r1(2)
      proof (rule sat_andThen [OF dispatcherLoop_inv [OF d(2) r1(1)]], goal_cases)
        case (1 d1)
        then obtain w2 where "dispatcherExit S u d1 = Inr w2" "owned w2 {#}" using dispatcherExit_owned by blast
        then show ?case using owned_None by fastforce
      qed
    qed
  qed
qed

theorem dispatcher_main_safe_witness:
  "\<exists>w'. dispatcherMain replay [''mydisp'', ''dispatch.sock'']
      (startWorld DISPATCHER [ARet 3, ARet 0, AFlags 2, ARet 0]) = Some (Inr (0, w')) \<and> heap w' 1 = None"
proof -
  let ?w = "startWorld DISPATCHER [ARet 3, ARet 0, AFlags 2, ARet 0]"
  have own: "owned ?w {#}" by (simp add: owned_def ownersOf_def)
  let ?v = "?w\<lparr>appCfg := createConfig DISPATCHER\<rparr>"
  obtain w1 where w1: "createSocket replay (UnixSocketFactory ''dispatch.sock'') ?v = Inr (1, w1)"
    "kern w1 = []" "deref w1 1 = Inr (exampleSock 3 UNIX\<lparr>dynClass := UnixSocket\<rparr>)"
    by (simp add: unixCreate_def call_defs replay_def Let_def setnonblocking_def makeObject_def deref_def
        newSocket_def FREE_SOCKET_def NO_EVENTS_def makeShared_def startWorld_def logCall_def exampleSock_def)
  have o1: "owned w1 {#1#}"
    using createSocket_sat [of ?v "{#}" "UnixSocketFactory ''dispatch.sock''" replay] w1(1) own by simp
  obtain d where d: "dispatcherStart 1 w1 = Inr d" "dispatcherInv 1 d"
    using dispatcherStart_inv [OF o1] by auto
  moreover obtain c where "heap w1 1 = Some \<lparr>obj = exampleSock 3 UNIX\<lparr>dynClass := UnixSocket\<rparr>, useCount = c\<rparr>"
  proof (cases "heap w1 1")
    case (Some c)
    with w1(3) that show ?thesis by (cases c) (simp add: deref_def)
  qed (use w1(3) in \<open>simp add: deref_def\<close>)
  ultimately have ds: "\<not> dispatcherFailed d" "sockets (socketsList d) = [1]" "sockets (reSocketsList d) = []"
    "kern (world d) = []" "\<exists>c. heap (world d) 1 = Some \<lparr>obj = exampleSock 3 UNIX\<lparr>dynClass := UnixSocket\<rparr>, useCount = c\<rparr>"
    using w1(2) by (auto simp: dispatcherStart_def sharePtr_def putSocket_def newSocketsList_def
        MAX_SOCKETS_def outcome_simps)
  then obtain d1 where "dispatcherRound replay 1 1 d = Inr d1" "dispatcherFailed d1"
    by (auto simp: dispatcherRound_def pollAndProcess_def pollSockets_def clearSockets_def
        modifyObj_def deref_def exampleSock_def MAX_SOCKETS_TO_POLL_def call_defs replay_def
        EINTR_def sock_defs)
  with ds(1) have l: "dispatcherLoop replay 1 1 d = Some (Inr d1)"
    by (simp add: dispatcherLoop_def repeatUntil.simps)
  then obtain w2 where "dispatcherExit replay 1 d1 = Inr w2"
    using dispatcherLoop_inv [OF d(2) l] dispatcherExit_owned by fastforce
  with w1(1) d(1) l have w': "dispatcherMain replay [''mydisp'', ''dispatch.sock''] ?w = Some (Inr (0, w2))"
    by (simp add: dispatcherMain_def)
  from dispatcher_main_safe [OF own w'] w' show ?thesis by auto
qed

section \<open>The listener says goodbye\<close>

text \<open>Dropping pointers does not change the objects that stay.\<close>

lemma requestClientReads_unix:
  "requestClientReads ps w = Inr w' \<Longrightarrow> deref w u = Inr su \<Longrightarrow> socketType su = UNIX \<Longrightarrow> deref w' u = Inr su"
proof (induction ps arbitrary: w)
  case (Cons p ps)
  from Cons.prems(1) obtain s w1 where s: "deref w p = Inr s" "requestClientReads ps w1 = Inr w'"
    "(if socketType s \<noteq> UNIX then modifyObj pollForRead p w else Inr w) = Inr w1"
    by (auto simp: outcome_simps)
  have "deref w1 u = Inr su"
    using s(1,3) Cons.prems(2,3) modify_known [OF s(1), of pollForRead]
    by (cases "p = u") (auto split: if_splits)
  with Cons s(2) show ?case by blast
qed simp

text \<open>The bytes of a goodbye, peeked at.\<close>

lemma dispatcherProcess_exit:
  assumes "deref w u = Inr su" "\<not> isDropped su"
    and "sys_recv S (descriptor su) 200 MSG_PEEK (kern w) = (Data (''EXIT'' @ rest), k1)"
  shows "dispatcherProcess S u f l w =
    Inr (False, l, logCall (Io (EvRecv (descriptor su) 200 MSG_PEEK (Data (''EXIT'' @ rest)))) k1 w)"
  using assms by (simp add: dispatcherProcess_def k_recv_def Let_def memeq_def overlay_def)

text \<open>The environment in which the goodbye waits at the UNIX socket, whatever else happens.\<close>

definition goodbyeWaits :: "'k sys \<Rightarrow> int \<Rightarrow> bool" where
  "goodbyeWaits S fd \<longleftrightarrow>
     (\<forall>fds k. 0 < pollRet (fst (sys_poll S fds k)) \<and>
        (fds \<noteq> [] \<and> fst (hd fds) = fd \<longrightarrow> pollRevents (fst (sys_poll S fds k)) 0 = POLLIN)) \<and>
     (\<forall>k. \<exists>rest. fst (sys_recv S fd 200 MSG_PEEK k) = Data (''EXIT'' @ rest))"

lemma pollAndProcess_goodbye:
  assumes own: "owned (world d) (mset (sockets (socketsList d)) + M)" and l: "listOk MAX_SOCKETS (socketsList d)"
    and re: "sockets (reSocketsList d) = []" "0 < maxSize (reSocketsList d)"
    and head: "sockets (socketsList d) = u # ps" "distinct (u # ps)"
    and su: "deref (world d) u = Inr su" "socketType su = UNIX" and env: "goodbyeWaits S (descriptor su)"
  shows "\<exists>d'. pollAndProcess S u f d = Inr d' \<and> dispatcherFailed d' \<and> socketsList d' = socketsList d"
proof -
  let ?l = "socketsList d"
  have nn: "nullptr \<notin> set (sockets ?l)" "length (sockets ?l) \<le> MAX_SOCKETS_TO_POLL"
    using l by (auto simp: listOk_def MAX_SOCKETS_def MAX_SOCKETS_TO_POLL_def)
  have own': "owned (world d) (mset (sockets ?l) + mset (sockets (reSocketsList d)) + M)"
    using own re(1) by simp
  obtain e re2 w4 where p: "pollSockets S ?l (reSocketsList d) (world d) = Inr (e, re2, w4)"
    using pollSockets_owned [OF own' nn, where S = S] re by auto
  have e: "e = NO_ERROR" using pollSockets_ready [OF _ p] env by (simp add: goodbyeWaits_def)
  have "\<forall>p \<in> set (sockets ?l). \<exists>s. deref (world d) p = Inr s" using owned_deref [OF own] nn(1) by fastforce
  then obtain so where so: "\<forall>p \<in> set (sockets ?l). deref (world d) p = Inr (so p)" by metis
  then have u: "so u = su" using su(1) head by simp
  have di: "distinct (sockets ?l)" and small: "length (sockets ?l) \<le> 1024"
    and room: "length (sockets (reSocketsList d)) \<le> maxSize (reSocketsList d)"
    using head nn(2) re by (simp_all add: MAX_SOCKETS_TO_POLL_def)
  obtain r where r: "\<exists>k k1. sys_poll S (map (\<lambda>p. (descriptor (so p), events (so p))) (sockets ?l)) k = (r, k1)"
    and out: "sockets re2 = sockets (reSocketsList d) @
      take (maxSize (reSocketsList d) - length (sockets (reSocketsList d)))
      (map snd (filter (\<lambda>(i, p). pollRevents r i \<noteq> 0) (enumerate 0 (sockets ?l))))"
    and obj: "\<forall>i < length (sockets ?l). deref w4 (sockets ?l ! i) =
      Inr ((so (sockets ?l ! i))\<lparr>events := 0, revents := pollRevents r i\<rparr>)"
    using pollSockets_known [OF di so small room p [unfolded e]] by blast
  then obtain k k1 where rk: "sys_poll S (map (\<lambda>p. (descriptor (so p), events (so p))) (sockets ?l)) k = (r, k1)"
    by blast
  have r0: "pollRevents r 0 = POLLIN" 
  proof -
    let ?fds = "map (\<lambda>p. (descriptor (so p), events (so p))) (sockets ?l)"
    have "?fds \<noteq> [] \<and> fst (hd ?fds) = descriptor su" using head(1) u by simp
    then have "pollRevents (fst (sys_poll S ?fds k)) 0 = POLLIN" using env unfolding goodbyeWaits_def by blast
    with rk show ?thesis by simp
  qed
  then obtain qs where qs: "sockets re2 = u # qs"
    using out head re by (cases "maxSize (reSocketsList d)") (auto simp: POLLIN_def)
  let ?su = "su\<lparr>events := 0, revents := POLLIN\<rparr>"
  have d4: "deref w4 u = Inr ?su" using obj head u r0 by force
  have live: "\<not> isDropped ?su" by (simp add: isDropped_def poll_bits)
  have "\<exists>rest. fst (sys_recv S (descriptor su) 200 MSG_PEEK (kern w4)) = Data (''EXIT'' @ rest)"
    using env unfolding goodbyeWaits_def by blast
  then obtain rest k2 where "sys_recv S (descriptor ?su) 200 MSG_PEEK (kern w4) = (Data (''EXIT'' @ rest), k2)"
    by (cases "sys_recv S (descriptor su) 200 MSG_PEEK (kern w4)") auto
  from dispatcherProcess_exit [OF d4 live this] have "\<exists>w5. processReady S u f (u # qs) ?l w4 = Inr (True, ?l, w5)"
    using d4 su(2) by simp
  with p e qs show ?thesis by (auto simp: pollAndProcess_def)
qed

text \<open>
  C15. The listener's goodbye ends the dispatcher: when the word waits at the UNIX socket,
  first in the list, a single round returns with the flag set that ends the loop and with
  the list as it was, whatever the other sockets report and whatever the kernel does
  otherwise; the loop, unless it has ended before, returns exactly what that round left.
\<close>

theorem goodbye_ends_dispatcher:
  assumes "dispatcherInv u d" "sockets (socketsList d) = u # ps" "distinct (u # ps)"
    and "deref (world d) u = Inr su" "socketType su = UNIX" "goodbyeWaits S (descriptor su)"
  shows "\<exists>d'. dispatcherRound S u u d = Inr d' \<and> dispatcherFailed d' \<and> socketsList d' = socketsList d \<and>
    dispatcherLoop S u u d = Some (Inr (if dispatcherFailed d then d else d'))"
proof -
  let ?M = "mset (sockets (socketsList d)) + {#u, u#}"
  from assms(1) have own: "owned (world d) (mset (sockets (reSocketsList d)) + ?M)" and u: "u \<noteq> nullptr"
    and ok: "listOk MAX_SOCKETS (socketsList d)" "listOk MAX_SOCKETS (reSocketsList d)"
    by (auto simp: dispatcherInv_def ac_simps)
  let ?su = "pollForRead su"
  obtain w1 where w1: "modifyObj pollForRead u (world d) = Inr w1"
    "owned w1 (mset (sockets (reSocketsList d)) + ?M)" "deref w1 u = Inr ?su"
    using owned_modify [OF own, of u pollForRead] deref_modify [OF _ assms(4), of pollForRead] u by auto
  obtain re1 w2 where w2: "clearSockets S (reSocketsList d) w1 = Inr (re1, w2)" "owned w2 ?M"
    "re1 = (reSocketsList d)\<lparr>sockets := []\<rparr>"
    using clearSockets_sat [OF w1(2), of "{}" S] by (auto dest!: sat_emptyD)
  have d2: "deref w2 u = Inr ?su"
    using owned_deref [OF w2(2), of u] u clear_keeps_obj [OF w2(1)] w1(3) by force
  obtain w3 where w3: "requestClientReads (sockets (socketsList d)) w2 = Inr w3" "owned w3 ?M"
    using requestClientReads_sat [OF w2(2), of "sockets (socketsList d)" "{}"] ok(1)
    by (auto simp: listOk_def dest!: sat_emptyD)
  have d3: "deref w3 u = Inr ?su"
    using requestClientReads_unix [OF w3(1) d2] assms(5) by (simp add: sock_defs)
  obtain d' where "dispatcherRound S u u d = Inr d'" "dispatcherFailed d'" "socketsList d' = socketsList d"
    using pollAndProcess_goodbye [of "d\<lparr>reSocketsList := re1, world := w3\<rparr>" "{#u, u#}" u ps ?su S u]
      w1(1) w2 w3 d3 ok assms(2,3,5,6)
    by (auto simp: dispatcherRound_def sock_defs listOk_def MAX_SOCKETS_def)
  then show ?thesis by (auto simp: dispatcherLoop_def repeatUntil.simps)
qed

definition goodbyeSys :: "script sys" where
  "goodbyeSys = replay\<lparr>
     sys_poll := (\<lambda>fds k. (\<lparr>pollRet = 1, pollErrno = 0, pollRevents = (\<lambda>i. if i = 0 then POLLIN else 0)\<rparr>, k)),
     sys_recv := (\<lambda>fd n flags k. (Data ''EXIT'', k))\<rparr>"

theorem goodbye_ends_dispatcher_witness:
  "\<exists>d d'. dispatcherStart 1 (exampleWorld [exampleSock 3 UNIX] []) = Inr d \<and>
    dispatcherRound goodbyeSys 1 1 d = Inr d' \<and> dispatcherFailed d' \<and>
    dispatcherLoop goodbyeSys 1 1 d = Some (Inr d') \<and> sockets (socketsList d') = [1]"
proof -
  let ?w = "exampleWorld [exampleSock 3 UNIX] []"
  have own: "owned ?w {#1#}" by (auto simp: owned_def ownersOf_def)
  obtain d where d: "dispatcherStart 1 ?w = Inr d" "sockets (socketsList d) = [1]"
    "deref (world d) 1 = Inr (exampleSock 3 UNIX)" "\<not> dispatcherFailed d"
    by (auto simp: dispatcherStart_def sharePtr_def putSocket_def newSocketsList_def
        MAX_SOCKETS_def outcome_simps deref_def)
  have inv: "dispatcherInv 1 d" using dispatcherStart_inv [OF own] d(1) by auto
  have env: "goodbyeWaits goodbyeSys (descriptor (exampleSock 3 UNIX))"
    by (simp add: goodbyeWaits_def goodbyeSys_def)
  from goodbye_ends_dispatcher [OF inv d(2) _ d(3) _ env] d(1,2,4) show ?thesis
    by (auto simp: exampleSock_def)
qed

end
