(* ===== verification/DispatcherMessages.thy ===== *)
theory DispatcherMessages
  imports Dispatcher
begin

text \<open>
  The messages of the listener to the dispatcher: what becomes of a new client in
  \<open>dispatcherProcess\<close> of \<^verbatim>\<open>mydisp.cpp\<close>, and which messages are never taken.
\<close>

section \<open>A new client\<close>

text \<open>The last two statements of the branch: ask for a turn to write, and remember to greet.\<close>

lemma markNewClient:
  assumes "owned w M" "deref w c = Inr s" "c \<in># M" "c \<noteq> nullptr"
  shows "\<exists>w1 w2. modifyObj pollForWrite c w = Inr w1 \<and> modifyObj (setClientStatus HELLO) c w1 = Inr w2 \<and>
    owned w2 M \<and> trace w2 = trace w \<and> deref w2 c = Inr (setClientStatus HELLO (pollForWrite s))"
proof -
  obtain w1 where w1: "modifyObj pollForWrite c w = Inr w1" "trace w1 = trace w"
    "deref w1 c = Inr (pollForWrite s)"
    using modify_known [OF assms(2)] by fastforce
  have o1: "owned w1 M" using owned_modify [OF assms(1,3,4), of pollForWrite] w1(1) by auto
  obtain w2 where w2: "modifyObj (setClientStatus HELLO) c w1 = Inr w2" "trace w2 = trace w1"
    "deref w2 c = Inr (setClientStatus HELLO (pollForWrite s))"
    using modify_known [OF w1(3)] by fastforce
  have "owned w2 M" using owned_modify [OF o1 assms(3,4), of "setClientStatus HELLO"] w2(1) by auto
  with w1 w2 show ?thesis by auto
qed

lemma storeClient_known:
  assumes "owned w (add_mset c M)" "c \<noteq> nullptr" "deref w c = Inr s"
    and "length (sockets l) \<noteq> maxSize l"
  shows "\<exists>w'. storeClient S c l w = Inr (True, l\<lparr>sockets := sockets l @ [c]\<rparr>, w') \<and>
    trace w' = trace w \<and> owned w' (add_mset c M) \<and>
    deref w' c = Inr (s\<lparr>events := events s OR POLLOUT, clientStatus := HELLO\<rparr>)"
proof -
  obtain w1 where w1: "sharePtr c w = Inr w1" "trace w1 = trace w" "deref w1 c = Inr s"
    using share_known [OF assms(3)] assms(3) by auto
  have o1: "owned w1 (add_mset c (add_mset c M))" using owned_share [OF assms(1), of c] w1(1) by auto
  obtain w2 w3 where w3: "modifyObj pollForWrite c w1 = Inr w2" "modifyObj (setClientStatus HELLO) c w2 = Inr w3"
    "owned w3 (add_mset c (add_mset c M))" "trace w3 = trace w1"
    "deref w3 c = Inr (setClientStatus HELLO (pollForWrite s))"
    using markNewClient [OF o1 w1(3) _ assms(2)] by auto
  with release_shared [OF w3(3) _ assms(2), of S] w1 assms(4) show ?thesis
    by (auto simp: storeClient_def putSocket_def sock_defs)
qed

text \<open>The dispatcher's side: a two-byte message with a descriptor makes a client.\<close>

lemma dispatcherProcess_takes:
  assumes own: "owned v (mset (sockets l) + M)" and u: "deref v u = Inr su" "\<not> isDropped su"
    and "recvCmsg v = Some old" and room: "length (sockets l) \<noteq> maxSize l"
    and peek: "sys_recv S (descriptor su) 200 MSG_PEEK (kern v) = (Data [NUL, NUL], k1)"
    and msg: "sys_recvmsg S (descriptor su) 128 k1 = ((Data [NUL, NUL], Some fd), k2)" and fd: "0 < fd"
    and ssl: "\<And>ctx k. fst (SSL_new S ctx k) \<noteq> 0"
  shows "\<exists>c v' b ssl. dispatcherProcess S u u l v = Inr (True, l\<lparr>sockets := sockets l @ [c]\<rparr>, v') \<and>
    c \<notin># mset (sockets l) + M \<and> owned v' (add_mset c (mset (sockets l) + M)) \<and>
    deref v' c = Inr \<lparr>dynClass = SslSocket b ssl, protectDescriptor = False, descriptor = fd,
      events = POLLOUT, revents = 0, socketType = SSL, listenSocket = False, clientStatus = HELLO\<rparr> \<and>
    trace v' = trace v @ [Io (EvRecv (descriptor su) 200 MSG_PEEK (Data [NUL, NUL])),
      Io (EvRecvmsg (descriptor su) 128 (Data [NUL, NUL]) (Some fd)), Tls (EvBioNew fd 0 b),
      Tls (EvSslNew (sslGlobalCtx v) ssl), Tls (EvSslSetBio ssl b)]"
proof -
  let ?N = "mset (sockets l) + M"
  let ?v1 = "logCall (Io (EvRecv (descriptor su) 200 MSG_PEEK (Data [NUL, NUL]))) k1 v"
  let ?v2 = "(logCall (Io (EvRecvmsg (descriptor su) 128 (Data [NUL, NUL]) (Some fd))) k2 ?v1)
    \<lparr>recvCmsg := Some fd\<rparr>"
  let ?s = "\<lparr>dynClass = TcpSocket, protectDescriptor = False, descriptor = fd, events = 0, revents = 0,
    socketType = TCP, listenSocket = False, clientStatus = NO_STATUS\<rparr>"
  have d1: "deref ?v1 u = Inr su" using u(1) deref_cong [of ?v1 v] by simp
  obtain p v3 where mk: "makeShared ?s ?v2 = (p, v3)" by (metis surj_pair)
  have rcv: "createReceivedSocket S u ?v1 = Inr (p, v3)"
    using createReceivedSocket_pair [OF d1, of old S NUL "Some fd" k2] assms(4) msg fd mk
    by (simp add: Let_def)
  have o2: "owned ?v2 ?N" using owned_frame [OF sameProc_logCall] own owned_globals(1) by metis
  have o3: "owned v3 (add_mset p ?N)" "p \<noteq> nullptr" using owned_make [OF o2 mk] by simp_all
  have "p = nextPtr v" using mk by (simp add: makeShared_def)
  then have p: "p \<notin># ?N" using owned_nextPtr [OF own] by simp
  have d3: "deref v3 p = Inr ?s" using deref_make [OF mk o3(2), of p] by simp
  have t3: "trace v3 = trace ?v2" "sslGlobalCtx v3 = sslGlobalCtx v" using mk by (auto simp: makeShared_def)
  obtain c v4 where c: "makeSslSocket S p v3 = Inr (c, v4)" "owned v4 (add_mset c ?N)" "c \<noteq> nullptr"
    using makeSslSocket_owned [OF o3 d3, of S] fd ssl by (auto simp: sslCrashes_def dest!: sat_emptyD)
  obtain b ssl where s: "trace v4 = trace v3 @ [Tls (EvBioNew fd 0 b), Tls (EvSslNew (sslGlobalCtx v3) ssl),
      Tls (EvSslSetBio ssl b)]"
    "deref v4 c = Inr \<lparr>dynClass = SslSocket b ssl, protectDescriptor = False, descriptor = fd, events = 0,
      revents = 0, socketType = SSL, listenSocket = False, clientStatus = NO_STATUS\<rparr>" "c \<notin># ?N"
    using makeSslSocket_known [OF o3(1) p o3(2) d3 _ c(1)] by auto
  obtain v5 where v5: "storeClient S c l v4 = Inr (True, l\<lparr>sockets := sockets l @ [c]\<rparr>, v5)"
    "trace v5 = trace v4" "owned v5 (add_mset c ?N)"
    "deref v5 c = Inr \<lparr>dynClass = SslSocket b ssl, protectDescriptor = False, descriptor = fd,
      events = POLLOUT, revents = 0, socketType = SSL, listenSocket = False, clientStatus = HELLO\<rparr>"
    using storeClient_known [OF c(2,3) s(2) room, of S] by auto
  have "dispatcherProcess S u u l v = Inr (True, l\<lparr>sockets := sockets l @ [c]\<rparr>, v5)"
    using u peek rcv o3(2) c(1) v5(1)
    by (simp add: dispatcherProcess_def k_recv_def Let_def receiveClient_def)
  with v5 s t3 show ?thesis by auto
qed

text \<open>
  C23. A client that finds the list full is told so, in one write, and then goes away: its SSL
  object is freed and its descriptor closed, the list is as before, and the dispatcher goes
  on.
\<close>

theorem client_turned_away:
  assumes "owned w (add_mset c M)" "c \<notin># M" "c \<noteq> nullptr" "deref w c = Inr s"
    and "dynClass s = SslSocket b ssl" "\<not> protectDescriptor s"
    and "length (sockets l) = maxSize l"
    and "BIO_write S b (''FAILED BUSY TRY LATER!!!!'' @ [NL]) (kern w) = (n, k)"
  shows "\<exists>w'. storeClient S c l w = Inr (True, l, w') \<and> owned w' M \<and>
    trace w' = trace w @ [Tls (EvBioWrite b (''FAILED BUSY TRY LATER!!!!'' @ [NL]) n),
      Tls (EvSslFree ssl), Io (EvClose (descriptor s))]"
proof -
  let ?busy = "''FAILED BUSY TRY LATER!!!!'' @ [NL]"
  let ?w1 = "logCall (Tls (EvBioWrite b ?busy n)) k w"
  have wr: "utilsWrite S c ?busy w = Inr (n, ?w1)"
    using assms(4,5,8) by (simp add: utilsWrite_def k_BIO_write_def)
  have o1: "owned ?w1 (add_mset c M)" using assms(1) owned_sameProc [of w ?w1] by simp
  have d1: "deref ?w1 c = Inr s" using assms(4) deref_cong [of ?w1 w] by simp
  obtain w2 w3 where w3: "modifyObj pollForWrite c ?w1 = Inr w2" "modifyObj (setClientStatus HELLO) c w2 = Inr w3"
    "owned w3 (add_mset c M)" "trace w3 = trace ?w1"
    "deref w3 c = Inr (setClientStatus HELLO (pollForWrite s))"
    using markNewClient [OF o1 d1 _ assms(3)] by auto
  obtain w4 where w4: "releasePtr S c w3 = Inr w4" "owned w4 M"
    "trace w4 = trace w3 @ destroyEvents (setClientStatus HELLO (pollForWrite s))"
    using release_last [OF w3(3) assms(2,3) w3(5)] by blast
  have "storeClient S c l w = Inr (True, l, w4)"
    using assms(7) wr w3(1,2) w4(1) by (simp add: storeClient_def)
  with w4 w3(4) assms(5,6) show ?thesis by (simp add: destroyEvents_def sock_defs)
qed

theorem client_turned_away_witness:
  "\<exists>w'. storeClient replay 1 \<lparr>sockets = [], maxSize = 0\<rparr>
      (exampleWorld [(exampleSock 6 SSL)\<lparr>dynClass := SslSocket 20 30\<rparr>] [ARet 26]) =
    Inr (True, \<lparr>sockets = [], maxSize = 0\<rparr>, w') \<and>
    trace w' = [Tls (EvBioWrite 20 (''FAILED BUSY TRY LATER!!!!'' @ [NL]) 26),
      Tls (EvSslFree 30), Io (EvClose 6)]"
proof -
  let ?s = "(exampleSock 6 SSL)\<lparr>dynClass := SslSocket 20 30\<rparr>"
  let ?w = "exampleWorld [?s] [ARet 26]"
  have own: "owned ?w (add_mset 1 {#})" by (auto simp: owned_def ownersOf_def)
  have d: "deref ?w 1 = Inr ?s" by (simp add: deref_def)
  from client_turned_away [OF own _ _ d, of 20 30 "\<lparr>sockets = [], maxSize = 0\<rparr>" replay 26 "[]"]
  show ?thesis by (auto simp: exampleSock_def replay_def)
qed

section \<open>Messages nobody takes\<close>

text \<open>
  C35. A message on the UNIX socket is only looked at. When what is queued is not exactly two
  bytes long and the read buffer (the message, and behind a short one the stale bytes of the
  uninitialised array) starts with neither keyword, the message stays queued: the dispatcher
  makes no call but the peek and goes on, so the next round sees the same bytes. Two
  descriptor messages that have arrived together are four bytes and end here.
\<close>

theorem unknown_message_left_queued:
  assumes "deref w u = Inr s" "\<not> isDropped s"
    and "sys_recv S (descriptor s) 200 MSG_PEEK (kern w) = (Data bs, k1)"
    and "bs \<noteq> []" "length bs \<noteq> 2" "buffer = overlay bs (freshArray S ''message'' 200 w)"
    and "\<not> memeq buffer ''CONFIG''" "\<not> memeq buffer ''EXIT''"
  shows "dispatcherProcess S u f l w =
    Inr (True, l, logCall (Io (EvRecv (descriptor s) 200 MSG_PEEK (Data bs))) k1 w)"
  using assms by (auto simp: dispatcherProcess_def k_recv_def Let_def)

theorem unknown_message_left_queued_witness:
  "dispatcherProcess replay 1 1 (newSocketsList 10) (exampleWorld [exampleSock 3 UNIX] [AIo (Data ''EXI'')]) =
   Inr (True, newSocketsList 10, logCall (Io (EvRecv 3 200 MSG_PEEK (Data ''EXI''))) []
     (exampleWorld [exampleSock 3 UNIX] [AIo (Data ''EXI'')]))"
proof -
  let ?w = "exampleWorld [exampleSock 3 UNIX] [AIo (Data ''EXI'')]"
  let ?b = "overlay ''EXI'' (freshArray replay ''message'' 200 ?w)"
  have "\<not> memeq ?b ''CONFIG''" "\<not> memeq ?b ''EXIT''"
    by (simp_all add: memeq_def overlay_def freshArray_def drop_map take_map upt_rec replay_def)
  with unknown_message_left_queued [of ?w 1 "exampleSock 3 UNIX" replay "''EXI''" "[]" ?b 1 "newSocketsList 10"]
  show ?thesis by (simp add: deref_def exampleSock_def isDropped_def replay_def)
qed

end
