(* ===== verification/ObjectRelation.thy ===== *)
theory ObjectRelation
  imports SocketsPoller SocketIO SslContext
begin

text \<open>
  Relations between the states before and after an operation. The locale \<open>silent_relation\<close>
  asks for what the elementary operations respect (calls that close no descriptor and say
  nothing to anybody, the poll bits of a socket, sharing and dropping a pointer) and carries
  it through the lists and the poller; \<open>object_relation\<close> adds the writes and the other methods
  of a socket. The dispatcher (\<open>DispatcherSteps\<close>) and the listener (\<open>ListenerSteps\<close>) extend them.
\<close>

section \<open>Calls that leave the objects and the descriptors alone\<close>

fun closeOf :: "event \<Rightarrow> int list" where
  "closeOf (Io (EvClose fd)) = [fd]"
| "closeOf _ = []"

definition closesOf :: "event list \<Rightarrow> int list" where
  "closesOf es = concat (map closeOf es)"

lemma closesOf_simps [simp]:
  "closesOf [] = []" "closesOf (e # es) = closeOf e @ closesOf es" "closesOf (es @ fs) = closesOf es @ closesOf fs"
  by (simp_all add: closesOf_def)

text \<open>The static control buffers stay, once allocated.\<close>

definition keepsBuffers :: "'k world \<Rightarrow> 'k world \<Rightarrow> bool" where
  "keepsBuffers w w' \<longleftrightarrow> (sendCmsg w \<longrightarrow> sendCmsg w') \<and> (recvCmsg w \<noteq> None \<longrightarrow> recvCmsg w' \<noteq> None)"

lemma keepsBuffers_refl [simp, intro]: "keepsBuffers w w" by (simp add: keepsBuffers_def)

lemma keepsBuffers_trans [trans]: "keepsBuffers w w1 \<Longrightarrow> keepsBuffers w1 w2 \<Longrightarrow> keepsBuffers w w2"
  by (auto simp: keepsBuffers_def)

lemma sameProc_buffers: "sameProc w w' \<Longrightarrow> keepsBuffers w w'"
  by (simp add: keepsBuffers_def sameProcD)

definition quiet :: "'k world \<Rightarrow> 'k world \<Rightarrow> bool" where
  "quiet w w' \<longleftrightarrow> heap w' = heap w \<and> nextPtr w' = nextPtr w \<and> keepsBuffers w w' \<and>
     (\<exists>es. trace w' = trace w @ es \<and> closesOf es = [])"

lemma quiet_refl [simp, intro]: "quiet w w" by (simp add: quiet_def)

lemma quiet_trans [trans]: "quiet w w1 \<Longrightarrow> quiet w1 w2 \<Longrightarrow> quiet w w2"
  by (auto simp: quiet_def intro: keepsBuffers_trans)


lemma quiet_calls:
  "k_recv S fd n flags w = (r, w') \<Longrightarrow> quiet w w'"
  "k_poll S fds w = (p, w') \<Longrightarrow> quiet w w'"
  "k_malloc S w = (got, w') \<Longrightarrow> quiet w w'"
  "k_recvmsg S fd n w = (m, w') \<Longrightarrow> quiet w w'"
  "k_write S fd bs w = (i, w') \<Longrightarrow> quiet w w'"
  "k_BIO_read S h n w = (r, w') \<Longrightarrow> quiet w w'"
  "k_BIO_write S h bs w = (i, w') \<Longrightarrow> quiet w w'"
  "k_sendmsg S fd bs c w = (i, w') \<Longrightarrow> quiet w w'"
  "k_fork S w = (i, w') \<Longrightarrow> quiet w w'"
  "k_waitpid S w = (ps, w') \<Longrightarrow> quiet w w'"
  "k_accept S fd w = (i, w') \<Longrightarrow> quiet w w'"
  "k_socket S d w = (i, w') \<Longrightarrow> quiet w w'"
  "k_setsockopt S fd w = (i, w') \<Longrightarrow> quiet w w'"
  "k_bind S fd a w = (i, w') \<Longrightarrow> quiet w w'"
  "k_listen S fd q w = (i, w') \<Longrightarrow> quiet w w'"
  "k_connect S fd a w = (i, w') \<Longrightarrow> quiet w w'"
  "k_getfl S fd w = (fl, w') \<Longrightarrow> quiet w w'"
  "k_setfl S fd fl w = (i, w') \<Longrightarrow> quiet w w'"
  "k_BIO_new_socket S fd flag w = (h, w') \<Longrightarrow> quiet w w'"
  "k_SSL_new S ctx w = (h, w') \<Longrightarrow> quiet w w'"
  "k_SSL_accept S h w = (i, w') \<Longrightarrow> quiet w w'"
  by (auto simp: call_defs quiet_def keepsBuffers_def split: prod.splits)

lemma quiet_unit_calls [simp]: "quiet w (k_SSL_set_bio S ssl b w)" "quiet w (k_unlink S path w)"
  by (simp_all add: call_defs quiet_def keepsBuffers_def)

lemma quiet_read: "utilsRead S p n flags w = Inr (r, w') \<Longrightarrow> quiet w w'"
  by (auto simp: utilsRead_def outcome_simps split: option.splits dest: quiet_calls)

lemma quiet_write: "utilsWrite S p m w = Inr (r, w') \<Longrightarrow> quiet w w'"
  by (auto simp: utilsWrite_def outcome_simps split: option.splits dest: quiet_calls)

lemma quiet_createContext: "createContext S ca crt key pw w = (r, w') \<Longrightarrow> quiet w w'"
  by (auto simp: createContext_def ctxFailure_def call_defs quiet_def keepsBuffers_def Let_def split: prod.splits if_splits)

text \<open>The steps of a descriptor's move from a plain object to a TLS one.\<close>

lemma makeSslSocketE:
  assumes "makeSslSocket S p w = Inr (c, w')"
  obtains x b ssl w1 w2 w3 where "deref w p = Inr x"
    "newSslOn S (descriptor x) BIO_NOCLOSE w = Inr (b, ssl, w1)"
    "modifyObj doProtectDescriptor p w1 = Inr w2"
    "makeShared \<lparr>dynClass = SslSocket b ssl, protectDescriptor = False, descriptor = descriptor x, events = 0,
      revents = 0, socketType = SSL, listenSocket = False, clientStatus = NO_STATUS\<rparr> w2 = (c, w3)"
    "releasePtr S p w3 = Inr w'"
proof -
  from assms obtain x b ssl w1 w2 where x: "deref w p = Inr x"
    "newSslOn S (descriptor x) BIO_NOCLOSE w = Inr (b, ssl, w1)" "modifyObj doProtectDescriptor p w1 = Inr w2"
    "(case makeShared \<lparr>dynClass = SslSocket b ssl, protectDescriptor = False, descriptor = descriptor x, events = 0,
      revents = 0, socketType = SSL, listenSocket = False, clientStatus = NO_STATUS\<rparr> w2 of (q, w3) \<Rightarrow>
      andThen (releasePtr S p w3) (\<lambda>w4. Inr (q, w4))) = Inr (c, w')"
    by (auto simp: makeSslSocket_def outcome_simps)
  then obtain w3 where "makeShared \<lparr>dynClass = SslSocket b ssl, protectDescriptor = False,
      descriptor = descriptor x, events = 0, revents = 0, socketType = SSL, listenSocket = False,
      clientStatus = NO_STATUS\<rparr> w2 = (c, w3)" "releasePtr S p w3 = Inr w'"
    by (auto simp: outcome_simps split: prod.splits)
  with x(1-3) that show thesis by blast
qed

lemma quiet_newSslOn: "newSslOn S fd flag w = Inr (b, ssl, w') \<Longrightarrow> quiet w w'"
  by (auto simp: newSslOn_def outcome_simps call_defs quiet_def keepsBuffers_def split: prod.splits)

section \<open>Calls that say nothing\<close>

fun writeOf :: "handle \<Rightarrow> event \<Rightarrow> string list" where
  "writeOf b (Tls (EvBioWrite h m n)) = (if h = b then [m] else [])"
| "writeOf b _ = []"

text \<open>The messages written to one BIO, in order.\<close>

definition writesTo :: "handle \<Rightarrow> event list \<Rightarrow> string list" where
  "writesTo b es = concat (map (writeOf b) es)"

lemma writesTo_simps [simp]:
  "writesTo b [] = []" "writesTo b (e # es) = writeOf b e @ writesTo b es"
  "writesTo b (es @ fs) = writesTo b es @ writesTo b fs"
  by (simp_all add: writesTo_def)

text \<open>Events that say nothing to anybody: neither to a TLS connection nor to a UNIX socket.\<close>

fun mute :: "event \<Rightarrow> bool" where
  "mute (Tls (EvBioWrite h m n)) = False"
| "mute (Io (EvWrite fd bs n)) = False"
| "mute (Io (EvSendmsg fd bs control n)) = False"
| "mute _ = True"

lemma mute_writesTo: "\<forall>e \<in> set es. mute e \<Longrightarrow> writesTo b es = []"
proof (induction es)
  case (Cons e es)
  have "mute e \<Longrightarrow> writeOf b e = []" by (induction e rule: mute.induct) simp_all
  with Cons show ?case by simp
qed simp

definition silent :: "'k world \<Rightarrow> 'k world \<Rightarrow> bool" where
  "silent w w' \<longleftrightarrow> quiet w w' \<and> appCfg w' = appCfg w \<and>
     (\<exists>es. trace w' = trace w @ es \<and> (\<forall>e \<in> set es. mute e))"

lemma silent_quiet: "silent w w' \<Longrightarrow> quiet w w'" by (simp add: silent_def)

lemma silent_refl [simp, intro]: "silent w w" by (simp add: silent_def)

lemma silent_trans [trans]:
  assumes "silent w w1" "silent w1 w2"
  shows "silent w w2"
proof -
  obtain es fs where "trace w1 = trace w @ es" "\<forall>e \<in> set es. mute e"
    "trace w2 = trace w1 @ fs" "\<forall>e \<in> set fs. mute e"
    using assms unfolding silent_def by blast
  then have "trace w2 = trace w @ es @ fs" "\<forall>e \<in> set (es @ fs). mute e" by auto
  with assms show ?thesis unfolding silent_def using quiet_trans by metis
qed

lemmas silent_intro = silent_def quiet_def keepsBuffers_def

lemma silent_calls:
  "k_recv S fd n flags w = (r, w') \<Longrightarrow> silent w w'"
  "k_poll S fds w = (p, w') \<Longrightarrow> silent w w'"
  "k_recvmsg S fd n w = (m, w') \<Longrightarrow> silent w w'"
  "k_BIO_read S h n w = (r, w') \<Longrightarrow> silent w w'"
  by (auto simp: call_defs silent_intro split: prod.splits)

lemma silent_read: "utilsRead S p n flags w = Inr (r, w') \<Longrightarrow> silent w w'"
  by (auto simp: utilsRead_def outcome_simps split: option.splits dest: silent_calls)

lemma silent_createContext: "createContext S ca crt key pw w = (r, w') \<Longrightarrow> silent w w'"
  by (auto simp: createContext_def ctxFailure_def call_defs silent_intro Let_def split: prod.splits if_splits)

section \<open>What the elementary operations do to an object\<close>

text \<open>
  The methods the handlers use on a socket they hold leave its identity alone and advance
  the status of its session, if they change it.
\<close>

definition speaks :: "ClientStatus \<Rightarrow> ClientStatus \<Rightarrow> bool" where
  "speaks st st' \<longleftrightarrow> st' = st \<or> st' = BYE \<or> st = HELLO \<and> st' = ECHO"

lemma speaks_simps [simp, intro]: "speaks st st" "speaks st BYE" "speaks HELLO ECHO"
  by (simp_all add: speaks_def)

lemma speaks_trans: "speaks st st1 \<Longrightarrow> speaks st1 st2 \<Longrightarrow> speaks st st2"
  by (auto simp: speaks_def)

definition advances :: "sock \<Rightarrow> sock \<Rightarrow> bool" where
  "advances s s' \<longleftrightarrow>
     dynClass s' = dynClass s \<and> descriptor s' = descriptor s \<and> socketType s' = socketType s \<and>
     listenSocket s' = listenSocket s \<and> protectDescriptor s' = protectDescriptor s \<and>
     speaks (clientStatus s) (clientStatus s')"

lemma advances_methods [simp, intro]:
  "advances s (pollForRead s)" "advances s (pollForWrite s)" "advances s (setEvents e s)"
  "advances s (setRevents e s)" "advances s (setClientStatus BYE s)"
  by (simp_all add: advances_def sock_defs)

text \<open>Most of them only set poll bits.\<close>

definition marks :: "sock \<Rightarrow> sock \<Rightarrow> bool" where
  "marks s s' \<longleftrightarrow> (\<exists>e r. s' = s\<lparr>events := e, revents := r\<rparr>)"

lemma marks_methods [simp, intro]:
  "marks s (pollForRead s)" "marks s (pollForWrite s)" "marks s (setEvents e s)" "marks s (setRevents r s)"
proof -
  have "marks s (s\<lparr>events := e\<rparr>)" "marks s (s\<lparr>revents := e\<rparr>)" for e
    unfolding marks_def
    by (rule exI [of _ e], rule exI [of _ "revents s"], simp) (rule exI [of _ "events s"], rule exI [of _ e], simp)
  then show "marks s (pollForRead s)" "marks s (pollForWrite s)" "marks s (setEvents e s)" "marks s (setRevents r s)"
    by (simp_all add: sock_defs)
qed

lemma marks_advances: "marks s s' \<Longrightarrow> advances s s'"
  by (auto simp: marks_def advances_def)

lemma modifyObj_deref: "modifyObj f p w = Inr w' \<Longrightarrow> \<exists>s. deref w p = Inr s"
  by (auto simp: modifyObj_def deref_def split: if_splits option.splits)

section \<open>From the elementary operations to the lists and the poller\<close>

locale silent_relation =
  fixes R :: "'k world \<Rightarrow> 'k world \<Rightarrow> bool" and S :: "'k sys"
  assumes trans: "R w w1 \<Longrightarrow> R w1 w2 \<Longrightarrow> R w w2"
    and silent: "silent w w' \<Longrightarrow> R w w'"
    and mark: "modifyObj f p w = Inr w' \<Longrightarrow> deref w p = Inr s \<Longrightarrow> marks s (f s) \<Longrightarrow> R w w'"
    and share: "sharePtr p w = Inr w' \<Longrightarrow> R w w'"
    and release: "releasePtr S p w = Inr w' \<Longrightarrow> R w w'"
begin

lemma refl [simp, intro]: "R w w" by (rule silent) simp

lemma any_mark: "modifyObj f p w = Inr w' \<Longrightarrow> (\<And>s. marks s (f s)) \<Longrightarrow> R w w'"
  using mark modifyObj_deref by blast

lemma methods:
  "modifyObj pollForRead p w = Inr w' \<Longrightarrow> R w w'" "modifyObj pollForWrite p w = Inr w' \<Longrightarrow> R w w'"
  "modifyObj (setEvents e) p w = Inr w' \<Longrightarrow> R w w'" "modifyObj (setRevents e) p w = Inr w' \<Longrightarrow> R w w'"
  by (erule any_mark, simp)+

lemma put: "putSocket p l w = Inr (b, l', w') \<Longrightarrow> R w w'"
  by (auto simp: putSocket_def outcome_simps split: if_splits dest: share)

lemma del: "delSocket S p l w = Inr (b, l', w') \<Longrightarrow> R w w'"
  by (auto simp: delSocket_def outcome_simps split: if_splits option.splits dest: release)

lemma clear: "clearSockets S l w = Inr (l', w') \<Longrightarrow> R w w'"
proof -
  have "releaseAll (releasePtr S) ps w = Inr w' \<Longrightarrow> R w w'" for ps w w'
    by (induction ps arbitrary: w) (auto simp: outcome_simps dest!: release intro: trans)
  then show "clearSockets S l w = Inr (l', w') \<Longrightarrow> R w w'" by (auto simp: clearSockets_def outcome_simps)
qed

lemma collect: "collectPollInfo ps w = Inr (fds, w') \<Longrightarrow> R w w'"
  by (induction ps arbitrary: w fds) (auto simp: outcome_simps dest!: methods intro: trans)

lemma distribute: "distribute revs i ps out w = Inr (out', w') \<Longrightarrow> R w w'"
proof (induction ps arbitrary: i out w)
  case (Cons p ps)
  then show ?case by (auto simp: outcome_simps split: if_splits dest!: methods put intro: trans)
qed simp

lemma poll:
  assumes "pollSockets S inp out w = Inr (e, out', w')"
  shows "R w w'"
proof -
  from assms obtain fds w1 where c: "collectPollInfo (sockets inp) w = Inr (fds, w1)"
    by (auto simp: pollSockets_def outcome_simps)
  obtain r w2 where p: "k_poll S fds w1 = (r, w2)" by (metis surj_pair)
  have "R w w2" by (rule trans [OF collect [OF c] silent [OF silent_calls(2) [OF p]]])
  moreover have "w' = w2 \<or> (\<exists>out'. SocketsPoller.distribute (pollRevents r) 0 (sockets inp) out w2 = Inr (out', w'))"
    using assms c p by (auto simp: pollSockets_def outcome_simps split: if_splits)
  ultimately show ?thesis using distribute trans by blast
qed

lemma reads: "utilsRead S p n flags w = Inr (r, w') \<Longrightarrow> R w w'" by (rule silent [OF silent_read])

end

section \<open>The writes and the status of a session\<close>

locale object_relation = silent_relation R S
  for R :: "'k world \<Rightarrow> 'k world \<Rightarrow> bool" and S :: "'k sys" +
  assumes quiet: "quiet w w' \<Longrightarrow> R w w'"
    and modify: "modifyObj f p w = Inr w' \<Longrightarrow> deref w p = Inr s \<Longrightarrow> advances s (f s) \<Longrightarrow> R w w'"
begin

lemma farewell: "modifyObj (setClientStatus BYE) p w = Inr w' \<Longrightarrow> R w w'"
  using modify modifyObj_deref advances_methods(5) by blast

lemma writes: "utilsWrite S p m w = Inr (r, w') \<Longrightarrow> R w w'" by (rule quiet [OF quiet_write])

end

interpretation buffers: object_relation keepsBuffers S for S :: "'k sys"
proof
  show "keepsBuffers w w'" if "releasePtr S p w = Inr w'" for p and w w' :: "'k world"
    using that by (auto simp: releasePtr_def keepsBuffers_def sameProcD [OF destroySocket_frame] split: if_splits option.splits)
qed (auto simp: silent_def quiet_def modifyObj_def sharePtr_def keepsBuffers_def split: if_splits option.splits)

end
