(* ===== verification/DispatcherSteps.thy ===== *)
theory DispatcherSteps
  imports Dispatcher ObjectRelation
begin

text \<open>
  From the elementary operations to a run of the dispatcher. \<open>handler_relation\<close> extends
  \<open>silent_relation\<close> by the taking over of a client and the two halves of a client's turn, and
  reaches every operation of \<^verbatim>\<open>mydisp.cpp\<close>; an \<open>object_relation\<close> that respects the taking over
  is one (\<open>process_relation\<close>).
\<close>

section \<open>To a run of the dispatcher\<close>

locale handler_relation = silent_relation R S
  for R :: "'k world \<Rightarrow> 'k world \<Rightarrow> bool" and S :: "'k sys" +
  assumes client: "receiveClient S u l w = Inr (b, l', w') \<Longrightarrow> R w w'"
    and clientRead: "clientRead S p w = Inr (b, w') \<Longrightarrow> R w w'"
    and clientWrite: "clientWrite S p w = Inr (b, w') \<Longrightarrow> R w w'"
    and config: "R w (w\<lparr>appCfg := c\<rparr>)"
begin

lemma processClient: "processClient S p w = Inr (b, w') \<Longrightarrow> R w w'"
  by (auto simp: processClient_def outcome_simps split: if_splits dest!: clientRead clientWrite intro: trans)

lemma processConfig:
  assumes "processConfig S buf n w = Inr (b, w')"
  shows "R w w'"
proof -
  from assms obtain c where c: "(case createContext S (caFile c) (certFile c) (keyFile c) ''1q2w3e4r''
      (w\<lparr>appCfg := c\<rparr>) of (r, w1) \<Rightarrow> Inr (r = 0, w1)) = (Inr (b, w') :: (bool \<times> 'k world) outcome)"
    by (auto simp: processConfig_def andThen_eq_Inr)
  obtain r w1 where cc: "createContext S (caFile c) (certFile c) (keyFile c) ''1q2w3e4r''
      (w\<lparr>appCfg := c\<rparr>) = (r, w1)" by (metis surj_pair)
  have "R w w1" by (rule trans [OF config silent [OF silent_createContext [OF cc]]])
  with c cc show ?thesis by simp
qed

lemma receiveConfig: "receiveConfig S fd w = Inr (b, w') \<Longrightarrow> R w w'"
  by (auto simp: receiveConfig_def Let_def split: prod.splits if_splits
      dest!: processConfig silent_calls(1) [THEN silent] intro: trans)

lemma dispatcherProcess: "dispatcherProcess S u f l w = Inr (b, l', w') \<Longrightarrow> R w w'"
  by (auto simp: dispatcherProcess_def Let_def outcome_simps split: prod.splits if_splits
      dest!: receiveConfig client silent_calls(1) [THEN silent] intro: trans)

lemma requests: "requestClientReads ps w = Inr w' \<Longrightarrow> R w w'"
  by (induction ps arbitrary: w) (auto simp: outcome_simps split: if_splits dest!: methods intro: trans)

lemma processReady: "processReady S u f ps l w = Inr (b, l', w') \<Longrightarrow> R w w'"
proof (induction ps arbitrary: l w)
  case (Cons p ps)
  then show ?case
    by (auto simp: outcome_simps split: if_splits dest!: dispatcherProcess processClient del intro: trans)
qed simp

lemma pollAndProcess:
  assumes "pollAndProcess S u f d = Inr d'"
  shows "R (world d) (world d')"
proof -
  from assms obtain e re w where p: "pollSockets S (socketsList d) (reSocketsList d) (world d) = Inr (e, re, w)"
    by (auto simp: pollAndProcess_def outcome_simps)
  have "world d' = w \<or> (\<exists>failed l1. Dispatcher.processReady S u f (sockets re) (socketsList d) w = Inr (failed, l1, world d'))"
    using assms p by (auto simp: pollAndProcess_def outcome_simps split: if_splits)
  with poll [OF p] show ?thesis using processReady trans by blast
qed

lemma round:
  assumes "dispatcherRound S u f d = Inr d'"
  shows "R (world d) (world d')"
proof -
  from assms obtain w1 re1 w2 w3 where s: "modifyObj pollForRead u (world d) = Inr w1"
    "clearSockets S (reSocketsList d) w1 = Inr (re1, w2)"
    "requestClientReads (sockets (socketsList d)) w2 = Inr w3"
    and p: "Dispatcher.pollAndProcess S u f (d\<lparr>reSocketsList := re1, world := w3\<rparr>) = Inr d'"
    by (auto simp: dispatcherRound_def outcome_simps)
  have "R (world d) w3"
    by (rule trans [OF trans [OF methods(1) [OF s(1)] clear [OF s(2)]] requests [OF s(3)]])
  then show ?thesis using pollAndProcess [OF p] trans by simp
qed

lemma run: "dispatcherReaches S u f d d1 \<Longrightarrow> R (world d) (world d1)"
  by (induction rule: loopReaches.induct) (auto dest: round intro: trans)

end

section \<open>Relations that respect every write\<close>

locale process_relation = object_relation R S
  for R :: "'k world \<Rightarrow> 'k world \<Rightarrow> bool" and S :: "'k sys" +
  assumes taking: "receiveClient S u l w = Inr (b, l', w') \<Longrightarrow> R w w'"
begin

lemma reading: "clientRead S p w = Inr (b, w') \<Longrightarrow> R w w'"
  by (auto simp: clientRead_def Let_def outcome_simps split: if_splits dest!: reads writes methods farewell intro: trans)

lemma writing:
  assumes "clientWrite S p w = Inr (b, w')"
  shows "R w w'"
proof -
  from assms obtain s where s: "deref w p = Inr s" by (auto simp: clientWrite_def outcome_simps)
  show ?thesis
  proof (cases "clientStatus s = HELLO")
    case True
    with assms s obtain n w1 where w1: "utilsWrite S p (''HELLO!!!!'' @ [NL]) w = Inr (n, w1)"
      "modifyObj (setClientStatus ECHO) p w1 = Inr w'" by (auto simp: clientWrite_def outcome_simps)
    have "deref w1 p = Inr s" using s deref_cong quiet_write [OF w1(1)] by (metis quiet_def)
    then have "R w1 w'"
      by (rule modify [OF w1(2)]) (simp add: advances_def setClientStatus_def True)
    with writes [OF w1(1)] show ?thesis by (rule trans)
  next
    case False
    with assms s show ?thesis by (auto simp: clientWrite_def outcome_simps split: if_splits dest: writes)
  qed
qed

end

sublocale process_relation \<subseteq> handler_relation R S
proof
  show "R w (w\<lparr>appCfg := c\<rparr>)" for w c by (rule quiet) (simp add: quiet_def keepsBuffers_def)
qed (fact taking reading writing)+

end
