(* ===== verification/ObjectHistory.thy ===== *)
theory ObjectHistory
  imports ObjectRelation
begin

text \<open>
  What can happen to a socket object over time: its class, descriptor and kind are fixed when
  it is made, the session status of a client stays, moves from greeting to echo or ends in
  goodbye, and a freed address is not used again.
\<close>

section \<open>The history of an object\<close>

definition evolves :: "sock \<Rightarrow> sock \<Rightarrow> bool" where
  "evolves s s' \<longleftrightarrow>
     dynClass s' = dynClass s \<and> descriptor s' = descriptor s \<and> socketType s' = socketType s \<and>
     listenSocket s' = listenSocket s \<and> (protectDescriptor s \<longrightarrow> protectDescriptor s') \<and>
     speaks (clientStatus s) (clientStatus s')"

lemma evolves_refl [simp, intro]: "evolves s s" by (simp add: evolves_def)

lemma evolves_trans: "evolves s t \<Longrightarrow> evolves t u \<Longrightarrow> evolves s u" by (auto simp: evolves_def intro: speaks_trans)

definition history :: "'k world \<Rightarrow> 'k world \<Rightarrow> bool" where
  "history w w' \<longleftrightarrow> nextPtr w \<le> nextPtr w' \<and>
     (\<forall>p c'. p < nextPtr w \<longrightarrow> heap w' p = Some c' \<longrightarrow> (\<exists>c. heap w p = Some c \<and> evolves (obj c) (obj c')))"

lemma history_refl [simp, intro]: "history w w" by (auto simp: history_def)

lemma history_trans [trans]:
  assumes "history w w1" "history w1 w2"
  shows "history w w2"
  unfolding history_def
proof (intro conjI allI impI)
  show "nextPtr w \<le> nextPtr w2" using assms by (simp add: history_def)
  fix p c' assume p: "p < nextPtr w" "heap w2 p = Some c'"
  then have "p < nextPtr w1" using assms(1) by (simp add: history_def)
  with p assms(2) obtain c1 where c1: "heap w1 p = Some c1" "evolves (obj c1) (obj c')"
    unfolding history_def by blast
  with p(1) assms(1) obtain c where "heap w p = Some c" "evolves (obj c) (obj c1)"
    unfolding history_def by blast
  with c1(2) show "\<exists>c. heap w p = Some c \<and> evolves (obj c) (obj c')" using evolves_trans by blast
qed

lemma history_same: "heap w' = heap w \<Longrightarrow> nextPtr w' = nextPtr w \<Longrightarrow> history w w'"
  by (auto simp: history_def)

lemma history_quiet: "quiet w w' \<Longrightarrow> history w w'"
  by (rule history_same) (simp_all add: quiet_def)

lemma history_modify:
  "modifyObj f p w = Inr w' \<Longrightarrow> deref w p = Inr s \<Longrightarrow> evolves s (f s) \<Longrightarrow> history w w'"
  by (auto simp: modifyObj_def history_def deref_def split: if_splits option.splits)

text \<open>Nothing that happens to a new object is part of the history of the old ones.\<close>

lemma history_fresh:
  "history v w \<Longrightarrow> nextPtr v \<le> p \<Longrightarrow> modifyObj f p w = Inr w' \<Longrightarrow> history v w'"
  by (auto simp: modifyObj_def history_def split: if_splits option.splits)

lemma history_share : "sharePtr p w = Inr w' \<Longrightarrow> history w w'"
  by (auto simp: sharePtr_def history_def split: if_splits option.splits)

lemma history_release : "releasePtr S p w = Inr w' \<Longrightarrow> history w w'"
  by (auto simp: releasePtr_def history_def sameProcD [OF destroySocket_frame] split: if_splits option.splits)

lemma history_make: "makeShared s w = (p, w') \<Longrightarrow> history w w' \<and> p = nextPtr w"
  by (auto simp: makeShared_def history_def)

interpretation hist: object_relation history S for S :: "'k sys"
proof
  show "history w w'" if "modifyObj f p w = Inr w'" "deref w p = Inr s" "advances s (f s)" for f p s and w w' :: "'k world"
    using that by (auto intro: history_modify simp: advances_def evolves_def)
  then show "history w w'" if "modifyObj f p w = Inr w'" "deref w p = Inr s" "marks s (f s)" for f p s and w w' :: "'k world"
    using that marks_advances by blast
qed (blast intro: history_trans history_quiet silent_quiet history_share history_release)+

end
