(* ===== verification/ClientSession.thy ===== *)
theory ClientSession
  imports Dispatcher
begin

text \<open>
  What a client of the dispatcher sees: \<open>processClient\<close> of \<^verbatim>\<open>mydisp.cpp\<close> against an abstract
  session machine (\<open>hears\<close>, \<open>answers\<close>, \<open>afterAnswer\<close>).
\<close>

section \<open>The session of a client\<close>

text \<open>
  What a client sees, as an abstract machine: a message that starts with \<^verbatim>\<open>EXIT\<close> ends the
  session, and every turn is answered according to the status.
\<close>

definition hears :: "string \<Rightarrow> ClientStatus \<Rightarrow> ClientStatus" where
  "hears bs st = (if take 4 bs = ''EXIT'' then BYE else st)"

fun answers :: "ClientStatus \<Rightarrow> string" where
  "answers HELLO = ''HELLO!!!!'' @ [NL]"
| "answers ECHO = ''ECHOO!!!!'' @ [NL]"
| "answers BYE = ''BYE...'' @ [NL]"
| "answers NO_STATUS = []"

fun afterAnswer :: "ClientStatus \<Rightarrow> ClientStatus" where
  "afterAnswer HELLO = ECHO"
| "afterAnswer st = st"

lemma clientWrite_answers:
  assumes "deref w p = Inr s" "castSslSocket (dynClass s) = Some b" "clientStatus s \<noteq> NO_STATUS"
    and "BIO_write S b (answers (clientStatus s)) (kern w) = (n, k)"
  shows "\<exists>w'. clientWrite S p w = Inr (clientStatus s \<noteq> BYE \<and> n \<noteq> -1, w') \<and>
    trace w' = trace w @ [Tls (EvBioWrite b (answers (clientStatus s)) n)] \<and>
    deref w' p = Inr (s\<lparr>clientStatus := afterAnswer (clientStatus s)\<rparr>)"
proof -
  let ?w = "logCall (Tls (EvBioWrite b (answers (clientStatus s)) n)) k w"
  have wr: "utilsWrite S p (answers (clientStatus s)) w = Inr (n, ?w)"
    using assms by (simp add: utilsWrite_def k_BIO_write_def)
  have d: "deref ?w p = Inr s" using assms(1) deref_cong [of ?w w] by simp
  show ?thesis
  proof (cases "clientStatus s")
    case HELLO
    obtain w' where "modifyObj (setClientStatus ECHO) p ?w = Inr w'" "trace w' = trace ?w"
      "deref w' p = Inr (s\<lparr>clientStatus := ECHO\<rparr>)"
      using modify_known [OF d, of "setClientStatus ECHO"] by (auto simp: sock_defs)
    with HELLO assms(1) wr show ?thesis by (simp add: clientWrite_def)
  next
    case ECHO
    with assms(1) wr d show ?thesis by (auto simp: clientWrite_def)
  next
    case BYE
    with assms(1) wr d show ?thesis by (auto simp: clientWrite_def)
  qed (use assms(3) in simp)
qed

lemma processClient_answers:
  assumes "deref w p = Inr s" "castSslSocket (dynClass s) = Some b" "clientStatus s \<noteq> NO_STATUS"
    and "\<not> isDropped s" "isReadAvailable s"
    and "BIO_read S b 100 (kern w) = (Data bs, k1)" "4 \<le> length bs"
    and "st = hears bs (clientStatus s)" "BIO_write S b (answers st) k1 = (n, k2)"
  shows "\<exists>w'. processClient S p w = Inr (st \<noteq> BYE \<and> n \<noteq> -1, w') \<and>
    trace w' = trace w @ [Tls (EvBioRead b 100 (Data bs)), Tls (EvBioWrite b (answers st) n)] \<and>
    deref w' p = Inr (s\<lparr>clientStatus := afterAnswer st, revents := POLLOUT\<rparr>)"
proof -
  let ?w1 = "logCall (Tls (EvBioRead b 100 (Data bs))) k1 w"
  define s2 where "s2 = s\<lparr>clientStatus := st, revents := POLLOUT\<rparr>"
  have rd: "utilsRead S p 100 0 w = Inr (Data bs, ?w1)"
    using assms by (simp add: utilsRead_def k_BIO_read_def)
  have m: "memeq (overlay bs buf) ''EXIT'' = (take 4 bs = ''EXIT'')" for buf
    using assms(7) by (simp add: memeq_def numeral_eq_Suc)
  have d1: "deref ?w1 p = Inr s" using assms(1) deref_cong [of ?w1 w] by simp
  obtain w2 where w2: "(if take 4 bs = ''EXIT'' then modifyObj (setClientStatus BYE) p ?w1 else Inr ?w1)
      = Inr w2" "trace w2 = trace ?w1" "kern w2 = kern ?w1" "deref w2 p = Inr (s\<lparr>clientStatus := st\<rparr>)"
    using modify_known [OF d1, of "setClientStatus BYE"] d1 assms(8)
    by (cases "take 4 bs = ''EXIT''") (auto simp: sock_defs hears_def)
  obtain w3 where w3: "modifyObj (setRevents POLLOUT) p w2 = Inr w3" "trace w3 = trace ?w1"
    "kern w3 = k1" "deref w3 p = Inr s2"
    using modify_known [OF w2(4), of "setRevents POLLOUT"] w2(2,3) by (auto simp: sock_defs s2_def)
  have "clientRead S p w = Inr (True, w3)"
    using rd m w2(1) w3(1) assms(7) by (auto simp: clientRead_def Let_def)
  then have pc: "processClient S p w = clientWrite S p w3"
    using assms(1,4,5) w3(4)
    by (simp add: processClient_def s2_def isWriteAvailable_def POLLOUT_def)
  have "st \<noteq> NO_STATUS" using assms(3,8) by (simp add: hears_def)
  then obtain w' where "clientWrite S p w3 = Inr (st \<noteq> BYE \<and> n \<noteq> -1, w')"
    "trace w' = trace w3 @ [Tls (EvBioWrite b (answers st) n)]"
    "deref w' p = Inr (s2\<lparr>clientStatus := afterAnswer st\<rparr>)"
    using clientWrite_answers [of w3 p s2 b S n k2] assms(2,9) w3(3,4) by (auto simp: s2_def)
  then show ?thesis using pc w3(2) by (simp add: s2_def)
qed

text \<open>
  A client's message: when the socket of a TLS client is ready for reading and the read
  delivers at least four bytes, \<^verbatim>\<open>processClient\<close> makes exactly two calls, the read and one
  write with the answer of the status the message leads to, leaves that status (and after a
  greeting the echo status) behind, and keeps the client unless it said goodbye or the write
  failed.
\<close>

theorem client_message_answered:
  assumes "deref w p = Inr s" "castSslSocket (dynClass s) = Some b" "clientStatus s \<noteq> NO_STATUS"
    and "\<not> isDropped s" "isReadAvailable s"
    and "BIO_read S b 100 (kern w) = (Data bs, k1)" "4 \<le> length bs"
    and "st = hears bs (clientStatus s)" "BIO_write S b (answers st) k1 = (n, k2)"
  shows "\<exists>w'. processClient S p w = Inr (st \<noteq> BYE \<and> n \<noteq> -1, w') \<and>
    trace w' = trace w @ [Tls (EvBioRead b 100 (Data bs)), Tls (EvBioWrite b (answers st) n)] \<and>
    deref w' p = Inr (s\<lparr>clientStatus := afterAnswer st, revents := POLLOUT\<rparr>)"
  by (rule processClient_answers [OF assms])

definition exampleClient :: "ClientStatus \<Rightarrow> short \<Rightarrow> sock" where
  "exampleClient st r = \<lparr>dynClass = SslSocket 20 30, protectDescriptor = False, descriptor = 6,
     events = 0, revents = r, socketType = SSL, listenSocket = False, clientStatus = st\<rparr>"

theorem client_message_answered_witness:
  "\<exists>w'. processClient replay 1 (exampleWorld [exampleClient ECHO POLLIN] [AIo (Data ''EXIT''), ARet 7])
      = Inr (False, w') \<and>
    trace w' = [Tls (EvBioRead 20 100 (Data ''EXIT'')), Tls (EvBioWrite 20 (''BYE...'' @ [NL]) 7)]"
proof -
  let ?w = "exampleWorld [exampleClient ECHO POLLIN] [AIo (Data ''EXIT''), ARet 7]"
  have "deref ?w 1 = Inr (exampleClient ECHO POLLIN)" by (simp add: deref_def)
  from client_message_answered [OF this, of 20 replay "''EXIT''" "[ARet 7]" BYE 7 "[]"] show ?thesis
    by (auto simp: exampleClient_def isDropped_def isReadAvailable_def poll_bits replay_def hears_def)
qed

text \<open>
  The greeting: a client that has just been accepted and whose socket is ready for
  writing, but not for reading, gets the greeting in one write and is in the echo status
  after it.
\<close>

theorem client_greeted:
  assumes "deref w p = Inr s" "castSslSocket (dynClass s) = Some b" "clientStatus s = HELLO"
    and "\<not> isDropped s" "\<not> isReadAvailable s" "isWriteAvailable s"
    and "BIO_write S b (''HELLO!!!!'' @ [NL]) (kern w) = (n, k)"
  shows "\<exists>w'. processClient S p w = Inr (n \<noteq> -1, w') \<and>
    trace w' = trace w @ [Tls (EvBioWrite b (''HELLO!!!!'' @ [NL]) n)] \<and>
    deref w' p = Inr (s\<lparr>clientStatus := ECHO\<rparr>)"
  using clientWrite_answers [OF assms(1,2), of S n k] assms by (simp add: processClient_def)

theorem client_greeted_witness:
  "\<exists>w'. processClient replay 1 (exampleWorld [exampleClient HELLO POLLOUT] [ARet 10]) = Inr (True, w') \<and>
    deref w' 1 = Inr (exampleClient ECHO POLLOUT)"
proof -
  let ?w = "exampleWorld [exampleClient HELLO POLLOUT] [ARet 10]"
  have "deref ?w 1 = Inr (exampleClient HELLO POLLOUT)" by (simp add: deref_def)
  from client_greeted [OF this, of 20 replay 10 "[]"] show ?thesis
    by (auto simp: exampleClient_def isDropped_def isReadAvailable_def isWriteAvailable_def
        poll_bits replay_def)
qed

text \<open>
  C36. A message of fewer than four bytes is compared with \<^verbatim>\<open>EXIT\<close> together with whatever the
  uninitialised read buffer held behind it: if that completes the word, a client that sent
  only its beginning is dropped.
\<close>

theorem client_short_message_reads_stack:
  assumes "deref w p = Inr s" "castSslSocket (dynClass s) = Some b"
    and "\<not> isDropped s" "isReadAvailable s"
    and "BIO_read S b 100 (kern w) = (Data bs, k1)" "bs \<noteq> []" "length bs < 4"
    and "bs @ map (sys_stack S ''buffer'' (kern w)) [length bs..<4] = ''EXIT''"
  shows "\<exists>w'. processClient S p w = Inr (False, w')"
proof -
  let ?w1 = "logCall (Tls (EvBioRead b 100 (Data bs))) k1 w"
  have rd: "utilsRead S p 100 0 w = Inr (Data bs, ?w1)"
    using assms by (simp add: utilsRead_def k_BIO_read_def)
  have "take 4 (overlay bs (freshArray S ''buffer'' 100 w)) =
      bs @ map (sys_stack S ''buffer'' (kern w)) [length bs..<4]"
    using assms(7) by (simp add: overlay_def freshArray_def drop_map take_map)
  then have m: "memeq (overlay bs (freshArray S ''buffer'' 100 w)) ''EXIT''"
    using assms(8) by (simp add: memeq_def numeral_eq_Suc)
  have d1: "deref ?w1 p = Inr s" using assms(1) deref_cong [of ?w1 w] by simp
  obtain w2 where w2: "modifyObj (setClientStatus BYE) p ?w1 = Inr w2"
    "deref w2 p = Inr (s\<lparr>clientStatus := BYE\<rparr>)"
    using modify_known [OF d1, of "setClientStatus BYE"] by (auto simp: sock_defs)
  obtain w3 where w3: "modifyObj (setRevents POLLOUT) p w2 = Inr w3"
    "deref w3 p = Inr (s\<lparr>clientStatus := BYE, revents := POLLOUT\<rparr>)"
    using modify_known [OF w2(2), of "setRevents POLLOUT"] by (auto simp: sock_defs)
  have "clientRead S p w = Inr (True, w3)"
    using rd m w2(1) w3(1) assms(6) by (simp add: clientRead_def Let_def)
  then have "processClient S p w = clientWrite S p w3"
    using assms(1,3,4) w3(2) by (simp add: processClient_def isWriteAvailable_def POLLOUT_def)
  moreover obtain n k2 where "BIO_write S b (answers BYE) (kern w3) = (n, k2)" by (metis surj_pair)
  ultimately show ?thesis
    using clientWrite_answers [OF w3(2), of b S n k2] assms(2) by auto
qed

theorem client_short_message_reads_stack_witness:
  "\<exists>w'. processClient (replay\<lparr>sys_stack := \<lambda>name k i. ''EXIT'' ! i\<rparr>) 1
      (exampleWorld [exampleClient ECHO POLLIN] [AIo (Data ''EX''), ARet 7]) = Inr (False, w')"
proof -
  let ?w = "exampleWorld [exampleClient ECHO POLLIN] [AIo (Data ''EX''), ARet 7]"
  have "deref ?w 1 = Inr (exampleClient ECHO POLLIN)" by (simp add: deref_def)
  from client_short_message_reads_stack [OF this, of 20
      "replay\<lparr>sys_stack := \<lambda>name k i. ''EXIT'' ! i\<rparr>" "''EX''" "[ARet 7]"] show ?thesis
    by (simp add: exampleClient_def isDropped_def isReadAvailable_def poll_bits replay_def upt_rec)
qed

end
