(* ===== verification/SocketHistory.thy ===== *)
theory SocketHistory
  imports DispatcherSteps ObjectHistory ClientSession
begin

text \<open>
  The history of the sockets over the operations of the dispatcher (\<^verbatim>\<open>mydisp.cpp\<close> and the classes
  under it): the taking over of a client respects it, and with that a whole run.
\<close>

section \<open>New clients\<close>

lemma history_alloc: "allocRecvCmsg S w = (room, w') \<Longrightarrow> history w w'"
  by (auto simp: allocRecvCmsg_def split: option.splits prod.splits if_splits
      dest!: frame intro!: history_same simp: sameProcD)

lemma history_recvLoop:
  assumes "recvLoop S fd buf w = Some (Inr (p, w'))"
  shows "history w w'"
proof -
  have room: "history w v1" if "history w v" "allocRecvCmsg S v = (room, v1)" for v v1 room
    by (rule history_trans [OF that(1) history_alloc [OF that(2)]])
  have got: "history w v2" "history w (v2\<lparr>recvCmsg := c\<rparr>)"
    if "history w v1" "k_recvmsg S fd MAXLINE v1 = (m, v2)" for v1 v2 m c
  proof -
    show "history w v2" by (rule history_trans [OF that(1) history_quiet [OF quiet_calls(4) [OF that(2)]]])
    then show "history w (v2\<lparr>recvCmsg := c\<rparr>)" by (rule history_trans) (simp add: history_same)
  qed
  have "\<forall>q v. (Inr (p, w') :: (ptr \<times> 'a world) outcome) = Inr (q, v) \<longrightarrow> history w v"
  proof (rule recvLoop_rule [OF assms, of "history w"], goal_cases)
    case (3 v old v1 io control v2 v3)
    then show ?case using got [OF room [OF 3(1,2)] 3(3)] by simp
  next
    case (4 v old v1 io control v2 v3 buf status newfd s)
    then have "history w v3" using got [OF room [OF 4(1,2)] 4(3)] by simp
    then show ?case using history_make history_trans by (metis sum.inject(2))
  qed (use room in auto)
  then show ?thesis by blast
qed

lemma history_received : "createReceivedSocket S u w = Inr (p, w') \<Longrightarrow> history w w'"
  by (auto simp: createReceivedSocket_def outcome_simps split: option.splits dest: history_recvLoop)

lemma history_makeSsl:
  assumes "makeSslSocket S p w = Inr (c, w')"
  shows "history w w' \<and> nextPtr w \<le> c"
proof -
  from assms obtain x b ssl w1 w2 w3 where x: "deref w p = Inr x"
    and w1: "newSslOn S (descriptor x) BIO_NOCLOSE w = Inr (b, ssl, w1)"
    and w2: "modifyObj doProtectDescriptor p w1 = Inr w2"
    and w3: "makeShared \<lparr>dynClass = SslSocket b ssl, protectDescriptor = False, descriptor = descriptor x, events = 0,
      revents = 0, socketType = SSL, listenSocket = False, clientStatus = NO_STATUS\<rparr> w2 = (c, w3)"
      "releasePtr S p w3 = Inr w'"
    by (rule makeSslSocketE)
  have "\<exists>y. deref w1 p = Inr y" using modifyObj_deref [OF w2] .
  then have "history w1 w2" using history_modify [OF w2] by (auto simp: evolves_def doProtectDescriptor_def)
  then have h: "history w w2" by (rule history_trans [OF history_quiet [OF quiet_newSslOn [OF w1]]])
  have "history w2 w'" "c = nextPtr w2"
    using history_make [OF w3(1)] history_release [OF w3(2)] history_trans by blast+
  moreover have "nextPtr w \<le> nextPtr w2" using h by (simp add: history_def)
  ultimately show ?thesis using history_trans [OF h] by simp
qed

lemma history_storeClient:
  assumes v: "history v w" "nextPtr v \<le> c" and run: "storeClient S c l w = Inr (b, l', w')"
  shows "history v w'"
proof -
  from run obtain stored l1 w1 w3 w4 w5 where
    s: "putSocket c l w = Inr (stored, l1, w1)"
      "(if stored then Inr w1 else andThen (utilsWrite S c (''FAILED BUSY TRY LATER!!!!'' @ [NL]) w1)
         (\<lambda>(n, w2). Inr w2)) = Inr w3"
      "modifyObj pollForWrite c w3 = Inr w4" "modifyObj (setClientStatus HELLO) c w4 = Inr w5"
      "releasePtr S c w5 = Inr w'"
    unfolding storeClient_def by (simp only: andThen_eq_Inr split_paired_Ex prod.case) auto
  have "history v w1" by (rule history_trans [OF v(1) hist.put [OF s(1)]])
  moreover have "history w1 w3" using s(2) by (auto simp: outcome_simps split: if_splits dest: hist.writes)
  ultimately have "history v w4" using history_trans hist.methods(2) [OF s(3)] by blast
  then have "history v w5" by (rule history_fresh [OF _ v(2) s(4)])
  then show ?thesis by (rule history_trans [OF _ history_release [OF s(5)]])
qed

lemma history_receiveClient : "receiveClient S f l w = Inr (b, l', w') \<Longrightarrow> history w w'"
proof -
  assume "receiveClient S f l w = Inr (b, l', w')"
  then obtain p w1 where p: "createReceivedSocket S f w = Inr (p, w1)"
    "p = nullptr \<and> w' = w1 \<or> (\<exists>c w2. makeSslSocket S p w1 = Inr (c, w2) \<and> storeClient S c l w2 = Inr (b, l', w'))"
    by (auto simp: receiveClient_def outcome_simps split: if_splits)
  have h1: "history w w1" by (rule history_received [OF p(1)])
  from p(2) show "history w w'"
  proof
    assume "\<exists>c w2. makeSslSocket S p w1 = Inr (c, w2) \<and> storeClient S c l w2 = Inr (b, l', w')"
    then obtain c w2 where c: "makeSslSocket S p w1 = Inr (c, w2)" "storeClient S c l w2 = Inr (b, l', w')" by blast
    have "history w1 w2" "nextPtr w1 \<le> c" using history_makeSsl [OF c(1)] by simp_all
    then have "history w1 w'" by (rule history_storeClient [OF _ _ c(2)])
    with h1 show ?thesis by (rule history_trans)
  qed (use h1 in simp)
qed

interpretation hist: process_relation history S for S :: "'k sys"
  by unfold_locales (rule history_receiveClient)

text \<open>
  C13. Sockets keep their type. In any run of the dispatcher, from any state and in any
  environment, a socket that is there before and after has the class, descriptor and kind it
  was made with, is no more and no less a listening socket, stays protected once it is, and
  the status of a client stays, moves from greeting to echo or ends in goodbye; and an address
  is never used for a second socket.
\<close>

theorem sockets_keep_type:
  assumes "dispatcherReaches S u f d d1" "p < nextPtr (world d)" "deref (world d1) p = Inr s1"
  shows "\<exists>s. deref (world d) p = Inr s \<and> dynClass s1 = dynClass s \<and> descriptor s1 = descriptor s \<and>
    socketType s1 = socketType s \<and> listenSocket s1 = listenSocket s \<and>
    (protectDescriptor s \<longrightarrow> protectDescriptor s1) \<and>
    (clientStatus s1 = clientStatus s \<or> clientStatus s1 = BYE \<or> clientStatus s = HELLO \<and> clientStatus s1 = ECHO)"
proof -
  have "history (world d) (world d1)" by (rule hist.run [OF assms(1)])
  with assms(2,3) show ?thesis
    by (fastforce simp: history_def deref_def evolves_def speaks_def split: if_splits option.splits)
qed

theorem sockets_keep_type_witness:
  "\<exists>d1 s1. dispatcherReaches replay 1 1
      \<lparr>dispatcherFailed = False, socketsList = \<lparr>sockets = [1, 2], maxSize = 10\<rparr>,
       reSocketsList = \<lparr>sockets = [], maxSize = 10\<rparr>,
       world = exampleWorld [exampleSock 3 UNIX, exampleClient HELLO 0]
         [APoll \<lparr>pollRet = 1, pollErrno = 0, pollRevents = (\<lambda>i. if i = 1 then POLLOUT else 0)\<rparr>, ARet 10]\<rparr> d1 \<and>
    deref (world d1) 2 = Inr s1 \<and> clientStatus s1 = ECHO \<and> dynClass s1 = SslSocket 20 30"
proof -
  let ?r = "\<lparr>pollRet = 1, pollErrno = 0, pollRevents = (\<lambda>i. if i = 1 then POLLOUT else 0)\<rparr>"
  let ?d = "\<lparr>dispatcherFailed = False, socketsList = \<lparr>sockets = [1, 2], maxSize = 10\<rparr>,
       reSocketsList = \<lparr>sockets = [], maxSize = 10\<rparr>,
       world = exampleWorld [exampleSock 3 UNIX, exampleClient HELLO 0] [APoll ?r, ARet 10]\<rparr>"
  obtain d1 s1 where d1: "dispatcherRound replay 1 1 ?d = Inr d1" "deref (world d1) 2 = Inr s1"
    "clientStatus s1 = ECHO"
    by (auto simp: dispatcherRound_def pollAndProcess_def pollSockets_def clearSockets_def
        modifyObj_def deref_def exampleSock_def exampleClient_def MAX_SOCKETS_TO_POLL_def call_defs replay_def
        putSocket_def sharePtr_def processClient_def clientWrite_def utilsWrite_def isDropped_def
        isReadAvailable_def isWriteAvailable_def sock_defs poll_bits NO_EVENTS_def)
  then have run: "dispatcherReaches replay 1 1 ?d d1"
    by (intro loopReaches.again [OF loopReaches.start]) simp_all
  have "nextPtr (world ?d) = 3" by (simp add: exampleWorld_def)
  with sockets_keep_type [OF run _ d1(2)] have "dynClass s1 = SslSocket 20 30"
    by (auto simp: deref_def exampleClient_def)
  with run d1 show ?thesis by blast
qed

end
