(* ===== verification/ListInvariant.thy ===== *)
theory ListInvariant
  imports SocketHistory DispatcherSafety
begin

text \<open>
  Invariants of the dispatcher's list together with the objects in it: what the sockets' own
  history, the handling of a message of the listener and the removal of a client keep is kept
  by every round and every run.
\<close>

locale list_invariant =
  fixes J :: "sockets_list \<Rightarrow> 'k world \<Rightarrow> bool" and S :: "'k sys" and u :: ptr
  assumes moves: "J l w \<Longrightarrow> history w w' \<Longrightarrow> owned w M \<Longrightarrow> owned w' M' \<Longrightarrow>
      set (sockets l) \<subseteq> set_mset M \<inter> set_mset M' \<Longrightarrow> nullptr \<notin> set (sockets l) \<Longrightarrow> J l w'"
    and process: "J l w \<Longrightarrow> owned w (mset (sockets l) + M) \<Longrightarrow> u \<in># M \<Longrightarrow> u \<noteq> nullptr \<Longrightarrow>
      listOk MAX_SOCKETS l \<Longrightarrow> dispatcherProcess S u u l w = Inr (b, l', w') \<Longrightarrow> J l' w'"
    and del: "J l w \<Longrightarrow> owned w (mset (sockets l) + M) \<Longrightarrow> p \<in># mset (sockets l) + M \<Longrightarrow> p \<noteq> nullptr \<Longrightarrow>
      listOk MAX_SOCKETS l \<Longrightarrow> delSocket S p l w = Inr (b, l', w') \<Longrightarrow> J l' w'"
begin

lemma ready:
  assumes "J l w" "owned w (mset (sockets l) + M)" "set ps \<subseteq> set_mset M" "nullptr \<notin> set ps"
    and "u \<in># M" "u \<noteq> nullptr" "listOk MAX_SOCKETS l"
    and "processReady S u u ps l w = Inr (b, l', w')"
  shows "J l' w'"
  using assms
proof (induction ps arbitrary: l w)
  case (Cons p ps)
  note inv = Cons.prems(1) and own = Cons.prems(2) and u = Cons.prems(5,6) and l = Cons.prems(7) and run = Cons.prems(8)
  from Cons.prems have p: "p \<in># mset (sockets l) + M" "p \<noteq> nullptr" by auto
  then obtain s where s: "deref w p = Inr s" using owned_deref own by blast
  have rest: "J l' w'" if "J l1 w1" "owned w1 (mset (sockets l1) + M)" "listOk MAX_SOCKETS l1"
      "processReady S u u ps l1 w1 = Inr (b, l', w')" for l1 w1
    using Cons.IH [OF that(1,2)] that(3,4) Cons.prems by simp
  consider (unix) "socketType s = UNIX" | (client) "socketType s \<noteq> UNIX" "socketType s = TCP \<or> socketType s = SSL"
    | (other) "socketType s = UNKNOWN" by (cases "socketType s") auto
  then show ?case
  proof cases
    case unix
    with run s obtain good l1 w1 where d: "dispatcherProcess S u u l w = Inr (good, l1, w1)"
      "if good then processReady S u u ps l1 w1 = Inr (b, l', w') else l' = l1 \<and> w' = w1"
      by (auto simp: andThen_eq_Inr split: if_splits)
    have "J l1 w1" by (rule process [OF inv own u l d(1)])
    moreover have "owned w1 (mset (sockets l1) + M)" "listOk MAX_SOCKETS l1"
      using dispatcherProcess_sat [OF own u u l, of S] d(1) by simp_all
    ultimately show ?thesis using d(2) rest by (cases good) auto
  next
    case client
    with run s obtain good w1 b2 l2 w2 where c: "processClient S p w = Inr (good, w1)"
      "(if \<not> good then delSocket S p l w1 else Inr (True, l, w1)) = Inr (b2, l2, w2)"
      "processReady S u u ps l2 w2 = Inr (b, l', w')"
      by (auto simp: andThen_eq_Inr simp del: if_split_asm)
    have o1: "owned w1 (mset (sockets l) + M)" using processClient_sat [OF own p, of "{}" S] c(1) by simp
    have "J l w1"
      using l by (intro moves [OF inv hist.processClient [OF c(1)] own o1]) (auto simp: listOk_def)
    then have "J l2 w2" using del [OF _ o1 p l] c(2) by (cases good) auto
    moreover have "owned w2 (mset (sockets l2) + M)" "listOk MAX_SOCKETS l2"
      using delSocket_sat [OF o1 p l, of "{}" S] c(2) o1 l by (cases good; auto)+
    ultimately show ?thesis using c(3) by (rule rest)
  next
    case other
    with run s have "processReady S u u ps l w = Inr (b, l', w')" by simp
    from rest [OF inv own l this] show ?thesis .
  qed
qed simp

lemma polled:
  assumes "J (socketsList d) (world d)" "dispatcherInv u d" "sockets (reSocketsList d) = []"
    and run: "pollAndProcess S u u d = Inr d'"
  shows "J (socketsList d') (world d')"
proof -
  let ?l = "socketsList d" and ?re = "reSocketsList d"
  have u: "u \<noteq> nullptr" and ok: "listOk MAX_SOCKETS ?l" "listOk MAX_SOCKETS ?re"
    and own: "owned (world d) (mset (sockets ?l) + mset (sockets ?re) + {#u, u#})"
    using assms(2) by (auto simp: dispatcherInv_def)
  have nn: "nullptr \<notin> set (sockets ?l)" "length (sockets ?l) \<le> MAX_SOCKETS_TO_POLL"
    using ok(1) by (auto simp: listOk_def MAX_SOCKETS_def MAX_SOCKETS_TO_POLL_def)
  obtain e re2 w4 where p: "pollSockets S ?l ?re (world d) = Inr (e, re2, w4)"
    "owned w4 (mset (sockets ?l) + mset (sockets re2) + {#u, u#})" "set (sockets re2) \<subseteq> set (sockets ?l)"
    using pollSockets_owned [OF own nn, where S = S] assms(3) by auto
  have j4: "J ?l w4"
    by (rule moves [OF assms(1) hist.poll [OF p(1)] own p(2)]) (use nn in auto)
  have o4: "owned w4 (mset (sockets ?l) + (mset (sockets re2) + {#u, u#}))" using p(2) by (simp add: ac_simps)
  have "J l' w'" if "processReady S u u (sockets re2) ?l w4 = Inr (b, l', w')" for b l' w'
    by (rule ready [OF j4 o4 _ _ _ u ok(1) that]) (use p(3) nn(1) in auto)
  with run p(1) j4 show ?thesis by (auto simp: pollAndProcess_def andThen_eq_Inr split: if_splits)
qed

lemma round:
  assumes j: "J (socketsList d) (world d)" and inv: "dispatcherInv u d" and run: "dispatcherRound S u u d = Inr d'"
  shows "J (socketsList d') (world d')"
proof -
  let ?M = "mset (sockets (socketsList d)) + {#u, u#}"
  from inv have own: "owned (world d) (mset (sockets (reSocketsList d)) + ?M)" and u: "u \<noteq> nullptr"
    and ok: "listOk MAX_SOCKETS (socketsList d)" "listOk MAX_SOCKETS (reSocketsList d)"
    by (auto simp: dispatcherInv_def ac_simps)
  from run obtain w1 re1 w2 w3 where s: "modifyObj pollForRead u (world d) = Inr w1"
    "clearSockets S (reSocketsList d) w1 = Inr (re1, w2)"
    "requestClientReads (sockets (socketsList d)) w2 = Inr w3"
    and p: "pollAndProcess S u u (d\<lparr>reSocketsList := re1, world := w3\<rparr>) = Inr d'"
    by (auto simp: dispatcherRound_def outcome_simps)
  have o1: "owned w1 (mset (sockets (reSocketsList d)) + ?M)"
    using modify_sat [OF own _ u, of "{}" pollForRead] s(1) by simp
  have o2: "owned w2 ?M" "re1 = (reSocketsList d)\<lparr>sockets := []\<rparr>"
    using clearSockets_sat [OF o1, of "{}" S] s(2) by simp_all
  have o3: "owned w3 ?M"
    using requestClientReads_sat [OF o2(1), of "sockets (socketsList d)" "{}"] ok s(3) by (auto simp: listOk_def)
  have "history (world d) w3"
    by (rule history_trans [OF history_trans [OF hist.methods(1) [OF s(1)] hist.clear [OF s(2)]] hist.requests [OF s(3)]])
  then have "J (socketsList d) w3"
    using ok by (intro moves [OF j _ own o3]) (auto simp: listOk_def)
  moreover have "dispatcherInv u (d\<lparr>reSocketsList := re1, world := w3\<rparr>)"
    using o3 o2(2) ok u by (simp add: dispatcherInv_def listOk_def)
  ultimately show ?thesis using polled [OF _ _ _ p] o2(2) by simp
qed

lemma run:
  assumes "dispatcherReaches S u u d d1" "dispatcherInv u d" "J (socketsList d) (world d)"
  shows "J (socketsList d1) (world d1)"
  using assms
proof (induction rule: loopReaches.induct)
  case (again d1 d2)
  have "dispatcherInv u d1" using dl.reaches_inv [OF again.hyps(1) again.prems(1)] .
  with again show ?case using round by blast
qed

end

end
