(* ===== verification/Ledger.thy ===== *)
theory Ledger
  imports ObjectRelation
begin

text \<open>
  The books of the descriptors of a process, by a function that says which calls open one:
  every descriptor is closed at most as often as it was opened, and a live socket that would
  close it counts as one more close.
\<close>

section \<open>Opened, held and closed\<close>

definition openedBy :: "(event \<Rightarrow> int list) \<Rightarrow> event list \<Rightarrow> int list" where
  "openedBy opener es = concat (map opener es)"

lemma openedBy_simps [simp]:
  "openedBy opener [] = []" "openedBy opener (e # es) = opener e @ openedBy opener es"
  "openedBy opener (es @ fs) = openedBy opener es @ openedBy opener fs"
  by (simp_all add: openedBy_def)

definition holders :: "'k world \<Rightarrow> int \<Rightarrow> ptr set" where
  "holders w fd = {p. \<exists>s. deref w p = Inr s \<and> \<not> protectDescriptor s \<and> descriptor s = fd}"

definition heapBounded :: "'k world \<Rightarrow> bool" where
  "heapBounded w \<longleftrightarrow> (\<forall>p. heap w p \<noteq> None \<longrightarrow> p < nextPtr w)"

lemma finite_holders [simp]: "heapBounded w \<Longrightarrow> finite (holders w fd)"
  by (rule finite_subset [of _ "{..<nextPtr w}"])
    (auto simp: holders_def heapBounded_def deref_def split: if_splits option.splits)

lemma holders_cong: "heap w' = heap w \<Longrightarrow> holders w' fd = holders w fd"
  by (simp add: holders_def deref_def)

definition ledger :: "(event \<Rightarrow> int list) \<Rightarrow> 'k world \<Rightarrow> 'k world \<Rightarrow> bool" where
  "ledger opener w w' \<longleftrightarrow> (heapBounded w \<longrightarrow> heapBounded w' \<and>
     (\<forall>fd. count_list (closesOf (trace w')) fd + card (holders w' fd) + count_list (openedBy opener (trace w)) fd
         \<le> count_list (openedBy opener (trace w')) fd + count_list (closesOf (trace w)) fd + card (holders w fd)))"

lemma ledgerD:
  assumes "ledger opener w w'" "heapBounded w"
  shows "heapBounded w'"
    "count_list (closesOf (trace w')) fd + card (holders w' fd) + count_list (openedBy opener (trace w)) fd
       \<le> count_list (openedBy opener (trace w')) fd + count_list (closesOf (trace w)) fd + card (holders w fd)"
  using assms by (auto simp: ledger_def)

lemma ledger_trans: "ledger opener w w1 \<Longrightarrow> ledger opener w1 w2 \<Longrightarrow> ledger opener w w2"
proof -
  assume l: "ledger opener w w1" "ledger opener w1 w2"
  show ?thesis
    unfolding ledger_def
  proof (intro impI conjI allI)
    assume b: "heapBounded w"
    then have b1: "heapBounded w1" using ledgerD(1) [OF l(1)] by blast
    then show "heapBounded w2" using ledgerD(1) [OF l(2)] by blast
    show "count_list (closesOf (trace w2)) fd + card (holders w2 fd) + count_list (openedBy opener (trace w)) fd
       \<le> count_list (openedBy opener (trace w2)) fd + count_list (closesOf (trace w)) fd + card (holders w fd)" for fd
      using ledgerD(2) [OF l(1) b, of fd] ledgerD(2) [OF l(2) b1, of fd] by linarith
  qed
qed

lemma ledger_quiet: "quiet w w' \<Longrightarrow> ledger opener w w'"
  by (auto simp: quiet_def ledger_def heapBounded_def holders_cong [of w' w])


lemma ledger_modify:
  assumes "modifyObj f p w = Inr w'" "deref w p = Inr s" "advances s (f s)"
  shows "ledger opener w w'"
proof -
  have "holders w' fd = holders w fd" for fd
    using assms by (auto simp: holders_def modifyObj_def deref_def advances_def split: if_splits option.splits)
  moreover have "heapBounded w \<Longrightarrow> heapBounded w'" "trace w' = trace w"
    using assms by (auto simp: modifyObj_def heapBounded_def split: if_splits option.splits)
  ultimately show ?thesis by (simp add: ledger_def)
qed

lemma ledger_share: "sharePtr p w = Inr w' \<Longrightarrow> ledger opener w w'"
proof -
  assume a: "sharePtr p w = Inr w'"
  then have "holders w' fd = holders w fd" for fd
    by (auto simp: holders_def sharePtr_def deref_def split: if_splits option.splits)
  moreover have "heapBounded w \<Longrightarrow> heapBounded w'" "trace w' = trace w"
    using a by (auto simp: sharePtr_def heapBounded_def split: if_splits option.splits)
  ultimately show ?thesis by (simp add: ledger_def)
qed

lemma closesOf_destroy: "closesOf (destroyEvents s) = (if protectDescriptor s then [] else [descriptor s])"
  by (cases "dynClass s") (auto simp: destroyEvents_def)

lemma ledger_release:
  assumes "releasePtr S p w = Inr w'"
  shows "ledger opener w w'"
proof (cases "p = nullptr \<or> (\<exists>c. heap w p = Some c \<and> 1 < useCount c)")
  case True
  then have "holders w' fd = holders w fd" for fd
    using assms by (auto simp: holders_def releasePtr_def deref_def split: if_splits option.splits)
  moreover have "heapBounded w \<Longrightarrow> heapBounded w'" "trace w' = trace w"
    using assms True by (auto simp: releasePtr_def heapBounded_def split: if_splits option.splits)
  ultimately show ?thesis by (simp add: ledger_def)
next
  case False
  with assms obtain c where c: "heap w p = Some c" "p \<noteq> nullptr"
    "w' = destroySocket S (obj c) (w\<lparr>heap := (heap w)(p := None)\<rparr>)"
    by (auto simp: releasePtr_def split: if_splits option.splits)
  have h: "heap w' = (heap w)(p := None)" "nextPtr w' = nextPtr w"
    using sameProcD [OF destroySocket_frame [of "w\<lparr>heap := (heap w)(p := None)\<rparr>" S "obj c"]] c(3) by simp_all
  have t: "trace w' = trace w @ destroyEvents (obj c)" using c(3) by (simp add: destroySocket_trace)
  have hold: "holders w' fd = holders w fd - {p}" for fd
    by (auto simp: holders_def deref_def h split: if_splits)
  have p: "p \<in> holders w fd \<longleftrightarrow> \<not> protectDescriptor (obj c) \<and> descriptor (obj c) = fd" for fd
    using c by (auto simp: holders_def deref_def)
  have one: "card (holders w' fd) + count_list (closesOf (destroyEvents (obj c))) fd \<le> card (holders w fd)"
    if "heapBounded w" for fd
    unfolding hold using that p [of fd] card_Suc_Diff1 [OF finite_holders [OF that], of p fd]
    by (auto simp: closesOf_destroy card_Diff_singleton_if)
  show ?thesis
    unfolding ledger_def t
  proof (intro impI conjI allI)
    assume "heapBounded w"
    then show "heapBounded w'" by (auto simp: heapBounded_def h)
    show "count_list (closesOf (trace w @ destroyEvents (obj c))) fd + card (holders w' fd) + count_list (openedBy opener (trace w)) fd
         \<le> count_list (openedBy opener (trace w @ destroyEvents (obj c))) fd + count_list (closesOf (trace w)) fd + card (holders w fd)" for fd
      using one [OF \<open>heapBounded w\<close>, of fd] by simp
  qed
qed

interpretation object_led: object_relation "ledger opener" S for opener and S :: "'k sys"
  by unfold_locales
    (auto intro: ledger_trans ledger_quiet silent_quiet ledger_modify marks_advances ledger_share ledger_release)

text \<open>A new socket on a descriptor that has just been opened.\<close>

lemma ledger_new:
  assumes "heap v = heap w" "nextPtr v = nextPtr w" "trace v = trace w @ es" "closesOf es = []"
    and "descriptor s \<in> set (openedBy opener es)" "makeShared s v = (q, w')"
  shows "ledger opener w w'"
  unfolding ledger_def
proof (intro impI conjI allI)
  assume b: "heapBounded w"
  then show "heapBounded w'"
    using assms by (auto simp: makeShared_def heapBounded_def less_Suc_eq split: if_splits)
  fix f
  have "holders w' f \<subseteq> (if descriptor s = f then insert q (holders w f) else holders w f)"
    using assms by (auto simp: makeShared_def holders_def deref_def split: if_splits option.splits)
  then have "card (holders w' f) \<le> card (if descriptor s = f then insert q (holders w f) else holders w f)"
    by (rule card_mono [rotated]) (simp add: b)
  also have "\<dots> \<le> (if descriptor s = f then 1 else 0) + card (holders w f)"
    using card_insert_le_m1 [of "Suc (card (holders w f))" "holders w f" q] by auto
  also have "\<dots> \<le> count_list (openedBy opener es) f + card (holders w f)"
    using assms(5) by (auto simp: Suc_le_eq) (metis count_list_0_iff gr0I)
  finally show "count_list (closesOf (trace w')) f + card (holders w' f) + count_list (openedBy opener (trace w)) f
       \<le> count_list (openedBy opener (trace w')) f + count_list (closesOf (trace w)) f + card (holders w f)"
    using assms by (auto simp: makeShared_def)
qed

text \<open>
  The books of a process that starts with the objects of \<open>w\<close>, in terms of the calls alone.
\<close>

lemma ledger_books:
  assumes "ledger opener w w'" "heapBounded w" "trace w = []"
  shows "count_list (closesOf (trace w')) fd + card (holders w' fd) \<le>
    count_list (openedBy opener (trace w')) fd + card (holders w fd)"
  using ledgerD(2) [OF assms(1,2), of fd] assms(3) by simp

end
