(* ===== verification/DescriptorLedger.thy ===== *)
theory DescriptorLedger
  imports DispatcherSteps DispatcherMessages DispatcherRun Ledger
begin

text \<open>
  The books of the descriptors in the dispatcher: every descriptor is closed at most as often
  as it was received, and a live socket never holds one that has been closed already. The
  listener's messages are assumed to carry a descriptor; without that, a stale number is
  taken from the control buffer (theory \<open>FdPassing\<close>).
\<close>

section \<open>Received descriptors\<close>

fun receiveOf :: "event \<Rightarrow> int list" where
  "receiveOf (Io (EvRecvmsg fd n r (Some f))) = [f]"
| "receiveOf _ = []"

abbreviation receivesOf :: "event list \<Rightarrow> int list" where
  "receivesOf \<equiv> openedBy receiveOf"

text \<open>The books may count other calls that open a descriptor, if they count these.\<close>

definition countsReceived :: "(event \<Rightarrow> int list) \<Rightarrow> bool" where
  "countsReceived opener \<longleftrightarrow> (\<forall>fd n r f. f \<in> set (opener (Io (EvRecvmsg fd n r (Some f)))))"

lemma countsReceived_self [simp]: "countsReceived receiveOf"
  by (simp add: countsReceived_def)

section \<open>Taking a client over\<close>

text \<open>Every message that can be taken for one with status zero carries a descriptor.\<close>

definition carriesDescriptors :: "'k sys \<Rightarrow> bool" where
  "carriesDescriptors S \<longleftrightarrow>
     (\<forall>fd n k bs control k'. sys_recvmsg S fd n k = ((Data bs, control), k') \<longrightarrow> NUL \<in> set bs \<longrightarrow> control \<noteq> None)"

text \<open>A positive number the scan comes up with is the one in the control buffer.\<close>

lemma scanBytes_number:
  "scanBytes buf cmsg i nr st = Inr (status, newfd) \<Longrightarrow> 0 < newfd \<Longrightarrow>
   newfd = snd st \<or> newfd = cmsg \<and> NUL \<in> set (take (nat nr) buf)"
proof (induction buf cmsg i nr st rule: scanBytes.induct)
  case (1 buf cmsg i nr st)
  show ?case
  proof (cases "int i < nr")
    case False
    with 1(3) show ?thesis by (simp add: scanBytes.simps [of buf cmsg i])
  next
    case True
    with 1(3) have i: "i < length buf"
      by (auto simp: scanBytes.simps [of buf cmsg i] guarded_def split: if_splits)
    show ?thesis
    proof (cases "buf ! i = NUL")
      case nul: True
      have "NUL = take (nat nr) buf ! i" "i < length (take (nat nr) buf)" using nul i True by auto
      then have here: "NUL \<in> set (take (nat nr) buf)" by (metis nth_mem)
      define st1 :: int where "st1 = of_char (buf ! Suc i)"
      have "0 \<le> st1" unfolding st1_def by (metis of_nat_of_char of_nat_0_le_iff)
      from 1(3) True i nul have "Suc i < length buf"
        "scanBytes buf cmsg (Suc i) (nr - 2) (st1, if st1 = 0 then cmsg else - st1) = Inr (status, newfd)"
        by (auto simp: scanBytes.simps [of buf cmsg i] guarded_def Let_def st1_def split: if_splits)
      with 1(1) [OF True nul st1_def] 1(4) \<open>0 \<le> st1\<close> have "newfd = cmsg" by (auto split: if_splits)
      with here show ?thesis by simp
    next
      case False
      with 1(2) [OF True] 1(3,4) True i show ?thesis
        by (auto simp: scanBytes.simps [of buf cmsg i] guarded_def split: if_splits)
    qed
  qed
qed

lemma quiet_alloc: "allocRecvCmsg S w = (room, w') \<Longrightarrow> quiet w w'"
  by (auto simp: allocRecvCmsg_def call_defs quiet_def keepsBuffers_def split: option.splits prod.splits if_splits)

text \<open>The receive loop: what it returns is a new socket on a descriptor just received.\<close>

definition newlyHeld :: "ptr \<Rightarrow> 'k world \<Rightarrow> bool" where
  "newlyHeld q w \<longleftrightarrow> (q \<noteq> nullptr \<longrightarrow> (\<exists>s. deref w q = Inr s \<and> \<not> protectDescriptor s))"

lemma scanBytes_received:
  assumes "scanBytes (overlay (ioBytes io) buf) cmsg 0 (ioRet io) (-1, 0) = Inr (status, newfd)" "0 < newfd"
    and "carriesDescriptors S" "k_recvmsg S fd n w = ((io, control), w')"
    and "cmsg = (case control of None \<Rightarrow> old | Some f \<Rightarrow> f)"
  shows "control = Some newfd"
proof -
  have "newfd = cmsg \<and> NUL \<in> set (take (nat (ioRet io)) (overlay (ioBytes io) buf))"
    using scanBytes_number [OF assms(1,2)] assms(2) by simp
  moreover have "take (nat (ioRet io)) (overlay (ioBytes io) buf) = ioBytes io"
    by (cases io) (simp_all add: overlay_def)
  ultimately have n: "newfd = cmsg" "NUL \<in> set (ioBytes io)" by simp_all
  then obtain bs k2 where "sys_recvmsg S fd n (kern w) = ((Data bs, control), k2)" "NUL \<in> set bs"
    using assms(4) by (cases io) (auto simp: k_recvmsg_def split: prod.splits)
  then obtain g where "control = Some g" using assms(3) unfolding carriesDescriptors_def by blast
  with n assms(5) show ?thesis by simp
qed

lemma ledger_recvLoop:
  assumes "recvLoop S fd buf w = Some (Inr (p, w'))" "carriesDescriptors S" "countsReceived opener"
  shows "ledger opener w w' \<and> newlyHeld p w'"
proof -
  have room: "ledger opener w v1" if "ledger opener w v" "allocRecvCmsg S v = (room, v1)" for v v1 room
    by (rule ledger_trans [OF that(1) ledger_quiet [OF quiet_alloc [OF that(2)]]])
  have got: "ledger opener w v2" "ledger opener w (v2\<lparr>recvCmsg := Some c\<rparr>)"
    if "ledger opener w v1" "k_recvmsg S fd MAXLINE v1 = (m, v2)" for v1 v2 m c
  proof -
    show "ledger opener w v2" by (rule ledger_trans [OF that(1) ledger_quiet [OF quiet_calls(4) [OF that(2)]]])
    then show "ledger opener w (v2\<lparr>recvCmsg := Some c\<rparr>)" by (rule ledger_trans) (simp add: ledger_quiet quiet_def keepsBuffers_def)
  qed
  have "\<forall>q v. (Inr (p, w') :: (ptr \<times> 'a world) outcome) = Inr (q, v) \<longrightarrow> ledger opener w v \<and> newlyHeld q v"
  proof (rule recvLoop_rule [OF assms(1), of "ledger opener w"], goal_cases)
    case (3 v old v1 io control v2 v3)
    then show ?case using got [OF room [OF 3(1,2)] 3(3)] by (simp add: newlyHeld_def)
  next
    case (4 v old v1 io control v2 v3 buf status newfd s)
    have c: "control = Some newfd" by (rule scanBytes_received [OF 4(5,6) assms(2) 4(3) refl])
    have s: "descriptor s = newfd" "\<not> protectDescriptor s" using 4(7) by (auto simp: newSocket_Inr)
    have v3: "heap v3 = heap v1" "nextPtr v3 = nextPtr v1"
      "trace v3 = trace v1 @ [Io (EvRecvmsg fd MAXLINE io (Some (descriptor s)))]"
      using 4(3,4) c s(1) by (auto simp: k_recvmsg_def split: prod.splits)
    have "ledger opener w v'" if "makeShared s v3 = (q, v')" for q v'
      by (rule ledger_trans [OF room [OF 4(1,2)] ledger_new [OF v3 _ _ that]])
        (use assms(3) in \<open>simp_all add: countsReceived_def\<close>)
    then show ?case using s(2) by (auto simp: newlyHeld_def makeShared_def deref_def)
  qed (use room in \<open>auto simp: newlyHeld_def ledger_quiet\<close>)
  then show ?thesis by blast
qed

lemma ledger_makeSsl:
  assumes "makeSslSocket S p w = Inr (c, w')" "newlyHeld p w" "p \<noteq> nullptr"
  shows "ledger opener w w'"
proof -
  from assms(1) obtain x b ssl w1 w2 w3 where x0: "deref w p = Inr x"
    and w1: "newSslOn S (descriptor x) BIO_NOCLOSE w = Inr (b, ssl, w1)"
    and w2: "modifyObj doProtectDescriptor p w1 = Inr w2"
    and w3: "makeShared \<lparr>dynClass = SslSocket b ssl, protectDescriptor = False, descriptor = descriptor x, events = 0,
      revents = 0, socketType = SSL, listenSocket = False, clientStatus = NO_STATUS\<rparr> w2 = (c, w3)"
      "releasePtr S p w3 = Inr w'"
    by (rule makeSslSocketE)
  with assms(2,3) have x: "deref w p = Inr x" "\<not> protectDescriptor x" by (auto simp: newlyHeld_def)
  have x1: "deref w1 p = Inr x" using x(1) deref_cong quiet_newSslOn [OF w1] by (metis quiet_def)
  let ?s = "\<lparr>dynClass = SslSocket b ssl, protectDescriptor = False, descriptor = descriptor x, events = 0,
    revents = 0, socketType = SSL, listenSocket = False, clientStatus = NO_STATUS\<rparr>"
  have "ledger opener w1 w3"
    unfolding ledger_def
  proof (intro impI conjI allI)
    assume b: "heapBounded w1"
    then show "heapBounded w3"
      using w2 w3(1) by (auto simp: makeShared_def modifyObj_def heapBounded_def less_Suc_eq split: if_splits option.splits)
    fix f
    have d2: "deref w2 q = (if q = p then Inr (doProtectDescriptor x) else deref w1 q)" for q
      using modify_known [OF x1, of doProtectDescriptor] w2 by auto
    have "p < nextPtr w1" using x1 b by (auto simp: deref_def heapBounded_def split: if_splits option.splits)
    then have "c \<noteq> nullptr" using w2 w3(1) by (auto simp: makeShared_def modifyObj_def split: if_splits option.splits)
    then have d3: "deref w3 q = (if q = c then Inr ?s else deref w2 q)" for q by (rule deref_make [OF w3(1)])
    have "holders w3 f \<subseteq> (if descriptor x = f then insert c (holders w1 f - {p}) else holders w1 f)"
      unfolding holders_def d3 d2 by (auto simp: doProtectDescriptor_def split: if_splits)
    then have "card (holders w3 f) \<le> card (if descriptor x = f then insert c (holders w1 f - {p}) else holders w1 f)"
      by (rule card_mono [rotated]) (simp add: b)
    also have "\<dots> \<le> card (holders w1 f)"
    proof (cases "descriptor x = f")
      case True
      then have "p \<in> holders w1 f" using x1 x(2) by (simp add: holders_def)
      then have "Suc (card (holders w1 f - {p})) = card (holders w1 f)" using b card_Suc_Diff1 by (metis finite_holders)
      moreover have "card (insert c (holders w1 f - {p})) \<le> Suc (card (holders w1 f - {p}))"
        by (rule card_insert_le_m1) simp_all
      ultimately show ?thesis using True by simp
    qed simp
    finally have "card (holders w3 f) \<le> card (holders w1 f)" .
    moreover have "trace w3 = trace w1" using w2 w3(1) by (auto simp: makeShared_def modifyObj_def split: if_splits option.splits)
    ultimately show "count_list (closesOf (trace w3)) f + card (holders w3 f) + count_list (openedBy opener (trace w1)) f
       \<le> count_list (openedBy opener (trace w3)) f + count_list (closesOf (trace w1)) f + card (holders w1 f)" by simp
  qed
  with ledger_trans [OF ledger_quiet [OF quiet_newSslOn [OF w1]]] ledger_release [OF w3(2)] show ?thesis
    using ledger_trans by blast
qed

lemma ledger_status: "modifyObj (setClientStatus st) p w = Inr w' \<Longrightarrow> ledger opener w w'"
proof -
  assume a: "modifyObj (setClientStatus st) p w = Inr w'"
  then have "holders w' fd = holders w fd" for fd
    by (auto simp: holders_def modifyObj_def deref_def setClientStatus_def split: if_splits option.splits)
  moreover have "heapBounded w \<Longrightarrow> heapBounded w'" "trace w' = trace w"
    using a by (auto simp: modifyObj_def heapBounded_def split: if_splits option.splits)
  ultimately show ?thesis by (simp add: ledger_def)
qed

lemma ledger_storeClient:
  assumes "storeClient S c l w = Inr (b, l', w')"
  shows "ledger opener w w'"
proof -
  from assms obtain stored l1 w1 w3 w4 w5 where
    s: "putSocket c l w = Inr (stored, l1, w1)"
      "(if stored then Inr w1 else andThen (utilsWrite S c (''FAILED BUSY TRY LATER!!!!'' @ [NL]) w1)
         (\<lambda>(n, w2). Inr w2)) = Inr w3"
      "modifyObj pollForWrite c w3 = Inr w4" "modifyObj (setClientStatus HELLO) c w4 = Inr w5"
      "releasePtr S c w5 = Inr w'"
    unfolding storeClient_def by (simp only: andThen_eq_Inr split_paired_Ex prod.case) auto
  have "ledger opener w1 w3" using s(2) by (auto simp: outcome_simps split: if_splits dest: object_led.writes)
  then have "ledger opener w w3" by (rule ledger_trans [OF object_led.put [OF s(1)]])
  also note ledger_trans [OF object_led.methods(2) [OF s(3)] ledger_trans [OF ledger_status [OF s(4)] ledger_release [OF s(5)]]]
  finally (ledger_trans) show ?thesis .
qed

lemma ledger_receiveClient:
  assumes "carriesDescriptors S" "countsReceived opener" "receiveClient S f l w = Inr (b, l', w')"
  shows "ledger opener w w'"
proof -
  from assms(3) obtain p w1 where p: "createReceivedSocket S f w = Inr (p, w1)"
    "(if p = nullptr then Inr (False, l, w1) else andThen (makeSslSocket S p w1) (\<lambda>(c, w2). storeClient S c l w2)) =
       Inr (b, l', w')" by (auto simp: receiveClient_def andThen_eq_Inr)
  then have q: "p = nullptr \<and> w' = w1 \<or>
     (p \<noteq> nullptr \<and> (\<exists>c w2. makeSslSocket S p w1 = Inr (c, w2) \<and> storeClient S c l w2 = Inr (b, l', w')))"
    by (auto simp: outcome_simps split: if_splits)
  have r: "ledger opener w w1" "newlyHeld p w1"
    using ledger_recvLoop [OF _ assms(1,2)] p(1)
    by (auto simp: createReceivedSocket_def outcome_simps split: option.splits)
  from q show ?thesis
  proof
    assume "p \<noteq> nullptr \<and> (\<exists>c w2. makeSslSocket S p w1 = Inr (c, w2) \<and> storeClient S c l w2 = Inr (b, l', w'))"
    then obtain c w2 where c: "p \<noteq> nullptr" "makeSslSocket S p w1 = Inr (c, w2)" "storeClient S c l w2 = Inr (b, l', w')"
      by blast
    show ?thesis
      by (rule ledger_trans [OF r(1) ledger_trans [OF ledger_makeSsl [OF c(2) r(2) c(1)] ledger_storeClient [OF c(3)]]])
  qed (use r in simp)
qed

interpretation led: process_relation 
  "\<lambda>w w'. carriesDescriptors S \<and> countsReceived opener \<longrightarrow> ledger opener w w'" S for S :: "'k sys" and opener
  by unfold_locales
    (auto intro: ledger_trans ledger_quiet silent_quiet ledger_modify marks_advances ledger_share ledger_release
      ledger_receiveClient)

section \<open>A run in which a client arrives\<close>

definition honestSys :: "script sys" where
  "honestSys = replay\<lparr>sys_recvmsg := (\<lambda>fd n k. ((Data [NUL, NUL], Some 9), k)), SSL_new := (\<lambda>ctx k. (30, k))\<rparr>"

lemma honestSys_carries: "carriesDescriptors honestSys"
  by (simp add: carriesDescriptors_def honestSys_def)

abbreviation oneReady :: pollResult where
  "oneReady \<equiv> \<lparr>pollRet = 1, pollErrno = 0, pollRevents = (\<lambda>i. if i = 0 then POLLIN else 0)\<rparr>"

abbreviation honestWorld :: "script world" where
  "honestWorld \<equiv> exampleWorld [exampleSock 3 UNIX] [APoll oneReady, AIo (Data [NUL, NUL]), AHandle 20, AHandle 30]"

lemma honestWorld_owned: "owned honestWorld {#1#}" by (auto simp: owned_def ownersOf_def)

text \<open>The state in which the first message is about to be taken.\<close>

lemma honest_polled:
  "\<exists>d w1 v. dispatcherStart 1 honestWorld = Inr d \<and> \<not> dispatcherFailed d \<and> sockets (socketsList d) = [1] \<and>
    maxSize (socketsList d) = 10 \<and> modifyObj pollForRead 1 (world d) = Inr w1 \<and>
    clearSockets honestSys (reSocketsList d) w1 = Inr (reSocketsList d, w1) \<and>
    requestClientReads [1] w1 = Inr w1 \<and>
    pollSockets honestSys (socketsList d) (reSocketsList d) w1 = Inr (NO_ERROR, (reSocketsList d)\<lparr>sockets := [1]\<rparr>, v) \<and>
    owned v (mset [1] + {#1, 1, 1#}) \<and> deref v 1 = Inr ((exampleSock 3 UNIX)\<lparr>revents := POLLIN\<rparr>) \<and>
    recvCmsg v = Some (-1) \<and> kern v = [AIo (Data [NUL, NUL]), AHandle 20, AHandle 30] \<and>
    trace v = [Io (EvPoll [(3, POLLIN)] oneReady)]"
proof -
  obtain d where d: "dispatcherStart 1 honestWorld = Inr d" "sockets (socketsList d) = [1]" "maxSize (socketsList d) = 10"
    "sockets (reSocketsList d) = []" "maxSize (reSocketsList d) = 10" "recvCmsg (world d) = Some (-1)"
    "kern (world d) = kern honestWorld" "deref (world d) 1 = Inr (exampleSock 3 UNIX)" "trace (world d) = []"
    "\<not> dispatcherFailed d"
    by (auto simp: dispatcherStart_def sharePtr_def putSocket_def newSocketsList_def
        MAX_SOCKETS_def outcome_simps deref_def)
  have "dispatcherInv 1 d" using dispatcherStart_inv [OF honestWorld_owned] d(1) by auto
  then have od: "owned (world d) {#1, 1, 1#}" using d(2,4) by (simp add: dispatcherInv_def)
  let ?s = "pollForRead (exampleSock 3 UNIX)"
  obtain w1 where w1: "modifyObj pollForRead 1 (world d) = Inr w1" "owned w1 {#1, 1, 1#}"
    "kern w1 = kern honestWorld" "trace w1 = []" "deref w1 1 = Inr ?s" "recvCmsg w1 = Some (-1)"
    using owned_modify [OF od, of 1 pollForRead] modify_known [OF d(8), of pollForRead] d(6,7,9)
    by (auto simp: modifyObj_def split: if_splits option.splits)
  then obtain c where c: "heap w1 1 = Some c" "obj c = ?s" by (auto simp: deref_def split: option.splits)
  obtain v where v: "pollSockets honestSys (socketsList d) (reSocketsList d) w1 =
      Inr (NO_ERROR, (reSocketsList d)\<lparr>sockets := [1]\<rparr>, v)" "recvCmsg v = Some (-1)"
    "kern v = [AIo (Data [NUL, NUL]), AHandle 20, AHandle 30]" "trace v = [Io (EvPoll [(3, POLLIN)] oneReady)]"
    "deref v 1 = Inr ((exampleSock 3 UNIX)\<lparr>revents := POLLIN\<rparr>)"
    using d(2-5) w1(3,4,6) c
    by (auto simp: pollSockets_def MAX_SOCKETS_TO_POLL_def call_defs honestSys_def replay_def putSocket_def
        sharePtr_def modifyObj_def deref_def sock_defs NO_EVENTS_def exampleSock_def POLLIN_def)
  have "owned w1 (mset (sockets (socketsList d)) + mset (sockets (reSocketsList d)) + {#1, 1#})"
    using w1(2) d(2,4) by simp
  from pollSockets_owned [OF this, where S = honestSys] v(1) d(2-5)
  have "owned v (mset [1] + {#1, 1, 1#})" by (auto simp: MAX_SOCKETS_TO_POLL_def)
  moreover have "(reSocketsList d)\<lparr>sockets := []\<rparr> = reSocketsList d" using d(4) by (cases "reSocketsList d") simp
  then have "clearSockets honestSys (reSocketsList d) w1 = Inr (reSocketsList d, w1)"
    using d(4) by (simp add: clearSockets_def)
  moreover have "requestClientReads [1] w1 = Inr w1" using w1(5) by (simp add: exampleSock_def sock_defs)
  ultimately show ?thesis using d w1(1) v by blast
qed

lemma honest_run:
  "\<exists>d d1. dispatcherStart 1 honestWorld = Inr d \<and> dispatcherReaches honestSys 1 1 d d1 \<and>
    (\<exists>b ctx ssl. trace (world d1) = [Io (EvPoll [(3, POLLIN)] oneReady), Io (EvRecv 3 200 MSG_PEEK (Data [NUL, NUL])),
      Io (EvRecvmsg 3 128 (Data [NUL, NUL]) (Some 9)), Tls (EvBioNew 9 0 b), Tls (EvSslNew ctx ssl),
      Tls (EvSslSetBio ssl b)]) \<and>
    (\<exists>c s. c \<in> set (sockets (socketsList d1)) \<and> deref (world d1) c = Inr s \<and> descriptor s = 9 \<and> clientStatus s = HELLO)"
proof -
  obtain d w1 v where d: "dispatcherStart 1 honestWorld = Inr d" "\<not> dispatcherFailed d" "sockets (socketsList d) = [1]"
    "maxSize (socketsList d) = 10" "modifyObj pollForRead 1 (world d) = Inr w1"
    "clearSockets honestSys (reSocketsList d) w1 = Inr (reSocketsList d, w1)" "requestClientReads [1] w1 = Inr w1"
    and v: "pollSockets honestSys (socketsList d) (reSocketsList d) w1 = Inr (NO_ERROR, (reSocketsList d)\<lparr>sockets := [1]\<rparr>, v)"
    "owned v (mset [1] + {#1, 1, 1#})" "deref v 1 = Inr ((exampleSock 3 UNIX)\<lparr>revents := POLLIN\<rparr>)"
    "recvCmsg v = Some (-1)" "kern v = [AIo (Data [NUL, NUL]), AHandle 20, AHandle 30]"
    "trace v = [Io (EvPoll [(3, POLLIN)] oneReady)]"
    using honest_polled by blast
  let ?u = "(exampleSock 3 UNIX)\<lparr>revents := POLLIN\<rparr>" and ?re = "(reSocketsList d)\<lparr>sockets := [1]\<rparr>"
  have u: "\<not> isDropped ?u" "socketType ?u = UNIX" by (simp_all add: isDropped_def poll_bits exampleSock_def)
  have calls: "sys_recv honestSys (descriptor ?u) 200 MSG_PEEK (kern v) = (Data [NUL, NUL], [AHandle 20, AHandle 30])"
    "sys_recvmsg honestSys (descriptor ?u) 128 [AHandle 20, AHandle 30] = ((Data [NUL, NUL], Some 9), [AHandle 20, AHandle 30])"
    using v(5) by (simp_all add: honestSys_def replay_def)
  have ov: "owned v (mset (sockets (socketsList d)) + {#1, 1, 1#})" and room: "length (sockets (socketsList d)) \<noteq> maxSize (socketsList d)"
    using v(2) d(3,4) by simp_all
  have fd: "descriptor ?u = 3" by (simp add: exampleSock_def)
  obtain l' v' where t: "dispatcherProcess honestSys 1 1 (socketsList d) v = Inr (True, l', v')"
    "\<exists>b ctx ssl. trace v' = [Io (EvPoll [(3, POLLIN)] oneReady), Io (EvRecv 3 200 MSG_PEEK (Data [NUL, NUL])),
      Io (EvRecvmsg 3 128 (Data [NUL, NUL]) (Some 9)), Tls (EvBioNew 9 0 b), Tls (EvSslNew ctx ssl),
      Tls (EvSslSetBio ssl b)]"
    "\<exists>c s. c \<in> set (sockets l') \<and> deref v' c = Inr s \<and> descriptor s = 9 \<and> clientStatus s = HELLO"
    using dispatcherProcess_takes [OF ov v(3) u(1) v(4) room calls(1,2)] v(6) fd
    by (fastforce simp: honestSys_def)
  then have "processReady honestSys 1 1 [1] (socketsList d) v = Inr (False, l', v')" using v(3) u(2) by simp
  with v(1) have "pollAndProcess honestSys 1 1 (d\<lparr>reSocketsList := reSocketsList d, world := w1\<rparr>) =
      Inr \<lparr>dispatcherFailed = False, socketsList = l', reSocketsList = ?re, world = v'\<rparr>"
    by (simp add: pollAndProcess_def del: processReady.simps One_nat_def)
  then have "dispatcherRound honestSys 1 1 d =
      Inr \<lparr>dispatcherFailed = False, socketsList = l', reSocketsList = ?re, world = v'\<rparr>"
    using d(3,5-7) by (simp add: dispatcherRound_def del: One_nat_def requestClientReads.simps)
  then have "dispatcherReaches honestSys 1 1 d
      \<lparr>dispatcherFailed = False, socketsList = l', reSocketsList = ?re, world = v'\<rparr>"
    by (intro loopReaches.again [OF loopReaches.start]) (simp_all add: d(2))
  moreover note d(1) t(2,3)
  ultimately show ?thesis by (metis (lifting) dstate.select_convs(2,4))
qed

section \<open>The property\<close>

text \<open>
  C11. No descriptor is closed twice. Started with nothing but the UNIX socket, in an
  environment whose messages carry descriptors, at every point of the dispatcher's run each
  number has been closed at most as often as it was received (once more for the UNIX
  socket's own), and every live socket that would close it counts as one more close: a
  socket never holds a descriptor that another has given back.
\<close>

theorem descriptors_closed_once:
  assumes "owned w {#u#}" "deref w u = Inr su" "trace w = []" "dispatcherStart u w = Inr d"
    and "carriesDescriptors S" "dispatcherReaches S u u d d1"
  shows "count_list (closesOf (trace (world d1))) fd +
      card {p. \<exists>s. deref (world d1) p = Inr s \<and> \<not> protectDescriptor s \<and> descriptor s = fd} \<le>
    count_list (receivesOf (trace (world d1))) fd + (if descriptor su = fd then 1 else 0)"
proof -
  have b: "heapBounded w"
    using owned_None [OF assms(1)] assms(1) by (auto simp: heapBounded_def owned_def) (metis gr_zeroI not_None_eq)
  obtain w1 where "sharePtr u w = Inr w1" "\<exists>b l. putSocket u (newSocketsList MAX_SOCKETS) w1 = Inr (b, l, world d)"
    using assms(4) by (auto simp: dispatcherStart_def outcome_simps)
  then have "ledger receiveOf w (world d)" using ledger_share object_led.put ledger_trans by blast
  moreover have "ledger receiveOf (world d) (world d1)" using led.run [OF assms(6), of receiveOf] assms(5) by simp
  ultimately have "ledger receiveOf w (world d1)" by (rule ledger_trans)
  from ledger_books [OF this b assms(3), of fd] have
    "count_list (closesOf (trace (world d1))) fd + card (holders (world d1) fd)
       \<le> count_list (receivesOf (trace (world d1))) fd + card (holders w fd)" .
  moreover have "holders w fd \<subseteq> (if descriptor su = fd then {u} else {})"
  proof -
    have "q = u" if "deref w q = Inr s" for q s
      using that owned_None [OF assms(1), of q] by (auto simp: deref_def split: if_splits option.splits)
    with assms(2) show ?thesis by (fastforce simp: holders_def)
  qed
  then have "card (holders w fd) \<le> (if descriptor su = fd then 1 else 0)"
    using card_mono [of "if descriptor su = fd then {u} else {}" "holders w fd"] by (auto split: if_splits)
  ultimately show ?thesis by (simp add: holders_def)
qed

theorem descriptors_closed_once_witness:
  "\<exists>d d1. dispatcherStart 1 honestWorld = Inr d \<and> dispatcherReaches honestSys 1 1 d d1 \<and>
    count_list (closesOf (trace (world d1))) 9 +
      card {p. \<exists>s. deref (world d1) p = Inr s \<and> \<not> protectDescriptor s \<and> descriptor s = 9} \<le> 1"
proof -
  obtain d d1 where d: "dispatcherStart 1 honestWorld = Inr d" "dispatcherReaches honestSys 1 1 d d1"
    "receivesOf (trace (world d1)) = [9]" using honest_run by fastforce
  have u: "deref honestWorld 1 = Inr (exampleSock 3 UNIX)" "trace honestWorld = []" by (simp_all add: deref_def)
  from descriptors_closed_once [OF honestWorld_owned u d(1) honestSys_carries d(2), of 9] d show ?thesis
    by (auto simp: exampleSock_def)
qed

end
