(* ===== verification/SessionTable.thy ===== *)
theory SessionTable
  imports ListInvariant DescriptorLedger
begin

text \<open>
  What the dispatcher promises, without owners or system calls: a table of connections, each
  with an identity, a descriptor and the status of its session, that grows at the end with
  new identities, loses single entries for good and lets a session move on. The detailed
  dispatcher of theory \<open>Dispatcher\<close> refines it, round by round and over a whole run; the
  abstraction reads the table off the list and the objects.
\<close>

section \<open>The table\<close>

text \<open>
  The next identity to be given, and the entries: identity, descriptor, status. No identity is
  given twice, so a step cannot be undone by letting an entry leave and join again.
\<close>

type_synonym table_entry = "nat \<times> int \<times> ClientStatus"
type_synonym session_table = "nat \<times> table_entry list"

text \<open>
  A new client waits for its greeting; a greeted one is in the echo status; a goodbye may come
  at any time. Of the entries with a descriptor the first one leaves, and none leaves a
  full table. Identities may be skipped.
\<close>

inductive tableStep :: "nat \<Rightarrow> session_table \<Rightarrow> session_table \<Rightarrow> bool" for cap where
  skip: "n \<le> n' \<Longrightarrow> tableStep cap (n, t) (n', t)"
| join: "length t < cap \<Longrightarrow> n \<le> i \<Longrightarrow> i < n' \<Longrightarrow> tableStep cap (n, t) (n', t @ [(i, fd, HELLO)])"
| greet: "tableStep cap (n, xs @ (i, fd, HELLO) # ys) (n, xs @ (i, fd, ECHO) # ys)"
| goodbye: "tableStep cap (n, xs @ (i, fd, st) # ys) (n, xs @ (i, fd, BYE) # ys)"
| leave: "length (xs @ (i, fd, st) # ys) \<noteq> cap \<Longrightarrow> \<forall>(j, fd', st') \<in> set xs. fd' \<noteq> fd \<Longrightarrow>
    tableStep cap (n, xs @ (i, fd, st) # ys) (n, xs @ ys)"

inductive_cases tableStepE: "tableStep cap (n, t) (n', t')"

abbreviation tableSteps :: "nat \<Rightarrow> session_table \<Rightarrow> session_table \<Rightarrow> bool" where
  "tableSteps cap \<equiv> (tableStep cap)\<^sup>*\<^sup>*"

text \<open>Sessions that move on, one entry after the other.\<close>

lemma tableStep_speaks:
  "speaks st st' \<Longrightarrow> tableSteps cap (n, xs @ (i, fd, st) # ys) (n, xs @ (i, fd, st') # ys)"
  by (auto simp: speaks_def intro: tableStep.greet tableStep.goodbye)

definition moves :: "table_entry \<Rightarrow> table_entry \<Rightarrow> bool" where
  "moves e e' \<longleftrightarrow> (case (e, e') of ((i, fd, st), (i', fd', st')) \<Rightarrow> i' = i \<and> fd' = fd \<and> speaks st st')"

lemma tableSteps_moves:
  "list_all2 moves t t' \<Longrightarrow> tableSteps cap (n, xs @ t) (n, xs @ t')"
proof (induction t t' arbitrary: xs rule: list_all2_induct)
  case (Cons e t e' t')
  obtain i fd st st' where e: "e = (i, fd, st)" "e' = (i, fd, st')" "speaks st st'"
    using Cons.hyps(1) by (cases e; cases e') (auto simp: moves_def)
  have "tableSteps cap (n, xs @ e # t) (n, xs @ e' # t)" unfolding e by (rule tableStep_speaks [OF e(3)])
  also have "tableSteps cap (n, xs @ e' # t) (n, xs @ e' # t')" using Cons.IH [of "xs @ [e']"] by simp
  finally show ?case .
qed simp

text \<open>
  What the table promises over any number of steps. Its size stays within the capacity, and a
  full table keeps its entries. An entry with an identity given out before is an entry from
  before, with the same descriptor and a status that has moved on only: no session is revived,
  none falls back from the echo to the greeting, and what has left does not come back.
\<close>

lemma table_bounded: "tableSteps cap t t' \<Longrightarrow> length (snd t) \<le> cap \<Longrightarrow> length (snd t') \<le> cap"
  by (induction rule: rtranclp_induct) (auto elim!: tableStep.cases)

lemma table_full:
  "tableSteps cap t t' \<Longrightarrow> length (snd t) = cap \<Longrightarrow> map (\<lambda>(i, fd, st). (i, fd)) (snd t') = map (\<lambda>(i, fd, st). (i, fd)) (snd t)"
proof (induction rule: rtranclp_induct)
  case (step t1 t2)
  then have "length (snd t1) = cap" using map_eq_imp_length_eq by metis
  with step.hyps(2) have "map (\<lambda>(i, fd, st). (i, fd)) (snd t2) = map (\<lambda>(i, fd, st). (i, fd)) (snd t1)"
    by (auto elim!: tableStep.cases)
  with step show ?case by simp
qed simp

lemma table_remembers:
  assumes "tableSteps cap t t'"
  shows "fst t \<le> fst t' \<and>
    ((i, fd, st') \<in> set (snd t') \<longrightarrow> i < fst t \<longrightarrow> (\<exists>st. (i, fd, st) \<in> set (snd t) \<and> speaks st st'))"
  using assms
proof (induction arbitrary: st' rule: rtranclp_induct)
  case (step t1 t2)
  have le: "fst t \<le> fst t1" using step.IH by blast
  show ?case
  proof (intro conjI impI)
    have "fst t1 \<le> fst t2" using step.hyps(2) by (rule tableStep.cases) auto
    with le show "fst t \<le> fst t2" by simp
    assume e: "(i, fd, st') \<in> set (snd t2)" "i < fst t"
    have "\<exists>st1. (i, fd, st1) \<in> set (snd t1) \<and> speaks st1 st'"
      using step.hyps(2) by (rule tableStep.cases) (use e le in auto)
    then obtain st1 where st1: "(i, fd, st1) \<in> set (snd t1)" "speaks st1 st'" by blast
    with step.IH e(2) obtain st where "(i, fd, st) \<in> set (snd t)" "speaks st st1" by blast
    with st1(2) speaks_trans show "\<exists>st. (i, fd, st) \<in> set (snd t) \<and> speaks st st'" by blast
  qed
qed auto

section \<open>The table of a dispatcher\<close>

text \<open>The abstraction: the addresses of the objects are the identities.\<close>

definition session :: "'k world \<Rightarrow> ptr \<Rightarrow> table_entry" where
  "session w p = (p, case deref w p of Inl e \<Rightarrow> (FREE_SOCKET, NO_STATUS) | Inr s \<Rightarrow> (descriptor s, clientStatus s))"

definition entriesOf :: "sockets_list \<Rightarrow> 'k world \<Rightarrow> table_entry list" where
  "entriesOf l w = map (session w) (sockets l)"

definition tableOf :: "sockets_list \<Rightarrow> 'k world \<Rightarrow> session_table" where
  "tableOf l w = (nextPtr w, entriesOf l w)"

abbreviation dispatcherTable :: "'k Dispatcher.dstate \<Rightarrow> session_table" where
  "dispatcherTable d \<equiv> tableOf (Dispatcher.dstate.socketsList d) (Dispatcher.dstate.world d)"

lemma session_known [simp]: "deref w p = Inr s \<Longrightarrow> session w p = (p, descriptor s, clientStatus s)"
  by (simp add: session_def)

lemma length_entriesOf [simp]: "length (entriesOf l w) = length (sockets l)"
  by (simp add: entriesOf_def)

text \<open>While the list stays, the sessions in it only move on.\<close>

lemma entries_history:
  assumes "history w w'" "owned w M" "owned w' M'" "set (sockets l) \<subseteq> set_mset M \<inter> set_mset M'"
    and "nullptr \<notin> set (sockets l)"
  shows "tableSteps cap (n, entriesOf l w) (n, entriesOf l w')"
proof -
  have "moves (session w p) (session w' p)"
    if "p \<in> set (sockets l)" for p
  proof -
    from that assms(4) have p: "p \<in># M" "p \<in># M'" by auto
    moreover from that assms(5) have nn: "p \<noteq> nullptr" by metis
    ultimately obtain s s' where s: "deref w p = Inr s" "deref w' p = Inr s'"
      using owned_deref assms(2,3) by meson
    have "p < nextPtr w"
      using assms(2) p by (meson linorder_not_less owned_def)
    with s assms(1) have "evolves s s'"
      by (fastforce simp: history_def deref_def split: if_splits option.splits)
    with s show ?thesis by (simp add: evolves_def moves_def)
  qed
  then have "list_all2 moves (entriesOf l w) (entriesOf l w')"
    by (simp add: entriesOf_def list_all2_map1 list_all2_map2 list_all2_same)
  then show ?thesis using tableSteps_moves [of _ _ cap n "[]"] by simp
qed

lemma table_history:
  assumes "history w w'" "owned w M" "owned w' M'" "set (sockets l) \<subseteq> set_mset M \<inter> set_mset M'"
    and "nullptr \<notin> set (sockets l)"
  shows "tableSteps cap (tableOf l w) (tableOf l w')"
proof -
  have "tableStep cap (nextPtr w, entriesOf l w') (nextPtr w', entriesOf l w')"
    using assms(1) by (intro tableStep.skip) (simp add: history_def)
  with entries_history [OF assms] show ?thesis unfolding tableOf_def by (rule rtranclp.rtrancl_into_rtrancl)
qed


section \<open>The handlers\<close>

lemma storeClient_table:
  assumes h: "history v w" "nextPtr v \<le> c" and ov: "owned v (mset (sockets l) + N)"
    and own: "owned w (add_mset c (mset (sockets l) + M))" and c: "c \<noteq> nullptr" "deref w c = Inr s"
    and l: "listOk MAX_SOCKETS l" and run: "storeClient S c l w = Inr (b, l', w')"
  shows "tableSteps MAX_SOCKETS (tableOf l v) (tableOf l' w')"
proof -
  have hv: "history v w'" by (rule history_storeClient [OF h run])
  have nn: "nullptr \<notin> set (sockets l)" using l by (simp add: listOk_def)
  show ?thesis
  proof (cases "length (sockets l) = maxSize l")
    case True
    then have l': "l' = l" by (rule storeClient_full_list [OF _ run])
    have "owned w' (mset (sockets l') + M)"
      using storeClient_sat [OF own c(1) l, of "{}" S] run by simp
    then show ?thesis unfolding l' by (intro table_history [OF hv ov]) (auto simp: nn)
  next
    case False
    obtain w1 where w1: "storeClient S c l w = Inr (True, l\<lparr>sockets := sockets l @ [c]\<rparr>, w1)"
      "owned w1 (add_mset c (mset (sockets l) + M))"
      "deref w1 c = Inr (s\<lparr>events := events s OR POLLOUT, clientStatus := HELLO\<rparr>)"
      using storeClient_known [OF own c False, of S] by blast
    with run have r: "l' = l\<lparr>sockets := sockets l @ [c]\<rparr>" "w' = w1" by simp_all
    have "tableSteps MAX_SOCKETS (nextPtr v, entriesOf l v) (nextPtr v, entriesOf l w')"
      using hv w1(2) unfolding r(2) by (rule entries_history [OF _ ov]) (auto simp: nn)
    also have "tableStep MAX_SOCKETS (nextPtr v, entriesOf l w') (nextPtr w', entriesOf l w' @ [(c, descriptor s, HELLO)])"
      using False l h(2) w1(2) r(2) by (intro tableStep.join) (simp_all add: listOk_def owned_def)
    also have "entriesOf l w' @ [(c, descriptor s, HELLO)] = entriesOf l' w'"
      using w1(3) unfolding r by (simp add: entriesOf_def)
    finally show ?thesis unfolding tableOf_def .
  qed
qed

lemma receiveClient_table:
  assumes own: "owned w (mset (sockets l) + M)" and f: "f \<in># M" "f \<noteq> nullptr"
    and l: "listOk MAX_SOCKETS l" and run: "receiveClient S f l w = Inr (b, l', w')"
  shows "tableSteps MAX_SOCKETS (tableOf l w) (tableOf l' w')"
proof -
  let ?N = "mset (sockets l) + M"
  from run obtain p w1 where p: "createReceivedSocket S f w = Inr (p, w1)"
    "(if p = nullptr then Inr (False, l, w1) else andThen (makeSslSocket S p w1) (\<lambda>(c, w2). storeClient S c l w2)) =
       Inr (b, l', w')" by (auto simp: receiveClient_def andThen_eq_Inr)
  have h1: "history w w1" by (rule history_received [OF p(1)])
  have ok: "receivedOk ?N (p, w1)"
    using createReceivedSocket_ok [OF own _ f(2), of S] f(1) p(1) by (auto simp: sat_def)
  show ?thesis
  proof (cases "p = nullptr")
    case True
    with p(2) have r: "w' = w1" "l' = l" by simp_all
    from ok True have "owned w1 ?N" by (simp add: receivedOk_def)
    with r show ?thesis
      using l by (auto intro!: table_history [OF h1 own] simp: listOk_def)
  next
    case False
    with p(2) obtain c w2 where c: "makeSslSocket S p w1 = Inr (c, w2)"
      "storeClient S c l w2 = Inr (b, l', w')" by (auto simp: andThen_eq_Inr)
    have o2: "owned w2 (add_mset c ?N)" "c \<noteq> nullptr"
      using makeSslSocket_sat [OF ok False subset_refl, of S] c(1) by simp_all
    obtain s where s: "deref w2 c = Inr s" using owned_deref [OF o2(1) _ o2(2)] by auto
    have "history w1 w2" "nextPtr w1 \<le> c" using history_makeSsl [OF c(1)] by simp_all
    moreover from h1 have "nextPtr w \<le> nextPtr w1" by (simp add: history_def)
    ultimately have "history w w2" "nextPtr w \<le> c" using history_trans [OF h1] by simp_all
    then show ?thesis by (rule storeClient_table [OF _ _ own o2 s l c(2)])
  qed
qed

lemma dispatcherProcess_table:
  assumes own: "owned w (mset (sockets l) + M)" and u: "u \<in># M" "u \<noteq> nullptr"
    and f: "f \<in># M" "f \<noteq> nullptr" and l: "listOk MAX_SOCKETS l"
    and run: "dispatcherProcess S u f l w = Inr (b, l', w')"
  shows "tableSteps MAX_SOCKETS (tableOf l w) (tableOf l' w')"
proof -
  have o': "owned w' (mset (sockets l') + M)"
    using dispatcherProcess_sat [OF own u f l, of S] run by simp
  have same: "tableSteps MAX_SOCKETS (tableOf l w) (tableOf l w')" if "l' = l"
    using hist.dispatcherProcess [OF run] own o' l unfolding that
    by (auto intro!: table_history simp: listOk_def)
  show ?thesis
  proof (cases "l' = l")
    case False
    obtain s where s: "deref w u = Inr s" using owned_deref own u by force
    obtain r w1 where r: "k_recv S (descriptor s) 200 MSG_PEEK w = (r, w1)" by (metis surj_pair)
    have o1: "owned w1 (mset (sockets l) + M)" using own r owned_sameProc call_frame(2) by blast
    have "receiveClient S f l w1 = Inr (b, l', w')"
      using run False s r by (auto simp: dispatcherProcess_def Let_def andThen_eq_Inr split: if_splits)
    then have "tableSteps MAX_SOCKETS (tableOf l w1) (tableOf l' w')"
      by (rule receiveClient_table [OF o1 f l])
    moreover have "tableOf l w1 = tableOf l w"
      using sameProcD(1,2) [OF call_frame(2) [OF r]]
      by (simp add: tableOf_def entriesOf_def session_def deref_cong [of w1 w])
    ultimately show ?thesis by simp
  qed (use same in simp)
qed

text \<open>A client that is taken out is the first with its descriptor.\<close>

lemma eraseFirst_split:
  "eraseFirst w p qs = Inr (r, rest) \<Longrightarrow>
   (case r of None \<Rightarrow> rest = qs
    | Some q \<Rightarrow> \<exists>xs ys sq. qs = xs @ q # ys \<and> rest = xs @ ys \<and> deref w q = Inr sq \<and>
        (\<forall>x \<in> set xs. \<exists>sx. deref w x = Inr sx \<and> descriptor sx \<noteq> descriptor sq))"
proof (induction qs arbitrary: r rest)
  case (Cons a qs)
  then obtain sa sp where d: "deref w a = Inr sa" "deref w p = Inr sp" by (auto simp: andThen_eq_Inr)
  show ?case
  proof (cases "descriptor sa = descriptor sp")
    case True
    with d Cons.prems have "r = Some a" "rest = qs" by auto
    with d(1) have "a # qs = [] @ a # qs \<and> rest = [] @ qs \<and> deref w a = Inr sa" by simp
    with \<open>r = Some a\<close> show ?thesis by fastforce
  next
    case False
    with d Cons.prems obtain rest' where r: "eraseFirst w p qs = Inr (r, rest')" "rest = a # rest'"
      by (auto simp: andThen_eq_Inr)
    show ?thesis
    proof (cases r)
      case (Some q)
      with Cons.IH [OF r(1)] obtain xs ys sq where q: "qs = xs @ q # ys" "rest' = xs @ ys" "deref w q = Inr sq"
        "\<forall>x \<in> set xs. \<exists>sx. deref w x = Inr sx \<and> descriptor sx \<noteq> descriptor sq" by auto
      have "descriptor sq = descriptor sp"
        using r(1) Some q(3) d(2) by (induction qs arbitrary: rest') (auto simp: andThen_eq_Inr split: if_splits)
      with False d(1) q r(2) have "a # qs = (a # xs) @ q # ys \<and> rest = (a # xs) @ ys \<and> deref w q = Inr sq \<and>
        (\<forall>x \<in> set (a # xs). \<exists>sx. deref w x = Inr sx \<and> descriptor sx \<noteq> descriptor sq)" by auto
      then have "\<exists>xs ys sq. a # qs = xs @ q # ys \<and> rest = xs @ ys \<and> deref w q = Inr sq \<and>
        (\<forall>x \<in> set xs. \<exists>sx. deref w x = Inr sx \<and> descriptor sx \<noteq> descriptor sq)" by (intro exI)
      with Some show ?thesis by simp
    qed (use Cons.IH [OF r(1)] r(2) in simp)
  qed
qed simp


lemma delSocket_table:
  assumes own: "owned w (mset (sockets l) + M)" and p: "p \<in># mset (sockets l) + M" "p \<noteq> nullptr"
    and l: "listOk cap l" and run: "delSocket S p l w = Inr (b, l', w')"
  shows "tableSteps cap (tableOf l w) (tableOf l' w')"
proof (cases "length (sockets l) = maxSize l")
  case True
  with run show ?thesis by simp
next
  case False
  obtain r rest where e: "eraseFirst w p (sockets l) = Inr (r, rest)"
    "(case r of None \<Rightarrow> Inr (False, l, w) | Some q \<Rightarrow>
       andThen (releasePtr S q w) (\<lambda>w1. Inr (True, l\<lparr>sockets := rest\<rparr>, w1))) = Inr (b, l', w')"
    using run False by (auto simp: delSocket_def andThen_eq_Inr)
  show ?thesis
  proof (cases r)
    case None
    with e(2) show ?thesis by simp
  next
    case (Some q)
    with e(2) have l': "l' = l\<lparr>sockets := rest\<rparr>" "releasePtr S q w = Inr w'" by (auto simp: andThen_eq_Inr)
    from eraseFirst_split [OF e(1)] Some obtain xs ys sq where q: "sockets l = xs @ q # ys" "rest = xs @ ys"
      "deref w q = Inr sq" "\<forall>x \<in> set xs. \<exists>sx. deref w x = Inr sx \<and> descriptor sx \<noteq> descriptor sq" by auto
    have "\<forall>(j, fd', st') \<in> set (map (session w) xs). fd' \<noteq> descriptor sq" using q(4) by force
    then have "tableStep cap (nextPtr w, map (session w) xs @ (q, descriptor sq, clientStatus sq) # map (session w) ys)
        (nextPtr w, map (session w) xs @ map (session w) ys)"
      using False l q(1) by (intro tableStep.leave) (auto simp: listOk_def)
    then have "tableStep cap (tableOf l w) (tableOf l' w)"
      using q(1-3) by (simp add: tableOf_def entriesOf_def l'(1))
    moreover have "owned w' (mset (sockets l') + M)"
      using delSocket_sat [OF own p l, of "{}" S] run by simp
    then have "tableSteps cap (tableOf l' w) (tableOf l' w')"
      using history_release [OF l'(2)] own l q(1,2)
      by (intro table_history [OF _ own, of _ "mset (sockets l') + M"]) (auto simp: listOk_def l'(1))
    ultimately show ?thesis by (rule converse_rtranclp_into_rtranclp)
  qed
qed

section \<open>A round and a run\<close>

interpretation table: list_invariant "\<lambda>l w. tableSteps MAX_SOCKETS t (tableOf l w)" S u for S :: "'k sys" and u t
proof (unfold_locales, goal_cases)
  case (1 l w w' M M')
  from table_history [OF 1(2-6)] show ?case by (rule rtranclp_trans [OF 1(1)])
next
  case (2 l w M b l' w')
  from dispatcherProcess_table [OF 2(2-4,3-6)] show ?case by (rule rtranclp_trans [OF 2(1)])
next
  case (3 l w M p b l' w')
  from delSocket_table [OF 3(2-6)] show ?case by (rule rtranclp_trans [OF 3(1)])
qed

lemma dispatcher_table_start:
  assumes "owned w {#u#}" "deref w u = Inr su" "dispatcherStart u w = Inr d"
  shows "dispatcherTable d = (nextPtr w, [(u, descriptor su, clientStatus su)])"
proof -
  obtain w1 b l where s: "sharePtr u w = Inr w1" "putSocket u (newSocketsList MAX_SOCKETS) w1 = Inr (b, l, world d)"
    "socketsList d = l" using assms(3) by (auto simp: dispatcherStart_def outcome_simps)
  have "sockets l = [u]" "deref (world d) u = Inr su"
    using s(1,2) assms(2) by (auto simp: putSocket_def newSocketsList_def MAX_SOCKETS_def outcome_simps deref_share)
  moreover have "nextPtr (world d) = nextPtr w"
    using s(1,2) by (auto simp: putSocket_def outcome_simps split: if_splits dest!: nextPtr_share)
  ultimately show ?thesis by (simp add: tableOf_def entriesOf_def s(3))
qed

lemma dispatcher_table_run:
  assumes "dispatcherInv u d1" "dispatcherReaches S u u d1 d2"
  shows "tableSteps MAX_SOCKETS (dispatcherTable d1) (dispatcherTable d2)"
  using table.run [OF assms(2,1), of "dispatcherTable d1"] by simp

text \<open>
  C3. The dispatcher refines the table of sessions. Whatever the environment answers, its
  table starts with the UNIX socket alone, and between any two states of its run, one round or
  many apart, it goes through steps of the abstract table only: new clients join at the end
  under a new identity with their greeting due while there is room, a greeted client echoes,
  a goodbye ends a session, and the first entry with a descriptor leaves for good unless
  the table is full. So an entry of the later state that was there in the earlier one has
  kept its descriptor, and its status has moved from greeting to echo or to goodbye, if at all.
\<close>

theorem dispatcher_refines_table:
  assumes "owned w {#u#}" "deref w u = Inr su" "dispatcherStart u w = Inr d"
    and "dispatcherReaches S u u d d1" "dispatcherReaches S u u d1 d2"
  shows "dispatcherTable d = (nextPtr w, [(u, descriptor su, clientStatus su)]) \<and>
    tableSteps MAX_SOCKETS (dispatcherTable d) (dispatcherTable d1) \<and>
    tableSteps MAX_SOCKETS (dispatcherTable d1) (dispatcherTable d2) \<and>
    (\<forall>(i, fd, st') \<in> set (snd (dispatcherTable d2)). i < fst (dispatcherTable d1) \<longrightarrow>
       (\<exists>st. (i, fd, st) \<in> set (snd (dispatcherTable d1)) \<and> speaks st st'))"
proof -
  have "u \<noteq> nullptr" using assms(2) by (cases "u = nullptr") (simp_all add: deref_def)
  then have inv: "dispatcherInv u d" using dispatcherStart_inv [OF assms(1)] assms(3) by auto
  then have "dispatcherInv u d1" using dl.reaches_inv [OF assms(4)] by blast
  note steps = dispatcher_table_run [OF this assms(5)]
  from dispatcher_table_start [OF assms(1-3)] dispatcher_table_run [OF inv assms(4)] steps
    table_remembers [OF steps] show ?thesis by auto
qed

theorem dispatcher_refines_table_witness:
  "\<exists>d d1. dispatcherStart 1 honestWorld = Inr d \<and> dispatcherReaches honestSys 1 1 d d1 \<and>
    tableSteps 10 (2, [(1, 3, NO_STATUS)]) (dispatcherTable d1) \<and>
    (\<exists>i. (i, 9, HELLO) \<in> set (snd (dispatcherTable d1)) \<and> 2 \<le> i)"
proof -
  obtain d d1 where d: "dispatcherStart 1 honestWorld = Inr d" "dispatcherReaches honestSys 1 1 d d1"
    and t: "\<exists>c s. c \<in> set (sockets (socketsList d1)) \<and> deref (world d1) c = Inr s \<and> descriptor s = 9 \<and> clientStatus s = HELLO"
    using honest_run by blast
  have u: "deref honestWorld 1 = Inr (exampleSock 3 UNIX)" "nextPtr honestWorld = 2"
    by (simp_all add: deref_def exampleWorld_def)
  from dispatcher_refines_table [OF honestWorld_owned u(1) d(1) loopReaches.start d(2)]
  have r: "tableSteps 10 (2, [(1, 3, NO_STATUS)]) (dispatcherTable d1)"
    "\<forall>(i, fd, st) \<in> set (snd (dispatcherTable d1)). i < 2 \<longrightarrow> fd = 3"
    using u(2) by (auto simp: exampleSock_def MAX_SOCKETS_def tableOf_def numeral_2_eq_2)
  moreover obtain i where i: "(i, 9, HELLO) \<in> set (snd (dispatcherTable d1))"
    using t by (force simp: tableOf_def entriesOf_def)
  moreover from r(2) i have "2 \<le> i" by fastforce
  ultimately show ?thesis using d by blast
qed

end
