(* ===== verification/DispatcherRounds.thy ===== *)
theory DispatcherRounds
  imports DispatcherMain DispatcherMessages SessionTable
begin

text \<open>
  Whole rounds of the dispatcher's loop as a client sees them: the list never holds a socket
  twice, a client whose descriptor is waiting joins the list within the round, and a client
  whose message is waiting is answered within the round.
\<close>

section \<open>The list holds no socket twice\<close>

lemma receiveClient_distinct:
  assumes "owned w (mset (sockets l) + M)" "distinct (sockets l)" "receiveClient S f l w = Inr (b, l', w')"
  shows "distinct (sockets l')"
proof -
  from assms(3) obtain p w1 where p: "createReceivedSocket S f w = Inr (p, w1)"
    "(if p = nullptr then Inr (False, l, w1) else andThen (makeSslSocket S p w1) (\<lambda>(c, w2). storeClient S c l w2)) =
       Inr (b, l', w')" by (auto simp: receiveClient_def andThen_eq_Inr)
  then consider "l' = l" | c w2 where "makeSslSocket S p w1 = Inr (c, w2)" "storeClient S c l w2 = Inr (b, l', w')"
    by (cases "p = nullptr") (auto simp: andThen_eq_Inr)
  then show ?thesis
  proof cases
    case (2 c w2)
    have "nextPtr w \<le> nextPtr w1" using history_received [OF p(1)] by (simp add: history_def)
    then have "nextPtr w \<le> c" using history_makeSsl [OF 2(1)] by simp
    moreover have "x < nextPtr w" if "x \<in> set (sockets l)" for x
      using assms(1) that by (auto simp: owned_def)
    ultimately have "c \<notin> set (sockets l)" by fastforce
    then show ?thesis
      using 2(2) assms(2) by (auto simp: storeClient_def putSocket_def outcome_simps split: if_splits)
  qed (use assms(2) in simp)
qed

lemma dispatcherProcess_distinct:
  assumes "owned w (mset (sockets l) + M)" "distinct (sockets l)" "dispatcherProcess S u f l w = Inr (b, l', w')"
  shows "distinct (sockets l')"
proof -
  from assms(3) obtain s where s: "deref w u = Inr s" by (auto simp: dispatcherProcess_def andThen_eq_Inr)
  obtain r w1 where r: "k_recv S (descriptor s) 200 MSG_PEEK w = (r, w1)" by (metis surj_pair)
  have o1: "owned w1 (mset (sockets l) + M)" using assms(1) r owned_sameProc call_frame(2) by blast
  have "l' = l \<or> receiveClient S f l w1 = Inr (b, l', w')"
    using assms(3) s r by (auto simp: dispatcherProcess_def Let_def andThen_eq_Inr split: if_splits)
  then show ?thesis using receiveClient_distinct [OF o1 assms(2)] assms(2) by blast
qed

lemma delSocket_distinct:
  assumes "distinct (sockets l)" "delSocket S p l w = Inr (b, l', w')"
  shows "distinct (sockets l')"
proof -
  have "l' = l \<or> (\<exists>r. eraseFirst w p (sockets l) = Inr (r, sockets l'))"
    using assms(2) by (auto simp: delSocket_def andThen_eq_Inr split: if_splits option.splits)
  then show ?thesis
  proof
    assume "\<exists>r. eraseFirst w p (sockets l) = Inr (r, sockets l')"
    then obtain r where "eraseFirst w p (sockets l) = Inr (r, sockets l')" ..
    from eraseFirst_split [OF this] assms(1) show ?thesis by (cases r) auto
  qed (use assms(1) in simp)
qed

interpretation distinct: list_invariant "\<lambda>l w. distinct (sockets l)" S u for S :: "'k sys" and u
proof (unfold_locales, goal_cases)
  case (2 l w M b l' w')
  from dispatcherProcess_distinct [OF 2(2,1,6)] show ?case .
next
  case (3 l w M p b l' w')
  then show ?case using delSocket_distinct by blast
qed

lemma dispatcherStart_distinct: "dispatcherStart u w = Inr d \<Longrightarrow> distinct (sockets (socketsList d))"
  by (auto simp: dispatcherStart_def outcome_simps putSocket_def newSocketsList_def MAX_SOCKETS_def)

section \<open>Before the poll\<close>

text \<open>Before \<^verbatim>\<open>poll\<close> only the requested bits of the sockets change.\<close>

lemma requestClientReads_events:
  "requestClientReads ps w = Inr w' \<Longrightarrow> deref w p = Inr s \<Longrightarrow>
   trace w' = trace w \<and> (\<exists>e. deref w' p = Inr (s\<lparr>events := e\<rparr>))"
proof (induction ps arbitrary: w s)
  case Nil
  then show ?case by (auto intro: exI [of _ "events s"])
next
  case (Cons q ps)
  from Cons.prems(1) obtain sq w1 where q: "deref w q = Inr sq" "requestClientReads ps w1 = Inr w'"
    "(if socketType sq \<noteq> UNIX then modifyObj pollForRead q w else Inr w) = Inr w1"
    by (auto simp: outcome_simps)
  then obtain e where e: "deref w1 p = Inr (s\<lparr>events := e\<rparr>)" "trace w1 = trace w"
    using Cons.prems(2) modify_known [OF q(1), of pollForRead]
    by (cases "socketType sq = UNIX"; cases "p = q")
      (auto simp: sock_defs intro: that [of "events s"] that)
  from Cons.IH [OF q(2) e(1)] e(2) show ?case by auto
qed

lemma requestClientReads_buffers: "requestClientReads ps w = Inr w' \<Longrightarrow> keepsBuffers w w'"
  by (induction ps arbitrary: w)
    (auto simp: outcome_simps split: if_splits dest!: buffers.methods intro: keepsBuffers_trans)

text \<open>What happens before the poll of a round, seen from one socket of the list.\<close>

lemma dispatcherRound_prepares:
  assumes "dispatcherInv u d" "p \<in> set (sockets (socketsList d))" "deref (world d) p = Inr s"
  shows "\<exists>re w gone e. dispatcherRound S u u d = pollAndProcess S u u (d\<lparr>reSocketsList := re, world := w\<rparr>) \<and>
    sockets re = [] \<and> 0 < maxSize re \<and> owned w (mset (sockets (socketsList d)) + {#u, u#}) \<and>
    listOk MAX_SOCKETS (socketsList d) \<and> deref w p = Inr (s\<lparr>events := e\<rparr>) \<and> keepsBuffers (world d) w \<and>
    trace w = trace (world d) @ concat (map destroyEvents gone)"
proof -
  let ?M = "mset (sockets (socketsList d)) + {#u, u#}"
  from assms(1) have own: "owned (world d) (mset (sockets (reSocketsList d)) + ?M)" and u: "u \<noteq> nullptr"
    and ok: "listOk MAX_SOCKETS (socketsList d)" "listOk MAX_SOCKETS (reSocketsList d)"
    by (auto simp: dispatcherInv_def ac_simps)
  have "p \<noteq> nullptr" using assms(2) ok(1) unfolding listOk_def by metis
  then have pl: "p \<in># ?M" "p \<noteq> nullptr" using assms(2) by simp_all
  obtain w1 where w1: "modifyObj pollForRead u (world d) = Inr w1" "owned w1 (mset (sockets (reSocketsList d)) + ?M)"
    using owned_modify [OF own, of u pollForRead] u by auto
  then obtain e1 where e1: "deref w1 p = Inr (s\<lparr>events := e1\<rparr>)" "trace w1 = trace (world d)"
  proof -
    obtain su where su: "deref (world d) u = Inr su" using modifyObj_deref [OF w1(1)] ..
    have "deref w1 p = Inr (s\<lparr>events := if p = u then events s OR POLLIN else events s\<rparr>)" "trace w1 = trace (world d)"
      using modify_known [OF su, of pollForRead] w1(1) assms(3) su by (auto simp: sock_defs)
    then show thesis by (rule that)
  qed
  obtain re1 w2 where w2: "clearSockets S (reSocketsList d) w1 = Inr (re1, w2)" "owned w2 ?M"
    "re1 = (reSocketsList d)\<lparr>sockets := []\<rparr>"
    using clearSockets_sat [OF w1(2), of "{}" S] by (auto dest!: sat_emptyD)
  have d2: "deref w2 p = Inr (s\<lparr>events := e1\<rparr>)"
    using owned_deref [OF w2(2) pl] clear_keeps_obj [OF w2(1)] e1(1) by force
  obtain gone where gone: "trace w2 = trace w1 @ concat (map destroyEvents gone)"
    using clear_destroys [OF w2(1)] by blast
  obtain w3 where w3: "requestClientReads (sockets (socketsList d)) w2 = Inr w3" "owned w3 ?M"
    using requestClientReads_sat [OF w2(2), of "sockets (socketsList d)" "{}"] ok(1)
    by (auto simp: listOk_def dest!: sat_emptyD)
  obtain e3 where d3: "deref w3 p = Inr (s\<lparr>events := e3\<rparr>)" "trace w3 = trace w2"
    using requestClientReads_events [OF w3(1) d2] by auto
  have "keepsBuffers w2 w3" by (rule requestClientReads_buffers [OF w3(1)])
  then have "keepsBuffers (world d) w3"
    using buffers.methods(1) [OF w1(1)] buffers.clear [OF w2(1)] keepsBuffers_trans by blast
  with w1 w2 w3 d3 ok gone e1(2) show ?thesis
    by (intro exI [of _ re1] exI [of _ w3] exI [of _ gone] exI [of _ e3])
      (auto simp: dispatcherRound_def listOk_def MAX_SOCKETS_def)
qed

section \<open>A round takes a client\<close>

text \<open>
  The environment in which the listener's message on the UNIX socket \<open>su\<close>, and nothing else,
  is waiting: two null bytes that carry the descriptor \<open>fd\<close>; and there is memory for an SSL
  object.
\<close>

definition clientArrives :: "'k sys \<Rightarrow> int \<Rightarrow> int \<Rightarrow> bool" where
  "clientArrives S su fd \<longleftrightarrow> onlyReady S 0 \<and> 0 < fd \<and>
     (\<forall>k. fst (sys_recv S su 200 MSG_PEEK k) = Data [NUL, NUL]) \<and>
     (\<forall>k. fst (sys_recvmsg S su 128 k) = (Data [NUL, NUL], Some fd)) \<and>
     (\<forall>ctx k. fst (SSL_new S ctx k) \<noteq> 0)"

lemma pollAndProcess_takes:
  assumes own: "owned (world d) (mset (sockets (socketsList d)) + M)" and l: "listOk MAX_SOCKETS (socketsList d)"
    and re: "sockets (reSocketsList d) = []" "0 < maxSize (reSocketsList d)" and di: "distinct (sockets (socketsList d))"
    and first: "sockets (socketsList d) = u # ps" and room: "length (sockets (socketsList d)) \<noteq> maxSize (socketsList d)"
    and s: "deref (world d) u = Inr su" "socketType su = UNIX"
    and buf: "recvCmsg (world d) \<noteq> None" and env: "clientArrives S (descriptor su) fd"
  shows "\<exists>d' fds r c b ssl ctx. pollAndProcess S u u d = Inr d' \<and> \<not> dispatcherFailed d' \<and>
    socketsList d' = (socketsList d)\<lparr>sockets := sockets (socketsList d) @ [c]\<rparr> \<and> c \<notin> set (sockets (socketsList d)) \<and>
    deref (world d') c = Inr \<lparr>dynClass = SslSocket b ssl, protectDescriptor = False, descriptor = fd,
      events = POLLOUT, revents = 0, socketType = SSL, listenSocket = False, clientStatus = HELLO\<rparr> \<and>
    trace (world d') = trace (world d) @ [Io (EvPoll fds r), Io (EvRecv (descriptor su) 200 MSG_PEEK (Data [NUL, NUL])),
      Io (EvRecvmsg (descriptor su) 128 (Data [NUL, NUL]) (Some fd)), Tls (EvBioNew fd 0 b),
      Tls (EvSslNew ctx ssl), Tls (EvSslSetBio ssl b)]"
proof -
  let ?l = "socketsList d"
  have nn: "nullptr \<notin> set (sockets ?l)" "length (sockets ?l) \<le> MAX_SOCKETS_TO_POLL"
    using l by (auto simp: listOk_def MAX_SOCKETS_def MAX_SOCKETS_TO_POLL_def)
  have own': "owned (world d) (mset (sockets ?l) + mset (sockets (reSocketsList d)) + M)"
    using own re(1) by simp
  obtain e re2 w4 where p: "pollSockets S ?l (reSocketsList d) (world d) = Inr (e, re2, w4)"
    "owned w4 (mset (sockets ?l) + mset (sockets re2) + M)"
    using pollSockets_owned [OF own' nn, where S = S] re by auto
  have "\<forall>q \<in> set (sockets ?l). \<exists>s. deref (world d) q = Inr s" using owned_deref [OF own] nn(1) by fastforce
  then obtain so where so: "\<forall>q \<in> set (sockets ?l). deref (world d) q = Inr (so q)" by metis
  have small: "length (sockets ?l) \<le> 1024" using nn(2) by (simp add: MAX_SOCKETS_TO_POLL_def)
  have "so u = su" using so s(1) first by simp
  have ready: "onlyReady S 0" using env by (simp add: clientArrives_def)
  have i: "0 < length (sockets ?l)" using first by simp
  note one = pollSockets_one [OF ready p(1) i di so small re]
  have e: "e = NO_ERROR" and re2: "sockets re2 = [u]" using one first by simp_all
  obtain fds r where tr: "trace w4 = trace (world d) @ [Io (EvPoll fds r)]" using one by blast
  let ?s = "su\<lparr>events := 0, revents := POLLIN\<rparr>"
  have d4: "deref w4 u = Inr ?s" using one first \<open>so u = su\<close> by auto
  have live: "\<not> isDropped ?s" by (simp add: isDropped_def poll_bits)
  have "recvCmsg w4 \<noteq> None" using buffers.poll [OF p(1)] buf by (simp add: keepsBuffers_def)
  then obtain old where old: "recvCmsg w4 = Some old" by blast
  obtain k1 where k1: "sys_recv S (descriptor su) 200 MSG_PEEK (kern w4) = (Data [NUL, NUL], k1)"
    using env unfolding clientArrives_def by (metis prod.collapse)
  obtain k2 where k2: "sys_recvmsg S (descriptor su) 128 k1 = ((Data [NUL, NUL], Some fd), k2)" and fd: "0 < fd"
    using env unfolding clientArrives_def by (metis prod.collapse)
  have io: "sys_recv S (descriptor ?s) 200 MSG_PEEK (kern w4) = (Data [NUL, NUL], k1)"
    "sys_recvmsg S (descriptor ?s) 128 k1 = ((Data [NUL, NUL], Some fd), k2)" using k1 k2 by simp_all
  have ow: "owned w4 (mset (sockets ?l) + (mset (sockets re2) + M))" using p(2) by (simp add: ac_simps)
  obtain c v b ssl where t: "dispatcherProcess S u u ?l w4 = Inr (True, ?l\<lparr>sockets := sockets ?l @ [c]\<rparr>, v)"
    "c \<notin># mset (sockets ?l) + (mset (sockets re2) + M)"
    "deref v c = Inr \<lparr>dynClass = SslSocket b ssl, protectDescriptor = False, descriptor = fd,
      events = POLLOUT, revents = 0, socketType = SSL, listenSocket = False, clientStatus = HELLO\<rparr>"
    "trace v = trace w4 @ [Io (EvRecv (descriptor ?s) 200 MSG_PEEK (Data [NUL, NUL])),
      Io (EvRecvmsg (descriptor ?s) 128 (Data [NUL, NUL]) (Some fd)), Tls (EvBioNew fd 0 b),
      Tls (EvSslNew (sslGlobalCtx w4) ssl), Tls (EvSslSetBio ssl b)]"
    using dispatcherProcess_takes [OF ow d4 live old room io fd] env unfolding clientArrives_def by blast
  have "processReady S u u [u] ?l w4 = Inr (False, ?l\<lparr>sockets := sockets ?l @ [c]\<rparr>, v)"
    using d4 s(2) t(1) by simp
  then have "pollAndProcess S u u d = Inr \<lparr>dispatcherFailed = False, socketsList = ?l\<lparr>sockets := sockets ?l @ [c]\<rparr>,
      reSocketsList = re2, world = v\<rparr>"
    using p(1) e re2 by (simp add: pollAndProcess_def)
  with tr t(2-4) show ?thesis by auto
qed

lemma dispatcherRound_takes:
  assumes "dispatcherInv u d" "distinct (sockets (socketsList d))" "sockets (socketsList d) = u # ps"
    and "length (sockets (socketsList d)) \<noteq> maxSize (socketsList d)"
    and "deref (world d) u = Inr su" "socketType su = UNIX" "recvCmsg (world d) \<noteq> None"
    and "clientArrives S (descriptor su) fd"
  shows "\<exists>d' gone fds r c b ssl ctx. dispatcherRound S u u d = Inr d' \<and> \<not> dispatcherFailed d' \<and>
    socketsList d' = (socketsList d)\<lparr>sockets := sockets (socketsList d) @ [c]\<rparr> \<and> c \<notin> set (sockets (socketsList d)) \<and>
    deref (world d') c = Inr \<lparr>dynClass = SslSocket b ssl, protectDescriptor = False, descriptor = fd,
      events = POLLOUT, revents = 0, socketType = SSL, listenSocket = False, clientStatus = HELLO\<rparr> \<and>
    trace (world d') = trace (world d) @ concat (map destroyEvents gone) @ [Io (EvPoll fds r),
      Io (EvRecv (descriptor su) 200 MSG_PEEK (Data [NUL, NUL])),
      Io (EvRecvmsg (descriptor su) 128 (Data [NUL, NUL]) (Some fd)), Tls (EvBioNew fd 0 b),
      Tls (EvSslNew ctx ssl), Tls (EvSslSetBio ssl b)]"
proof -
  have "u \<in> set (sockets (socketsList d))" using assms(3) by simp
  from dispatcherRound_prepares [OF assms(1) this assms(5), of S] obtain re w gone e where
    w: "dispatcherRound S u u d = pollAndProcess S u u (d\<lparr>reSocketsList := re, world := w\<rparr>)"
    "sockets re = []" "0 < maxSize re" "owned w (mset (sockets (socketsList d)) + {#u, u#})"
    "listOk MAX_SOCKETS (socketsList d)" "deref w u = Inr (su\<lparr>events := e\<rparr>)" "keepsBuffers (world d) w"
    "trace w = trace (world d) @ concat (map destroyEvents gone)" by blast
  let ?d = "d\<lparr>reSocketsList := re, world := w\<rparr>" and ?s = "su\<lparr>events := e\<rparr>"
  have d: "socketsList ?d = socketsList d" "world ?d = w" "reSocketsList ?d = re" by simp_all
  have s: "socketType ?s = UNIX" "descriptor ?s = descriptor su" using assms(6) by simp_all
  have "recvCmsg w \<noteq> None" using w(7) assms(7) by (simp add: keepsBuffers_def)
  from pollAndProcess_takes [of ?d "{#u, u#}" u ps ?s S fd, unfolded d s(2), OF w(4,5,2,3) assms(2,3,4) w(6) s(1) this assms(8)]
  show ?thesis unfolding w(1,8) by (elim exE) (rule exI, rule exI [of _ gone], fastforce)
qed

section \<open>A round answers a client\<close>

text \<open>
  The environment in which the client at place \<open>i\<close>, and nobody else, has sent \<open>bs\<close>; a write
  to it gives \<open>n\<close>.
\<close>

definition clientSpeaks :: "'k sys \<Rightarrow> nat \<Rightarrow> handle \<Rightarrow> string \<Rightarrow> int \<Rightarrow> bool" where
  "clientSpeaks S i b bs n \<longleftrightarrow>
     onlyReady S i \<and> (\<forall>k. fst (BIO_read S b 100 k) = Data bs) \<and> (\<forall>m k. fst (BIO_write S b m k) = n)"


text \<open>The part after the preparations: the poll finds the client, its turn makes the two calls.\<close>

lemma pollAndProcess_answers:
  assumes own: "owned (world d) (mset (sockets (socketsList d)) + M)" and l: "listOk MAX_SOCKETS (socketsList d)"
    and re: "sockets (reSocketsList d) = []" "0 < maxSize (reSocketsList d)" and di: "distinct (sockets (socketsList d))"
    and i: "i < length (sockets (socketsList d))" "sockets (socketsList d) ! i = p"
    and s: "deref (world d) p = Inr s" "socketType s = SSL" "castSslSocket (dynClass s) = Some b"
      "clientStatus s \<noteq> NO_STATUS"
    and env: "clientSpeaks S i b bs n" and bs: "4 \<le> length bs"
    and st: "st = hears bs (clientStatus s)" "st \<noteq> BYE" and n: "n \<noteq> -1"
  shows "\<exists>d' fds r. pollAndProcess S u f d = Inr d' \<and> \<not> dispatcherFailed d' \<and> socketsList d' = socketsList d \<and>
    trace (world d') = trace (world d) @ [Io (EvPoll fds r), Tls (EvBioRead b 100 (Data bs)),
      Tls (EvBioWrite b (answers st) n)] \<and>
    deref (world d') p = Inr (s\<lparr>clientStatus := afterAnswer st, events := 0, revents := POLLOUT\<rparr>)"
proof -
  let ?l = "socketsList d"
  have nn: "nullptr \<notin> set (sockets ?l)" "length (sockets ?l) \<le> MAX_SOCKETS_TO_POLL"
    using l by (auto simp: listOk_def MAX_SOCKETS_def MAX_SOCKETS_TO_POLL_def)
  have own': "owned (world d) (mset (sockets ?l) + mset (sockets (reSocketsList d)) + M)"
    using own re(1) by simp
  obtain e re2 w4 where p: "pollSockets S ?l (reSocketsList d) (world d) = Inr (e, re2, w4)"
    using pollSockets_owned [OF own' nn, where S = S] re by auto
  have "\<forall>q \<in> set (sockets ?l). \<exists>s. deref (world d) q = Inr s" using owned_deref [OF own] nn(1) by fastforce
  then obtain so where so: "\<forall>q \<in> set (sockets ?l). deref (world d) q = Inr (so q)" by metis
  have "p \<in> set (sockets ?l)" using i by auto
  then have sp: "so p = s" using so s(1) by simp
  have small: "length (sockets ?l) \<le> 1024"
    and room: "length (sockets (reSocketsList d)) \<le> maxSize (reSocketsList d)"
    using nn(2) re by (simp_all add: MAX_SOCKETS_TO_POLL_def)
  have ready: "onlyReady S i" using env by (simp add: clientSpeaks_def)
  note one = pollSockets_one [OF ready p i(1) di so small re]
  have e: "e = NO_ERROR" and re2: "sockets re2 = [p]" using one i(2) by simp_all
  obtain fds r where tr: "trace w4 = trace (world d) @ [Io (EvPoll fds r)]" using one by blast
  let ?s = "s\<lparr>events := 0, revents := POLLIN\<rparr>"
  have d4: "deref w4 p = Inr ?s" using one i sp by auto
  obtain k1 k2 where io: "BIO_read S b 100 (kern w4) = (Data bs, k1)" "BIO_write S b (answers st) k1 = (n, k2)"
    using env unfolding clientSpeaks_def by (metis prod.collapse)
  have c: "clientStatus ?s = clientStatus s" "dynClass ?s = dynClass s" "\<not> isDropped ?s" "isReadAvailable ?s"
    by (simp_all add: isDropped_def isReadAvailable_def poll_bits)
  obtain w5 where w5: "processClient S p w4 = Inr (st \<noteq> BYE \<and> n \<noteq> -1, w5)"
    "trace w5 = trace w4 @ [Tls (EvBioRead b 100 (Data bs)), Tls (EvBioWrite b (answers st) n)]"
    "deref w5 p = Inr (?s\<lparr>clientStatus := afterAnswer st, revents := POLLOUT\<rparr>)"
    using processClient_answers [OF d4 _ _ c(3,4) io(1) bs _ io(2)] s(3,4) st(1) c(1,2) by auto
  have "processReady S u f [p] ?l w4 = Inr (False, ?l, w5)"
    using d4 s(2) w5(1) st(2) n by simp
  then have "pollAndProcess S u f d = Inr \<lparr>dispatcherFailed = False, socketsList = ?l, reSocketsList = re2, world = w5\<rparr>"
    using p e re2 by (simp add: pollAndProcess_def)
  with tr w5(2,3) show ?thesis by simp
qed


lemma dispatcherRound_answers:
  assumes "dispatcherInv u d" "distinct (sockets (socketsList d))"
    and "i < length (sockets (socketsList d))" "sockets (socketsList d) ! i = p"
    and "deref (world d) p = Inr s" "socketType s = SSL" "castSslSocket (dynClass s) = Some b"
    and "clientStatus s \<noteq> NO_STATUS" "clientSpeaks S i b bs n" "4 \<le> length bs"
    and "st = hears bs (clientStatus s)" "st \<noteq> BYE" "n \<noteq> -1"
  shows "\<exists>d' gone fds r. dispatcherRound S u u d = Inr d' \<and> \<not> dispatcherFailed d' \<and> socketsList d' = socketsList d \<and>
    trace (world d') = trace (world d) @ concat (map destroyEvents gone) @ [Io (EvPoll fds r),
      Tls (EvBioRead b 100 (Data bs)), Tls (EvBioWrite b (answers st) n)] \<and>
    deref (world d') p = Inr (s\<lparr>clientStatus := afterAnswer st, events := 0, revents := POLLOUT\<rparr>)"
proof -
  have "p \<in> set (sockets (socketsList d))" using assms(3,4) nth_mem by blast
  from dispatcherRound_prepares [OF assms(1) this assms(5), of S] obtain re w gone e where
    w: "dispatcherRound S u u d = pollAndProcess S u u (d\<lparr>reSocketsList := re, world := w\<rparr>)"
    "sockets re = []" "0 < maxSize re" "owned w (mset (sockets (socketsList d)) + {#u, u#})"
    "listOk MAX_SOCKETS (socketsList d)" "deref w p = Inr (s\<lparr>events := e\<rparr>)"
    "trace w = trace (world d) @ concat (map destroyEvents gone)" by blast
  let ?d = "d\<lparr>reSocketsList := re, world := w\<rparr>" and ?s = "s\<lparr>events := e\<rparr>"
  have "\<exists>d' fds r. pollAndProcess S u u ?d = Inr d' \<and> \<not> dispatcherFailed d' \<and> socketsList d' = socketsList ?d \<and>
    trace (world d') = trace (world ?d) @ [Io (EvPoll fds r), Tls (EvBioRead b 100 (Data bs)),
      Tls (EvBioWrite b (answers st) n)] \<and>
    deref (world d') p = Inr (?s\<lparr>clientStatus := afterAnswer st, events := 0, revents := POLLOUT\<rparr>)"
    by (rule pollAndProcess_answers [where M = "{#u, u#}" and i = i])
      (use assms w in \<open>simp_all\<close>)
  then show ?thesis using w(1,7) by auto
qed

text \<open>
  C8. A whole round answers a client. When the poll of a round finds one client readable, at
  any place of the list, and its message has at least four bytes and is not a goodbye, the
  round first destroys what the last one left over, then polls and makes exactly the read and
  the write of the answer that the session calls for, and no other call; it leaves the list
  as it was and the client in the status after the answer.
\<close>

theorem round_answers_client:
  assumes "dispatcherInv u d" "distinct (sockets (socketsList d))"
    and "i < length (sockets (socketsList d))" "sockets (socketsList d) ! i = p"
    and "deref (world d) p = Inr s" "socketType s = SSL" "castSslSocket (dynClass s) = Some b"
    and "clientStatus s \<noteq> NO_STATUS" "clientSpeaks S i b bs n" "4 \<le> length bs"
    and "st = hears bs (clientStatus s)" "st \<noteq> BYE" "n \<noteq> -1"
  shows "\<exists>d' gone fds r. dispatcherRound S u u d = Inr d' \<and> \<not> dispatcherFailed d' \<and> socketsList d' = socketsList d \<and>
    trace (world d') = trace (world d) @ concat (map destroyEvents gone) @ [Io (EvPoll fds r),
      Tls (EvBioRead b 100 (Data bs)), Tls (EvBioWrite b (answers st) n)] \<and>
    deref (world d') p = Inr (s\<lparr>clientStatus := afterAnswer st, events := 0, revents := POLLOUT\<rparr>)"
  by (rule dispatcherRound_answers [OF assms])

definition speakingSys :: "script sys" where
  "speakingSys = replay\<lparr>
     sys_poll := (\<lambda>fds k. (\<lparr>pollRet = 1, pollErrno = 0, pollRevents = (\<lambda>j. if j = 1 then POLLIN else 0)\<rparr>, k)),
     BIO_read := (\<lambda>b n k. (Data ''ping'', k)), BIO_write := (\<lambda>b m k. (10, k))\<rparr>"

theorem round_answers_client_witness:
  "\<exists>d'. dispatcherRound speakingSys 1 1
      \<lparr>dispatcherFailed = False, socketsList = \<lparr>sockets = [1, 2], maxSize = 10\<rparr>,
       reSocketsList = \<lparr>sockets = [], maxSize = 10\<rparr>,
       world = (exampleWorld [exampleSock 3 UNIX, exampleClient HELLO 0] [])
         \<lparr>heap := [1 \<mapsto> \<lparr>obj = exampleSock 3 UNIX, useCount = 3\<rparr>,
           2 \<mapsto> \<lparr>obj = exampleClient HELLO 0, useCount = 1\<rparr>]\<rparr>\<rparr> = Inr d' \<and>
    last (trace (world d')) = Tls (EvBioWrite 20 (''HELLO!!!!'' @ [NL]) 10)"
proof -
  let ?d = "\<lparr>dispatcherFailed = False, socketsList = \<lparr>sockets = [1, 2], maxSize = 10\<rparr>,
       reSocketsList = \<lparr>sockets = [], maxSize = 10\<rparr>,
       world = (exampleWorld [exampleSock 3 UNIX, exampleClient HELLO 0] [])
         \<lparr>heap := [1 \<mapsto> \<lparr>obj = exampleSock 3 UNIX, useCount = 3\<rparr>,
           2 \<mapsto> \<lparr>obj = exampleClient HELLO 0, useCount = 1\<rparr>]\<rparr>\<rparr>"
  have inv: "dispatcherInv 1 ?d"
    by (simp add: dispatcherInv_def owned_def ownersOf_def listOk_def MAX_SOCKETS_def)
  have env: "clientSpeaks speakingSys 1 20 ''ping'' 10"
    by (simp add: clientSpeaks_def onlyReady_def speakingSys_def)
  have c: "deref (world ?d) 2 = Inr (exampleClient HELLO 0)" by (simp add: deref_def)
  from round_answers_client [OF inv _ _ _ c _ _ _ env, of HELLO] show ?thesis
    by (auto simp: exampleClient_def hears_def)
qed

end
