(* ===== verification/Conversation.thy ===== *)
theory Conversation
  imports DescriptorLedger
begin

text \<open>
  What a client hears from the dispatcher (\<^verbatim>\<open>mydisp.cpp\<close>): the messages written to its TLS
  connection over a whole run are those of a session, whatever the environment does and
  whatever else the dispatcher is busy with.
\<close>

section \<open>The messages of a session\<close>

abbreviation GREETING :: string where "GREETING \<equiv> ''HELLO!!!!'' @ [NL]"
abbreviation ECHOED :: string where "ECHOED \<equiv> ''ECHOO!!!!'' @ [NL]"
abbreviation FAREWELL :: string where "FAREWELL \<equiv> ''BYE...'' @ [NL]"
abbreviation PROBE :: string where "PROBE \<equiv> ''EXIT'' @ [NL]"
abbreviation BUSY :: string where "BUSY \<equiv> ''FAILED BUSY TRY LATER!!!!'' @ [NL]"

text \<open>
  \<open>says st ms st'\<close>: a session in status \<open>st\<close> may send the messages \<open>ms\<close> and be in status \<open>st'\<close>
  afterwards. An empty read is answered with a probe in any status, and a goodbye of the
  client can come at any time.
\<close>

inductive says :: "ClientStatus \<Rightarrow> string list \<Rightarrow> ClientStatus \<Rightarrow> bool" where
  over: "says st [] st"
| probe: "says st ms st' \<Longrightarrow> says st (PROBE # ms) st'"
| greeting: "says ECHO ms st' \<Longrightarrow> says HELLO (GREETING # ms) st'"
| echo: "says ECHO ms st' \<Longrightarrow> says ECHO (ECHOED # ms) st'"
| parted: "says BYE ms st' \<Longrightarrow> says st ms st'"
| farewell: "says BYE ms st' \<Longrightarrow> says BYE (FAREWELL # ms) st'"

lemmas says_intros = says.intros [simplified]

lemma says_trans: "says st ms st1 \<Longrightarrow> says st1 ns st2 \<Longrightarrow> says st (ms @ ns) st2"
  by (induction rule: says.induct) (auto intro: says_intros)

lemma says_one [simp, intro]:
  "says st [] st" "says st [PROBE] st" "says HELLO [GREETING] ECHO" "says ECHO [ECHOED] ECHO"
  "says BYE [FAREWELL] BYE" "says st [] BYE"
  by (auto intro: says_intros)

text \<open>The probes left out, a session is at most one greeting, then echoes, then farewells.\<close>

definition spoken :: "string list \<Rightarrow> string list" where
  "spoken ms = filter (\<lambda>m. m \<noteq> PROBE) ms"

definition sessionText :: "ClientStatus \<Rightarrow> bool \<Rightarrow> nat \<Rightarrow> nat \<Rightarrow> string list" where
  "sessionText st greeted m k = (if st = HELLO \<and> greeted then [GREETING] else []) @
     (if st = ECHO \<or> st = HELLO \<and> greeted then replicate m ECHOED else []) @ replicate k FAREWELL"

lemma says_spoken: "says st ms st' \<Longrightarrow> \<exists>greeted m k. spoken ms = sessionText st greeted m k"
proof (induction rule: says.induct)
  case (over st)
  have "spoken [] = sessionText st False 0 0" by (simp add: spoken_def sessionText_def)
  then show ?case by blast
next
  case (greeting ms st')
  then obtain g m k where "spoken ms = sessionText ECHO g m k" by blast
  then have "spoken (GREETING # ms) = sessionText HELLO True m k" by (simp add: spoken_def sessionText_def)
  then show ?case by blast
next
  case (echo ms st')
  then obtain g m k where "spoken ms = sessionText ECHO g m k" by blast
  then have "spoken (ECHOED # ms) = sessionText ECHO g (Suc m) k" by (simp add: spoken_def sessionText_def)
  then show ?case by blast
next
  case (parted ms st' st)
  then obtain g m k where "spoken ms = sessionText BYE g m k" by blast
  then have "spoken ms = sessionText st False 0 k" by (simp add: sessionText_def)
  then show ?case by blast
next
  case (farewell ms st')
  then obtain g m k where "spoken ms = sessionText BYE g m k" by blast
  then have "spoken (FAREWELL # ms) = sessionText BYE g m (Suc k)" by (simp add: spoken_def sessionText_def)
  then show ?case by blast
qed (simp add: spoken_def)

section \<open>Who holds a connection\<close>

definition holdsAt :: "'k world \<Rightarrow> ptr \<Rightarrow> handle \<Rightarrow> ClientStatus \<Rightarrow> bool" where
  "holdsAt w q b st \<longleftrightarrow> (\<exists>s. deref w q = Inr s \<and> castSslSocket (dynClass s) = Some b \<and> clientStatus s = st)"

definition idle :: "'k world \<Rightarrow> handle \<Rightarrow> bool" where
  "idle w b \<longleftrightarrow> (\<forall>q st. \<not> holdsAt w q b st)"

text \<open>At most one socket holds the connection \<open>b\<close>, in status \<open>st\<close>.\<close>

definition sessionOf :: "'k world \<Rightarrow> handle \<Rightarrow> ClientStatus \<Rightarrow> bool" where
  "sessionOf w b st \<longleftrightarrow> (\<exists>p. \<forall>q st'. holdsAt w q b st' \<longrightarrow> q = p \<and> st' = st)"

lemma idle_session: "idle w b \<Longrightarrow> sessionOf w b st" by (simp add: idle_def sessionOf_def)

fun bioOf :: "event \<Rightarrow> handle list" where
  "bioOf (Tls (EvBioNew fd flag h)) = [h]"
| "bioOf _ = []"

text \<open>How often OpenSSL has handed the BIO \<open>b\<close> out.\<close>

definition timesGiven :: "handle \<Rightarrow> event list \<Rightarrow> nat" where
  "timesGiven b es = count_list (concat (map bioOf es)) b"

lemma timesGiven_simps [simp]:
  "timesGiven b [] = 0" "timesGiven b (e # es) = count_list (bioOf e) b + timesGiven b es"
  "timesGiven b (es @ fs) = timesGiven b es + timesGiven b fs"
  by (simp_all add: timesGiven_def)

definition overhears :: "handle \<Rightarrow> 'k world \<Rightarrow> event list \<Rightarrow> 'k world \<Rightarrow> bool" where
  "overhears b w es w' \<longleftrightarrow>
     (timesGiven b es = 0 \<longrightarrow> (idle w b \<longrightarrow> writesTo b es = [] \<and> idle w' b) \<and>
        (\<forall>st. sessionOf w b st \<longrightarrow> (\<exists>st'. says st (writesTo b es) st' \<and> sessionOf w' b st'))) \<and>
     (timesGiven b es = 1 \<and> idle w b \<longrightarrow> writesTo b es = [BUSY] \<and> idle w' b \<or>
        (\<exists>st'. says HELLO (writesTo b es) st' \<and> sessionOf w' b st'))"

definition converses :: "'k world \<Rightarrow> 'k world \<Rightarrow> bool" where
  "converses w w' \<longleftrightarrow> (\<exists>es. trace w' = trace w @ es \<and> (\<forall>b. overhears b w es w'))"

lemma overhears_trans:
  assumes "overhears b w es w1" "overhears b w1 fs w2"
  shows "overhears b w (es @ fs) w2"
proof -
  have sess: "\<exists>st'. says st (writesTo b (es @ fs)) st' \<and> sessionOf w2 b st'"
    if "says st (writesTo b es) st1" "sessionOf w1 b st1" "timesGiven b fs = 0" for st st1
    using that assms(2) says_trans unfolding overhears_def by fastforce
  have none: "(idle w b \<longrightarrow> writesTo b (es @ fs) = [] \<and> idle w2 b) \<and>
    (\<forall>st. sessionOf w b st \<longrightarrow> (\<exists>st'. says st (writesTo b (es @ fs)) st' \<and> sessionOf w2 b st'))"
    if z: "timesGiven b es = 0" "timesGiven b fs = 0"
    using assms z sess unfolding overhears_def by (metis append_Nil writesTo_simps(3))
  have once: "writesTo b (es @ fs) = [BUSY] \<and> idle w2 b \<or>
      (\<exists>st'. says HELLO (writesTo b (es @ fs)) st' \<and> sessionOf w2 b st')"
    if z: "timesGiven b (es @ fs) = 1" "idle w b"
  proof (cases "timesGiven b es = 0")
    case True
    with assms(1) z(2) have "writesTo b es = []" "idle w1 b" by (simp_all add: overhears_def)
    with assms(2) z(1) True show ?thesis by (simp add: overhears_def)
  next
    case False
    with z(1) have t: "timesGiven b es = 1" "timesGiven b fs = 0" by simp_all
    with assms(1) z(2) have "writesTo b es = [BUSY] \<and> idle w1 b \<or>
      (\<exists>st'. says HELLO (writesTo b es) st' \<and> sessionOf w1 b st')" by (simp add: overhears_def)
    then show ?thesis
    proof
      assume "writesTo b es = [BUSY] \<and> idle w1 b"
      with assms(2) t(2) show ?thesis by (simp add: overhears_def)
    qed (use sess t(2) in blast)
  qed
  show ?thesis using none once by (simp add: overhears_def)
qed

lemma converses_trans:
  assumes "converses w w1" "converses w1 w2"
  shows "converses w w2"
proof -
  obtain es fs where "trace w1 = trace w @ es" "\<forall>b. overhears b w es w1"
    "trace w2 = trace w1 @ fs" "\<forall>b. overhears b w1 fs w2" using assms by (auto simp: converses_def)
  moreover from this have "\<forall>b. overhears b w (es @ fs) w2" using overhears_trans by blast
  ultimately have "trace w2 = trace w @ es @ fs" "\<forall>b. overhears b w (es @ fs) w2" by simp_all
  then show ?thesis unfolding converses_def by blast
qed

section \<open>What the elementary operations say\<close>

text \<open>Nothing, and at most a connection loses its holder.\<close>

lemma overhears_shrink:
  assumes "writesTo b es = []" "\<And>q st. holdsAt w' q b st \<Longrightarrow> holdsAt w q b st"
  shows "overhears b w es w'"
proof -
  have "idle w b \<Longrightarrow> idle w' b" "sessionOf w b st \<Longrightarrow> sessionOf w' b st" for st
    using assms(2) unfolding idle_def sessionOf_def by blast+
  with assms(1) idle_session show ?thesis unfolding overhears_def by (metis says_one(1))
qed

lemma converses_shrink:
  assumes "trace w' = trace w @ es" "\<And>b. writesTo b es = []"
    and "\<And>q b st. holdsAt w' q b st \<Longrightarrow> holdsAt w q b st"
  shows "converses w w'"
  unfolding converses_def using assms overhears_shrink by metis

lemma holdsAt_deref: "(\<And>q. deref w' q = deref w q) \<Longrightarrow> holdsAt w' = holdsAt w"
  by (simp add: holdsAt_def fun_eq_iff)

lemma converses_same: "trace w' = trace w \<Longrightarrow> holdsAt w' = holdsAt w \<Longrightarrow> converses w w'"
  using converses_shrink [of w' w "[]"] by simp

lemma silent_holds: "silent w w' \<Longrightarrow> holdsAt w' = holdsAt w"
  by (rule holdsAt_deref, rule deref_cong) (simp add: silent_intro)

lemma converses_silent: "silent w w' \<Longrightarrow> converses w w'"
proof -
  assume s: "silent w w'"
  then obtain es where "trace w' = trace w @ es" "\<forall>e \<in> set es. mute e" by (auto simp: silent_def)
  then have "writesTo b es = []" for b using mute_writesTo by blast
  moreover have "holdsAt w q b st" if "holdsAt w' q b st" for q b st using that unfolding silent_holds [OF s] .
  ultimately show "converses w w'" using \<open>trace w' = trace w @ es\<close> converses_shrink by blast
qed

lemma converses_config: "converses w (w\<lparr>appCfg := c\<rparr>)"
  by (rule converses_same) (simp, rule holdsAt_deref, simp add: deref_def)

lemma modify_holds:
  assumes "modifyObj f p w = Inr w'" "deref w p = Inr s" "dynClass (f s) = dynClass s"
  shows "holdsAt w' q b st \<longleftrightarrow> (if q = p then castSslSocket (dynClass s) = Some b \<and> clientStatus (f s) = st else holdsAt w q b st)"
  using deref_modify [OF assms(1,2)] assms(3) by (auto simp: holdsAt_def)

lemma modify_trace: "modifyObj f p w = Inr w' \<Longrightarrow> trace w' = trace w"
  by (auto simp: modifyObj_def split: if_splits option.splits)

lemma holds_known: "deref w p = Inr s \<Longrightarrow> holdsAt w p b st \<longleftrightarrow> castSslSocket (dynClass s) = Some b \<and> clientStatus s = st"
  by (auto simp: holdsAt_def)

lemma mark_holds:
  assumes "modifyObj f p w = Inr w'" "deref w p = Inr s" "marks s (f s)"
  shows "holdsAt w' = holdsAt w"
proof -
  have "dynClass (f s) = dynClass s" "clientStatus (f s) = clientStatus s" using assms(3) by (auto simp: marks_def)
  with modify_holds [OF assms(1,2)] holds_known [OF assms(2)] show ?thesis by (auto simp: fun_eq_iff)
qed

lemma converses_mark: "modifyObj f p w = Inr w' \<Longrightarrow> deref w p = Inr s \<Longrightarrow> marks s (f s) \<Longrightarrow> converses w w'"
  by (rule converses_same [OF modify_trace mark_holds])

lemma share_trace: "sharePtr p w = Inr w' \<Longrightarrow> trace w' = trace w"
  by (auto simp: sharePtr_def split: if_splits option.splits)

lemma share_holds: "sharePtr p w = Inr w' \<Longrightarrow> holdsAt w' = holdsAt w"
  by (rule holdsAt_deref) (rule deref_share)

lemma converses_share: "sharePtr p w = Inr w' \<Longrightarrow> converses w w'"
  by (rule converses_same [OF share_trace share_holds])

lemma release_holds: "releasePtr S p w = Inr w' \<Longrightarrow> holdsAt w' q b st \<Longrightarrow> holdsAt w q b st"
  using release_keeps_obj by (fastforce simp: holdsAt_def)

lemma writesTo_destroyEvents [simp]: "writesTo b (destroyEvents s) = []"
  by (cases "dynClass s") (auto simp: destroyEvents_def)

lemma writesTo_destroy: "writesTo b (concat (map destroyEvents ss)) = []"
  by (induction ss) simp_all

lemma converses_release: "releasePtr S p w = Inr w' \<Longrightarrow> converses w w'"
  using release_destroys [of S p w w'] release_holds [of S p w w'] writesTo_destroy
  by (blast intro: converses_shrink)

lemma timesGiven_destroy: "timesGiven b (concat (map destroyEvents ss)) = 0"
proof (induction ss)
  case (Cons s ss)
  then show ?case by (cases "dynClass s") (auto simp: destroyEvents_def)
qed simp

text \<open>One socket speaks, and its status follows.\<close>

lemma converses_talk:
  assumes "deref w p = Inr s" "trace w' = trace w @ es"
    and "\<And>b. writesTo b es = (if castSslSocket (dynClass s) = Some b then ms else [])"
    and "\<And>q. deref w' q = (if q = p then Inr s' else deref w q)"
    and "dynClass s' = dynClass s" "says (clientStatus s) ms (clientStatus s')"
    and "\<And>b. timesGiven b es = 0"
  shows "converses w w'"
proof -
  have h: "holdsAt w' q b st \<longleftrightarrow> (if q = p then castSslSocket (dynClass s) = Some b \<and> clientStatus s' = st else holdsAt w q b st)"
    for q b st using assms(4,5) by (simp add: holdsAt_def)
  have "overhears b w es w'" for b
  proof (cases "castSslSocket (dynClass s) = Some b")
    case True
    then have p: "holdsAt w p b (clientStatus s)" using assms(1) by (simp add: holdsAt_def)
    have "\<exists>st'. says st ms st' \<and> sessionOf w' b st'" if "sessionOf w b st" for st
    proof -
      from that p have "st = clientStatus s" "\<And>q st'. holdsAt w q b st' \<Longrightarrow> q = p"
        unfolding sessionOf_def by blast+
      moreover from this h True have "sessionOf w' b (clientStatus s')" unfolding sessionOf_def by metis
      ultimately show ?thesis using assms(6) by blast
    qed
    moreover have "\<not> idle w b" using p unfolding idle_def by blast
    ultimately show ?thesis using assms(3,7) True by (simp add: overhears_def)
  next
    case False
    then have "holdsAt w' q b st \<longleftrightarrow> holdsAt w q b st" for q st
      using h holds_known [OF assms(1)] by auto
    then show ?thesis by (intro overhears_shrink) (use assms(3) False in simp_all)
  qed
  with assms(2) show ?thesis unfolding converses_def by blast
qed

lemma write_events:
  assumes "utilsWrite S p m w = Inr (n, w')" "deref w p = Inr s"
  shows "\<exists>es. trace w' = trace w @ es \<and> (\<forall>b. writesTo b es = (if castSslSocket (dynClass s) = Some b then [m] else [])) \<and>
    (\<forall>b. timesGiven b es = 0) \<and> (\<forall>q. deref w' q = deref w q)"
proof -
  have "deref w' q = deref w q" for q
    by (rule deref_cong) (use quiet_write [OF assms(1)] in \<open>simp add: quiet_def\<close>)
  with assms show ?thesis
    by (auto simp: utilsWrite_def call_defs split: option.splits prod.splits)
qed

lemma converses_write:
  assumes "utilsWrite S p m w = Inr (n, w')" "deref w p = Inr s" "says (clientStatus s) [m] (clientStatus s)"
  shows "converses w w' \<and> deref w' p = Inr s"
proof -
  obtain es where es: "trace w' = trace w @ es" "\<forall>b. writesTo b es = (if castSslSocket (dynClass s) = Some b then [m] else [])"
    "\<forall>b. timesGiven b es = 0" "\<forall>q. deref w' q = deref w q" using write_events [OF assms(1,2)] by blast
  have "converses w w'"
    by (rule converses_talk [OF assms(2) es(1), of "[m]" s]) (use es assms in auto)
  with es(4) assms(2) show ?thesis by simp
qed

lemma converses_parted:
  assumes "modifyObj (setClientStatus BYE) p w = Inr w'"
  shows "converses w w'"
proof -
  obtain s where s: "deref w p = Inr s" using modifyObj_deref [OF assms] ..
  show ?thesis
    by (rule converses_talk [OF s, of _ "[]" "[]" "setClientStatus BYE s"])
      (use modify_trace [OF assms] deref_modify [OF assms s] in \<open>auto simp: setClientStatus_def\<close>)
qed


section \<open>What the handlers say\<close>

lemma converses_clientRead:
  assumes "clientRead S p w = Inr (b, w')"
  shows "converses w w'"
proof -
  from assms obtain r w1 where r: "utilsRead S p 100 0 w = Inr (r, w1)"
    and rest: "(\<exists>n. utilsWrite S p PROBE w1 = Inr (n, w')) \<or> w' = w1 \<or>
      (\<exists>w2. (w2 = w1 \<or> modifyObj (setClientStatus BYE) p w1 = Inr w2) \<and> modifyObj (setRevents POLLOUT) p w2 = Inr w')"
    by (auto simp: clientRead_def Let_def outcome_simps split: if_splits)
  have "converses w1 w'"
    using rest
  proof (elim disjE exE conjE)
    fix n assume n: "utilsWrite S p PROBE w1 = Inr (n, w')"
    then obtain s where "deref w1 p = Inr s" by (auto simp: utilsWrite_def andThen_eq_Inr)
    from converses_write [OF n this says_one(2)] show ?thesis ..
  next
    fix w2 assume w2: "modifyObj (setClientStatus BYE) p w1 = Inr w2" "modifyObj (setRevents POLLOUT) p w2 = Inr w'"
    obtain s where "deref w2 p = Inr s" using modifyObj_deref [OF w2(2)] ..
    from converses_mark [OF w2(2) this] converses_parted [OF w2(1)] show ?thesis by (auto intro: converses_trans)
  next
    fix w2 assume w2: "w2 = w1" "modifyObj (setRevents POLLOUT) p w2 = Inr w'"
    obtain s where "deref w2 p = Inr s" using modifyObj_deref [OF w2(2)] ..
    from converses_mark [OF w2(2) this] w2(1) show ?thesis by simp
  qed (simp add: converses_silent)
  with converses_silent [OF silent_read [OF r]] show ?thesis by (rule converses_trans)
qed

lemma converses_greeting:
  assumes "utilsWrite S p GREETING w = Inr (n, w1)" "modifyObj (setClientStatus ECHO) p w1 = Inr w'"
    and "deref w p = Inr s" "clientStatus s = HELLO"
  shows "converses w w'"
proof -
  obtain es where es: "trace w1 = trace w @ es"
    "\<forall>b. writesTo b es = (if castSslSocket (dynClass s) = Some b then [GREETING] else [])"
    "\<forall>b. timesGiven b es = 0" "\<forall>q. deref w1 q = deref w q" using write_events [OF assms(1,3)] by blast
  have d: "deref w' q = (if q = p then Inr (setClientStatus ECHO s) else deref w q)" for q
    using deref_modify [OF assms(2), of s q] es(4) assms(3) by simp
  have t: "trace w' = trace w @ es" using modify_trace [OF assms(2)] es(1) by simp
  show ?thesis
    by (rule converses_talk [OF assms(3) t es(2) [rule_format] d])
      (use es(3) assms(4) says_one(3) in \<open>auto simp: setClientStatus_def\<close>)
qed

lemma converses_clientWrite:
  assumes "clientWrite S p w = Inr (b, w')"
  shows "converses w w'"
proof -
  from assms obtain s where s: "deref w p = Inr s" by (auto simp: clientWrite_def outcome_simps)
  show ?thesis
  proof (cases "clientStatus s")
    case HELLO
    with assms s obtain n w1 where "utilsWrite S p GREETING w = Inr (n, w1)"
      "modifyObj (setClientStatus ECHO) p w1 = Inr w'" by (auto simp: clientWrite_def outcome_simps)
    then show ?thesis using s HELLO by (rule converses_greeting)
  next
    case ECHO
    with assms s obtain n where "utilsWrite S p ECHOED w = Inr (n, w')" by (auto simp: clientWrite_def outcome_simps)
    from converses_write [OF this s] ECHO says_one(4) show ?thesis by simp
  next
    case BYE
    with assms s obtain n where "utilsWrite S p FAREWELL w = Inr (n, w')" by (auto simp: clientWrite_def outcome_simps)
    from converses_write [OF this s] BYE says_one(5) show ?thesis by simp
  next
    case NO_STATUS
    with assms s show ?thesis by (simp add: clientWrite_def converses_silent)
  qed
qed

section \<open>A new client\<close>

lemma silent_alloc: "allocRecvCmsg S w = (room, w') \<Longrightarrow> silent w w'"
  by (auto simp: allocRecvCmsg_def call_defs silent_intro split: option.splits prod.splits if_splits)

lemma make_holds:
  assumes "makeShared s w = (c, w')" "holdsAt w' q b st"
  shows "if q = c then castSslSocket (dynClass s) = Some b \<and> clientStatus s = st else holdsAt w q b st"
proof -
  have "c \<noteq> nullptr \<or> q \<noteq> c" using assms(2) by (auto simp: holdsAt_def deref_def)
  with assms show ?thesis by (auto simp: holdsAt_def deref_def makeShared_def split: if_splits)
qed

lemma converses_plain:
  assumes "makeShared s w = (c, w')" "castSslSocket (dynClass s) = None"
  shows "converses w w'"
proof (rule converses_shrink [of _ _ "[]"])
  show "holdsAt w q b st" if "holdsAt w' q b st" for q b st
    using make_holds [OF assms(1) that] assms(2) by (auto split: if_splits)
qed (use assms(1) in \<open>auto simp: makeShared_def\<close>)

lemma converses_received:
  assumes "createReceivedSocket S u w = Inr (p, w')"
  shows "converses w w'"
proof -
  have loop: "converses w w'" if run: "recvLoop S fd buf w = Some (Inr (p, w'))" for fd buf
  proof -
    have room: "converses w v1" if "converses w v" "allocRecvCmsg S v = (room, v1)" for v v1 room
      by (rule converses_trans [OF that(1) converses_silent [OF silent_alloc [OF that(2)]]])
    have got: "converses w v2" "converses w (v2\<lparr>recvCmsg := Some c\<rparr>)"
      if "converses w v1" "k_recvmsg S fd MAXLINE v1 = (m, v2)" for v1 v2 m c
    proof -
      show "converses w v2" by (rule converses_trans [OF that(1) converses_silent [OF silent_calls(3) [OF that(2)]]])
      then show "converses w (v2\<lparr>recvCmsg := Some c\<rparr>)"
        by (rule converses_trans) (simp add: converses_silent silent_intro)
    qed
    have "\<forall>q v. (Inr (p, w') :: (ptr \<times> 'a world) outcome) = Inr (q, v) \<longrightarrow> converses w v"
    proof (rule recvLoop_rule [OF run, of "converses w"], goal_cases)
      case (3 v old v1 io control v2 v3)
      then show ?case using got [OF room [OF 3(1,2)] 3(3)] by simp
    next
      case (4 v old v1 io control v2 v3 buf status newfd s)
      then have "converses w v3" using got [OF room [OF 4(1,2)] 4(3)] by simp
      moreover have "castSslSocket (dynClass s) = None" using 4(7) by (auto simp: newSocket_Inr)
      ultimately show ?case using converses_plain converses_trans by (metis sum.inject(2))
    qed (use room in \<open>auto simp: converses_silent\<close>)
    then show ?thesis by blast
  qed
  from assms show ?thesis
    by (auto simp: createReceivedSocket_def outcome_simps split: option.splits dest: loop)
qed

text \<open>The new TLS socket is the only one with its connection, if nobody else has it.\<close>

lemma makeSsl_holds:
  assumes "makeSslSocket S p w = Inr (c, w')"
  shows "\<exists>h es. trace w' = trace w @ es \<and> (\<forall>b. writesTo b es = []) \<and>
    (\<forall>b. timesGiven b es = (if b = h then 1 else 0)) \<and>
    (\<forall>q b st. holdsAt w' q b st \<longrightarrow> (if q = c then b = h else holdsAt w q b st)) \<and>
    (heap w' c = None \<or> (\<exists>x. heap w' c = Some \<lparr>obj = x, useCount = 1\<rparr> \<and> castSslSocket (dynClass x) = Some h))"
proof -
  from assms obtain x h ssl w1 w2 w3 where x: "deref w p = Inr x"
    and w1: "newSslOn S (descriptor x) BIO_NOCLOSE w = Inr (h, ssl, w1)"
    and w2: "modifyObj doProtectDescriptor p w1 = Inr w2"
    and w3: "makeShared \<lparr>dynClass = SslSocket h ssl, protectDescriptor = False, descriptor = descriptor x, events = 0,
      revents = 0, socketType = SSL, listenSocket = False, clientStatus = NO_STATUS\<rparr> w2 = (c, w3)"
      "releasePtr S p w3 = Inr w'"
    by (rule makeSslSocketE)
  let ?s = "\<lparr>dynClass = SslSocket h ssl, protectDescriptor = False, descriptor = descriptor x, events = 0,
    revents = 0, socketType = SSL, listenSocket = False, clientStatus = NO_STATUS\<rparr>"
  obtain ss where ss: "trace w' = trace w3 @ concat (map destroyEvents ss)" using release_destroys [OF w3(2)] by blast
  obtain new where new: "trace w1 = trace w @ new" "\<forall>b. writesTo b new = []" "\<forall>b. timesGiven b new = (if b = h then 1 else 0)"
    using w1 by (auto simp: newSslOn_def outcome_simps call_defs split: prod.splits)
  have es: "trace w' = trace w @ new @ concat (map destroyEvents ss)" "\<forall>b. writesTo b (new @ concat (map destroyEvents ss)) = []"
    "\<forall>b. timesGiven b (new @ concat (map destroyEvents ss)) = (if b = h then 1 else 0)"
    using ss w3(1) modify_trace [OF w2] new writesTo_destroy timesGiven_destroy by (auto simp: makeShared_def)
  have d1: "deref w1 q = deref w q" for q
    by (rule deref_cong) (use quiet_newSslOn [OF w1] in \<open>simp add: quiet_def\<close>)
  have "deref w1 p = Inr x" using d1 x by simp
  from modify_holds [OF w2 this] have "holdsAt w2 q b st \<longleftrightarrow> holdsAt w q b st" for q b st
    using x d1 by (auto simp: holdsAt_def doProtectDescriptor_def)
  then have holds: "if q = c then b = h else holdsAt w q b st" if "holdsAt w' q b st" for q b st
    using make_holds [OF w3(1) release_holds [OF w3(2) that]] by (auto split: if_splits)
  have "heap w3 c = Some \<lparr>obj = ?s, useCount = 1\<rparr>" using w3(1) by (auto simp: makeShared_def)
  then have "heap w' c = None \<or> heap w' c = Some \<lparr>obj = ?s, useCount = 1\<rparr>"
    using w3(2) by (auto simp: releasePtr_def sameProcD [OF destroySocket_frame] split: if_splits option.splits)
  moreover have "castSslSocket (dynClass ?s) = Some h" by simp
  ultimately show ?thesis using es holds by blast
qed

lemma storeClient_holds:
  assumes run: "storeClient S c l w = Inr (b0, l', w')"
    and c: "heap w c = None \<or> (\<exists>x. heap w c = Some \<lparr>obj = x, useCount = 1\<rparr> \<and> castSslSocket (dynClass x) = Some h)"
  shows "\<exists>es stored. trace w' = trace w @ es \<and> (\<forall>b. timesGiven b es = 0) \<and>
    (\<forall>b. writesTo b es = (if b = h \<and> \<not> stored then [BUSY] else [])) \<and>
    (\<forall>q b st. holdsAt w' q b st \<longrightarrow> (if q = c then stored \<and> b = h \<and> st = HELLO else holdsAt w q b st))"
proof -
  from run obtain stored l1 w1 w3 w4 w5 where
    s: "putSocket c l w = Inr (stored, l1, w1)"
      "(if stored then Inr w1 else andThen (utilsWrite S c BUSY w1) (\<lambda>(n, w2). Inr w2)) = Inr w3"
      "modifyObj pollForWrite c w3 = Inr w4" "modifyObj (setClientStatus HELLO) c w4 = Inr w5"
      "releasePtr S c w5 = Inr w'"
    unfolding storeClient_def by (simp only: andThen_eq_Inr split_paired_Ex prod.case) auto
  have put: "trace w1 = trace w" "deref w1 q = deref w q" "stored \<or> w1 = w" for q
    using s(1) deref_share [of c w w1 q] share_trace by (auto simp: putSocket_def outcome_simps split: if_splits)
  obtain es where es: "trace w3 = trace w @ es" "\<forall>b. timesGiven b es = 0" "\<forall>q. deref w3 q = deref w q"
    "\<forall>b. writesTo b es = (if \<not> stored \<and> (\<exists>x. deref w c = Inr x \<and> castSslSocket (dynClass x) = Some b) then [BUSY] else [])"
    "\<not> stored \<longrightarrow> heap w3 = heap w"
  proof (cases stored)
    case True
    with s(2) put show ?thesis by (intro that [of "[]"]) simp_all
  next
    case False
    with s(2) obtain n where n: "utilsWrite S c BUSY w1 = Inr (n, w3)" by (auto simp: andThen_eq_Inr)
    then obtain x where x: "deref w1 c = Inr x" by (auto simp: utilsWrite_def andThen_eq_Inr)
    have "heap w3 = heap w" using quiet_write [OF n] put(3) False by (simp add: quiet_def)
    with write_events [OF n x] put False x show ?thesis by (auto intro: that)
  qed
  obtain x where x3: "deref w3 c = Inr x" using modifyObj_deref [OF s(3)] ..
  then have x: "deref w c = Inr x" using es(3) by simp
  then have cell: "heap w c = Some \<lparr>obj = x, useCount = 1\<rparr>" "castSslSocket (dynClass x) = Some h" "c \<noteq> nullptr"
    using c by (auto simp: deref_def split: if_splits)
  have d4: "deref w4 q = (if q = c then Inr (pollForWrite x) else deref w q)" for q
    using deref_modify [OF s(3) x3] es(3) by simp
  have d5: "deref w5 q = (if q = c then Inr (setClientStatus HELLO (pollForWrite x)) else deref w q)" for q
    using deref_modify [OF s(4), of "pollForWrite x" q] d4 by simp
  have h5: "holdsAt w5 q b st \<longleftrightarrow> (if q = c then b = h \<and> st = HELLO else holdsAt w q b st)" for q b st
    using d5 cell(2) by (auto simp: holdsAt_def sock_defs)
  have gone: "\<not> holdsAt w' c b st" if "\<not> stored" for b st
  proof -
    have "heap w3 c = Some \<lparr>obj = x, useCount = 1\<rparr>" using es(5) that cell(1) by simp
    then have "heap w5 c = Some \<lparr>obj = setClientStatus HELLO (pollForWrite x), useCount = 1\<rparr>"
      using s(3,4) cell(3) by (auto simp: modifyObj_def)
    then have "heap w' c = None" using s(5) cell(3) by (auto simp: releasePtr_def sameProcD [OF destroySocket_frame])
    then show ?thesis by (simp add: holdsAt_def deref_def)
  qed
  have holds: "if q = c then stored \<and> b = h \<and> st = HELLO else holdsAt w q b st" if "holdsAt w' q b st" for q b st
  proof -
    have "stored \<or> q \<noteq> c" using gone that by blast
    with release_holds [OF s(5) that] h5 show ?thesis by (auto split: if_splits)
  qed
  obtain ss where ss: "trace w' = trace w5 @ concat (map destroyEvents ss)" using release_destroys [OF s(5)] by blast
  have "trace w5 = trace w @ es" using modify_trace [OF s(3)] modify_trace [OF s(4)] es(1) by simp
  with ss have "trace w' = trace w @ es @ concat (map destroyEvents ss)" by simp
  moreover have "writesTo b (es @ concat (map destroyEvents ss)) = (if b = h \<and> \<not> stored then [BUSY] else [])" for b
    using es(4) x cell(2) writesTo_destroy by auto
  moreover have "timesGiven b (es @ concat (map destroyEvents ss)) = 0" for b
    using es(2) timesGiven_destroy by simp
  ultimately show ?thesis using holds by blast
qed

lemma converses_receiveClient:
  assumes "receiveClient S f l w = Inr (b, l', w')"
  shows "converses w w'"
proof -
  from assms obtain p v where p: "createReceivedSocket S f w = Inr (p, v)"
    "p = nullptr \<and> w' = v \<or> (\<exists>c w2. makeSslSocket S p v = Inr (c, w2) \<and> storeClient S c l w2 = Inr (b, l', w'))"
    by (auto simp: receiveClient_def outcome_simps split: if_splits)
  from p(2) have "converses v w'"
  proof (elim disjE exE conjE)
    fix c w2 assume c: "makeSslSocket S p v = Inr (c, w2)" "storeClient S c l w2 = Inr (b, l', w')"
    obtain h es where m: "trace w2 = trace v @ es" "\<forall>b. writesTo b es = []"
      "\<forall>b. timesGiven b es = (if b = h then 1 else 0)"
      "\<forall>q b st. holdsAt w2 q b st \<longrightarrow> (if q = c then b = h else holdsAt v q b st)"
      "heap w2 c = None \<or> (\<exists>x. heap w2 c = Some \<lparr>obj = x, useCount = 1\<rparr> \<and> castSslSocket (dynClass x) = Some h)"
      using makeSsl_holds [OF c(1)] by blast
    obtain fs stored where t: "trace w' = trace w2 @ fs" "\<forall>b. timesGiven b fs = 0"
      "\<forall>b. writesTo b fs = (if b = h \<and> \<not> stored then [BUSY] else [])"
      "\<forall>q b st. holdsAt w' q b st \<longrightarrow> (if q = c then stored \<and> b = h \<and> st = HELLO else holdsAt w2 q b st)"
      using storeClient_holds [OF c(2) m(5)] by blast
    have holds: "if q = c then stored \<and> b = h \<and> st = HELLO else holdsAt v q b st" if "holdsAt w' q b st" for q b st
      using that m(4) t(4) by (auto split: if_splits)
    have "overhears b v (es @ fs) w'" for b
    proof (cases "b = h")
      case False
      then have "holdsAt v q b st" if "holdsAt w' q b st" for q st using holds [OF that] by (simp split: if_splits)
      with False m(2) t(3) show ?thesis by (intro overhears_shrink) simp_all
    next
      case True
      have n: "timesGiven b (es @ fs) = 1" using m(3) t(2) True by simp
      have "writesTo b (es @ fs) = [BUSY] \<and> idle w' b \<or> (\<exists>st'. says HELLO (writesTo b (es @ fs)) st' \<and> sessionOf w' b st')"
        if i: "idle v b"
      proof (cases stored)
        case True
        have "sessionOf w' b HELLO"
          unfolding sessionOf_def using holds i unfolding idle_def by metis
        moreover have "says HELLO (writesTo b (es @ fs)) HELLO" using m(2) t(3) True by simp
        ultimately show ?thesis by blast
      next
        case False
        then have "idle w' b" using holds i unfolding idle_def by metis
        then show ?thesis using m(2) t(3) False True by simp
      qed
      with n show ?thesis by (simp add: overhears_def)
    qed
    moreover have "trace w' = trace v @ es @ fs" using m(1) t(1) by simp
    ultimately show ?thesis unfolding converses_def by blast
  qed (simp add: converses_silent)
  with converses_received [OF p(1)] show ?thesis by (rule converses_trans)
qed

interpretation conv: handler_relation converses S for S :: "'k sys"
  by unfold_locales
    (fact converses_trans converses_silent converses_mark converses_share converses_release
      converses_receiveClient converses_clientRead converses_clientWrite converses_config)+

section \<open>The property\<close>

lemma converses_start:
  assumes "dispatcherStart u w = Inr d"
  shows "converses w (world d)"
proof -
  obtain w1 where "sharePtr u w = Inr w1" "\<exists>b l. putSocket u (newSocketsList MAX_SOCKETS) w1 = Inr (b, l, world d)"
    using assms by (auto simp: dispatcherStart_def outcome_simps)
  then show ?thesis using converses_share conv.put converses_trans by blast
qed

text \<open>
  C6. What a client hears. Take a whole run of the dispatcher, from its start on and in any
  environment, and a TLS connection that OpenSSL handed out once in it. Then either the
  client was turned away, with the busy message and nothing else; or, probes left out, what
  was written to it is at most one greeting, then echoes, then farewells, and no echo comes
  without the greeting. No other message ever reaches it, whatever the other clients do.
\<close>

theorem clients_hear_sessions:
  assumes "owned w {#u#}" "deref w u = Inr su" "castSslSocket (dynClass su) = None"
    and "dispatcherStart u w = Inr d" "dispatcherReaches S u u d d1"
    and "trace (world d1) = trace w @ es" "timesGiven b es = 1"
  shows "writesTo b es = [BUSY] \<or>
    (\<exists>greeted m k. spoken (writesTo b es) =
       (if greeted then GREETING # replicate m ECHOED else []) @ replicate k FAREWELL)"
proof -
  have "q = u" if "deref w q = Inr s" for q s
    using that owned_None [OF assms(1), of q] by (auto simp: deref_def split: if_splits option.splits)
  with assms(2,3) have i: "idle w b" by (fastforce simp: idle_def holdsAt_def)
  have "converses w (world d1)" by (rule converses_trans [OF converses_start [OF assms(4)] conv.run [OF assms(5)]])
  then have "overhears b w es (world d1)" using assms(6) by (auto simp: converses_def)
  then consider "writesTo b es = [BUSY]" | st' where "says HELLO (writesTo b es) st'"
    using i assms(7) by (auto simp: overhears_def)
  then show ?thesis
  proof cases
    case 2
    from says_spoken [OF this] obtain g m k where "spoken (writesTo b es) = sessionText HELLO g m k" by blast
    then show ?thesis by (auto simp: sessionText_def)
  qed simp
qed

theorem clients_hear_sessions_witness:
  "\<exists>d d1 b. dispatcherStart 1 honestWorld = Inr d \<and> dispatcherReaches honestSys 1 1 d d1 \<and>
    timesGiven b (trace (world d1)) = 1 \<and> (writesTo b (trace (world d1)) = [BUSY] \<or>
    (\<exists>greeted m k. spoken (writesTo b (trace (world d1))) =
       (if greeted then GREETING # replicate m ECHOED else []) @ replicate k FAREWELL))"
proof -
  obtain d d1 b ctx ssl where d: "dispatcherStart 1 honestWorld = Inr d" "dispatcherReaches honestSys 1 1 d d1"
    "trace (world d1) = [Io (EvPoll [(3, POLLIN)] oneReady), Io (EvRecv 3 200 MSG_PEEK (Data [NUL, NUL])),
      Io (EvRecvmsg 3 128 (Data [NUL, NUL]) (Some 9)), Tls (EvBioNew 9 0 b), Tls (EvSslNew ctx ssl),
      Tls (EvSslSetBio ssl b)]"
    using honest_run by blast
  have u: "deref honestWorld 1 = Inr (exampleSock 3 UNIX)" "castSslSocket (dynClass (exampleSock 3 UNIX)) = None"
    by (simp_all add: deref_def exampleSock_def)
  have "trace (world d1) = trace honestWorld @ trace (world d1)" by simp
  moreover have "timesGiven b (trace (world d1)) = 1" by (simp add: d(3))
  ultimately show ?thesis using clients_hear_sessions [OF honestWorld_owned u d(1,2)] d(1,2) by blast
qed

end
