(* ===== verification/Listener.thy ===== *)
theory Listener
  imports SocketFactories SocketsPoller ConfigProtocol MainLoop
begin

text \<open>
  \<^verbatim>\<open>mylsnr.cpp\<close>: the process that listens. It accepts clients and hands their descriptors to
  the dispatchers, accepts dispatchers and sends them the configuration, and starts the
  dispatcher process. \<open>listenerRound\<close> is the body of the loop in \<^verbatim>\<open>main\<close>, \<open>listenerStart\<close> and
  \<open>listenerExit\<close> what comes before and after it.
\<close>


definition MY_SOCK_PATH :: string where "MY_SOCK_PATH = ''dispatch.sock''"
definition CONFIG_BUFFER_SIZE :: nat where "CONFIG_BUFFER_SIZE = 4096"
definition LISTENER_SOCKETS :: nat where "LISTENER_SOCKETS = 100"

section \<open>Child processes\<close>

text \<open>
  \<^verbatim>\<open>create_dispatcher\<close> in the parent gives the return value and the new \<^verbatim>\<open>disp_pid\<close>, if it
  changes. In the child the process image is replaced, or \<^verbatim>\<open>assert(0)\<close> is reached.
\<close>

definition create_dispatcher :: "'k sys \<Rightarrow> 'k world \<Rightarrow> ((int \<times> int option) \<times> 'k world) outcome" where
  "create_dispatcher S w =
     (case k_fork S w of (r, w1) \<Rightarrow>
      if r < 0 then Inr ((-1, None), w1)
      else if r = 0 then
        (case k_execl S ''mydisp'' [''mydisp'', MY_SOCK_PATH] w1 of (replaced, w2) \<Rightarrow>
         if replaced then Inl Replaced else Inl AssertFailed)
      else Inr ((0, Some r), w1))"

text \<open>The status word of \<^verbatim>\<open>waitpid\<close>, as the macros of \<^verbatim>\<open>sys/wait.h\<close> take it apart.\<close>

definition WIFEXITED :: "32 word \<Rightarrow> bool" where "WIFEXITED st \<longleftrightarrow> st AND 0x7F = 0"
definition WEXITSTATUS :: "32 word \<Rightarrow> nat" where "WEXITSTATUS st = unat (drop_bit 8 (st AND 0xFF00))"
definition WTERMSIG :: "32 word \<Rightarrow> nat" where "WTERMSIG st = unat (st AND 0x7F)"

text \<open>What \<^verbatim>\<open>wait_disp_child\<close> writes to the log about a child that has ended.\<close>

datatype childReport = ChildExited | ChildExitedWith nat | ChildKilledBy nat | NoReport

definition reportChild :: "32 word \<Rightarrow> childReport" where
  "reportChild wstatus =
     (if WIFEXITED wstatus then
        (if WEXITSTATUS wstatus = 0 then ChildExited else ChildExitedWith (WEXITSTATUS wstatus))
      else if WEXITSTATUS wstatus \<noteq> 0 then ChildKilledBy (WTERMSIG wstatus)
      else NoReport)"

definition wait_disp_child :: "'k sys \<Rightarrow> 'k world \<Rightarrow> (int \<times> childReport) \<times> 'k world" where
  "wait_disp_child S w =
     (case k_waitpid S w of ((pid, wstatus), w1) \<Rightarrow>
      if pid = -1 then ((-1, NoReport), w1)
      else if 0 < pid then ((pid, reportChild wstatus), w1)
      else ((0, NoReport), w1))"

section \<open>A client connects\<close>

text \<open>The loop over the list: the connection goes to every dispatcher.\<close>

fun sendToDispatchers :: "'k sys \<Rightarrow> ptr \<Rightarrow> ptr list \<Rightarrow> 'k world \<Rightarrow> 'k world outcome" where
  "sendToDispatchers S clientConnection [] w = Inr w"
| "sendToDispatchers S clientConnection (p # ps) w =
     andThen (deref w p) (\<lambda>s.
     andThen (if socketType s = UNIX \<and> \<not> listenSocket s
              then andThen (sendSocket S p clientConnection w) (\<lambda>(sent, w1). Inr w1)
              else Inr w)
       (sendToDispatchers S clientConnection ps))"

definition processClientConnection ::
    "'k sys \<Rightarrow> ptr \<Rightarrow> sockets_list \<Rightarrow> 'k world \<Rightarrow> (bool \<times> 'k world) outcome" where
  "processClientConnection S listenerTcpSocket socketsList w =
     andThen (acceptConnection S listenerTcpSocket w) (\<lambda>(clientConnection, w1).
     if clientConnection = nullptr then Inr (False, w1)
     else andThen (sendToDispatchers S clientConnection (sockets socketsList) w1) (\<lambda>w2.
          andThen (releasePtr S clientConnection w2) (\<lambda>w3. Inr (True, w3))))"

section \<open>A dispatcher connects\<close>

text \<open>
  Send the label, then the text; the connection is dropped from the local variable last. No
  write checks that the dispatcher is still there, and no handler for SIGPIPE is installed:
  a signal raised by the write ends the listener.
\<close>

definition sendConfig :: "'k sys \<Rightarrow> int \<Rightarrow> 'k world \<Rightarrow> (bool \<times> 'k world) outcome" where
  "sendConfig S fd w =
     (case k_write S fd ''CONFIG'' w of (bytes, w1) \<Rightarrow>
      unlessKilled S w1
        (if bytes < 0 then Inr (False, w1)
         else
           (let text = formatConfig (sys_getpid S (kern w1)) (appCfg w1)
            in guarded (length text < CONFIG_BUFFER_SIZE) AssertFailed
                 (case k_write S fd text w1 of (bytes, w2) \<Rightarrow>
                  unlessKilled S w2 (Inr (\<not> bytes < 0, w2))))))"

definition processDispatcherConnection ::
    "'k sys \<Rightarrow> ptr \<Rightarrow> sockets_list \<Rightarrow> 'k world \<Rightarrow> (bool \<times> sockets_list \<times> 'k world) outcome" where
  "processDispatcherConnection S dispatcherSocket socketsList w =
     andThen (acceptConnection S dispatcherSocket w) (\<lambda>(dispatcherConnection, w1).
     if dispatcherConnection = nullptr then Inr (False, socketsList, w1)
     else
       andThen (putSocket dispatcherConnection socketsList w1) (\<lambda>(stored, socketsList1, w2).
       andThen (deref w2 dispatcherConnection) (\<lambda>s.
       andThen (sendConfig S (descriptor s) w2) (\<lambda>(good, w3).
       andThen (releasePtr S dispatcherConnection w3) (\<lambda>w4. Inr (good, socketsList1, w4))))))"

section \<open>The main loop\<close>

fun processSockets ::
    "'k sys \<Rightarrow> ptr list \<Rightarrow> sockets_list \<Rightarrow> 'k world \<Rightarrow> (sockets_list \<times> 'k world) outcome" where
  "processSockets S [] socketsList w = Inr (socketsList, w)"
| "processSockets S (p # ps) socketsList w =
     andThen (deref w p) (\<lambda>s.
     if isDropped s then
       andThen (delSocket S p socketsList w) (\<lambda>(deleted, l1, w1). processSockets S ps l1 w1)
     else if socketType s = TCP \<and> listenSocket s then
       andThen (processClientConnection S p socketsList w)
         (\<lambda>(good, w1). processSockets S ps socketsList w1)
     else if socketType s = UNIX \<and> listenSocket s then
       andThen (processDispatcherConnection S p socketsList w)
         (\<lambda>(good, l1, w1). processSockets S ps l1 w1)
     else processSockets S ps socketsList w)"

fun sayGoodbyeToAllDispatchers :: "'k sys \<Rightarrow> ptr list \<Rightarrow> 'k world \<Rightarrow> 'k world outcome" where
  "sayGoodbyeToAllDispatchers S [] w = Inr w"
| "sayGoodbyeToAllDispatchers S (p # ps) w =
     andThen (deref w p) (\<lambda>s.
     andThen (if socketType s = UNIX \<and> \<not> listenSocket s
              then (case k_write S (descriptor s) ''EXIT'' w of (n, w1) \<Rightarrow> unlessKilled S w1 (Inr w1))
              else Inr w)
       (sayGoodbyeToAllDispatchers S ps))"

fun pollAllForRead :: "ptr list \<Rightarrow> 'k world \<Rightarrow> 'k world outcome" where
  "pollAllForRead [] w = Inr w"
| "pollAllForRead (p # ps) w = andThen (modifyObj pollForRead p w) (pollAllForRead ps)"

text \<open>
  The variables of \<^verbatim>\<open>main\<close> and of the file. \<open>pollerFailed\<close> stands for the \<^verbatim>\<open>break\<close>. The
  handler of SIGINT runs between the statements; the flag is looked at once per round, so it
  is enough to ask whether the signal has come by then.
\<close>

record 'k lstate =
  exitRequested :: bool
  pollerFailed :: bool
  disp_pid :: int
  socketsList :: sockets_list
  outputSocketsList :: sockets_list
  world :: "'k world"

definition sig_INT :: "'k lstate \<Rightarrow> 'k lstate" where
  "sig_INT s = s\<lparr>exitRequested := True\<rparr>"

definition deliverSignals :: "'k sys \<Rightarrow> 'k lstate \<Rightarrow> 'k lstate" where
  "deliverSignals S s = (if sys_sigint S (kern (world s)) then sig_INT s else s)"

definition restartDispatcher :: "'k sys \<Rightarrow> 'k lstate \<Rightarrow> 'k lstate outcome" where
  "restartDispatcher S s =
     andThen (create_dispatcher S (world s)) (\<lambda>((r, pid), w1).
       Inr (s\<lparr>disp_pid := (case pid of None \<Rightarrow> disp_pid s | Some p \<Rightarrow> p), world := w1\<rparr>))"

definition handlePolled ::
    "'k sys \<Rightarrow> ErrorType \<Rightarrow> 'k lstate \<Rightarrow> 'k lstate outcome" where
  "handlePolled S errorType s =
     (if errorType = NO_ERROR then
        andThen (processSockets S (sockets (outputSocketsList s)) (socketsList s) (world s))
          (\<lambda>(l1, w1). Inr (s\<lparr>socketsList := l1, world := w1\<rparr>))
      else if errorType = TIMEOUT then
        (case wait_disp_child S (world s) of ((pid, report), w1) \<Rightarrow>
         if 0 < pid then restartDispatcher S (s\<lparr>world := w1\<rparr>) else Inr (s\<lparr>world := w1\<rparr>))
      else if errorType = INTERRUPTED then Inr s
      else Inr (s\<lparr>pollerFailed := True\<rparr>))"

definition listenerRound :: "'k sys \<Rightarrow> 'k lstate \<Rightarrow> 'k lstate outcome" where
  "listenerRound S s =
     andThen (clearSockets S (outputSocketsList s) (world s)) (\<lambda>(out1, w1).
     andThen (pollAllForRead (sockets (socketsList s)) w1) (\<lambda>w2.
     andThen (pollSockets S (socketsList s) out1 w2) (\<lambda>(errorType, out2, w3).
     andThen (handlePolled S errorType (s\<lparr>outputSocketsList := out2, world := w3\<rparr>)) (\<lambda>s1.
     Inr (deliverSignals S s1)))))"

definition listenerStops :: "'k lstate \<Rightarrow> bool" where
  "listenerStops s \<longleftrightarrow> exitRequested s \<or> pollerFailed s"

definition listenerLoop :: "'k sys \<Rightarrow> 'k lstate \<Rightarrow> 'k lstate outcome option" where
  "listenerLoop S s = repeatUntil listenerStops (listenerRound S) s"

abbreviation listenerReaches :: "'k sys \<Rightarrow> 'k lstate \<Rightarrow> 'k lstate \<Rightarrow> bool" where
  "listenerReaches S \<equiv> loopReaches listenerStops (listenerRound S)"

section \<open>Before and after the loop\<close>

text \<open>
  The configuration: the defaults replace the files when the command line was not complete.
\<close>

definition listenerConfig :: "(string \<Rightarrow> (char \<times> string) list) \<Rightarrow> ApplicationConfig" where
  "listenerConfig getopt =
     (let c = createConfigArgs getopt LISTENER
      in if \<not> ok c
         then setKeyFile ''../server-key.pem''
                (setCertFile ''../server-cert.pem'' (setCaFile ''../CA-cert.pem'' c))
         else c)"

text \<open>
  \<^verbatim>\<open>main\<close> up to the loop: an exit code, or the state in which the loop starts together with
  the two pointers \<^verbatim>\<open>main\<close> holds itself.
\<close>

definition listenerSockets ::
    "'k sys \<Rightarrow> socketFactory \<Rightarrow> 'k world \<Rightarrow> (ptr \<times> ptr \<times> 'k lstate) outcome" where
  "listenerSockets S tcpListenerSocketFactory w =
     andThen (createSocket S tcpListenerSocketFactory w) (\<lambda>(tcpListenerSocket, w1).
     andThen (createSocket S (createUnixListenerSocketFactory MY_SOCK_PATH) w1) (\<lambda>(unixListenerSocket, w2).
     andThen (create_dispatcher S w2) (\<lambda>((r, pid), w3).
     andThen (putSocket tcpListenerSocket (newSocketsList LISTENER_SOCKETS) w3) (\<lambda>(b1, l1, w4).
     andThen (putSocket unixListenerSocket l1 w4) (\<lambda>(b2, l2, w5).
     Inr (tcpListenerSocket, unixListenerSocket,
       deliverSignals S \<lparr>exitRequested = False, pollerFailed = False,
        disp_pid = (case pid of None \<Rightarrow> -1 | Some p \<Rightarrow> p), socketsList = l2,
        outputSocketsList = newSocketsList LISTENER_SOCKETS, world = w5\<rparr>))))))"

definition listenerStart ::
    "'k sys \<Rightarrow> (string \<Rightarrow> (char \<times> string) list) \<Rightarrow> 'k world \<Rightarrow>
     (int + ptr \<times> ptr \<times> 'k lstate) outcome" where
  "listenerStart S getopt w =
     (let c = listenerConfig getopt
      in case createContext S (caFile c) (certFile c) (keyFile c) ''1q2w3e4r'' (w\<lparr>appCfg := c\<rparr>) of
           (r, w1) \<Rightarrow>
         if r \<noteq> 0 then Inr (Inl 1)
         else case createTcpSslListenerSocketFactory 5555 32 w1 of
                Inl what \<Rightarrow> Inr (Inl 1)
              | Inr f \<Rightarrow> andThen (listenerSockets S f w1) (\<lambda>r. Inr (Inr r)))"

text \<open>
  After the loop: \<^verbatim>\<open>EXIT\<close> to the dispatchers, one look for a child, then the locals of the
  block in reverse order (the two lists, the two pointers) and the TLS context.
\<close>

definition listenerExit :: "'k sys \<Rightarrow> ptr \<Rightarrow> ptr \<Rightarrow> 'k lstate \<Rightarrow> 'k world outcome" where
  "listenerExit S tcpListenerSocket unixListenerSocket s =
     andThen (sayGoodbyeToAllDispatchers S (sockets (socketsList s)) (world s)) (\<lambda>w1.
     case wait_disp_child S w1 of ((pid, report), w2) \<Rightarrow>
     andThen (clearSockets S (outputSocketsList s) w2) (\<lambda>(out, w3).
     andThen (clearSockets S (socketsList s) w3) (\<lambda>(l, w4).
     andThen (releasePtr S unixListenerSocket w4) (\<lambda>w5.
     andThen (releasePtr S tcpListenerSocket w5) (\<lambda>w6.
     Inr (dropContext S w6))))))"

end
