(* ===== verification/ListenerSafety.thy ===== *)
theory ListenerSafety
  imports Listener
begin

text \<open>
  Safety of the listener: the accounts of owners together with the classes of listening
  sockets, kept by every handler. The contract of the poller is interpreted a second time,
  for these stronger accounts, and the loop is an interpretation of \<open>main_loop\<close>.
\<close>


section \<open>The class of a listening socket\<close>

definition listenerClasses :: "socketClass set" where
  "listenerClasses = {TcpListenerSocket} \<union> range UnixListenerSocket \<union> range TcpSslListenerSocket"

definition okClass :: "sock \<Rightarrow> bool" where
  "okClass s \<longleftrightarrow> (listenSocket s \<longrightarrow> dynClass s \<in> listenerClasses) \<and>
     (dynClass s \<in> range UnixListenerSocket \<longrightarrow> socketType s = UNIX)"

definition typed :: "'k world \<Rightarrow> bool" where
  "typed w \<longleftrightarrow> (\<forall>p c. heap w p = Some c \<longrightarrow> okClass (obj c))"

text \<open>What every operation of the listener keeps of the objects and of the configuration.\<close>

definition keeps :: "'k world \<Rightarrow> 'k world \<Rightarrow> bool" where
  "keeps w w' \<longleftrightarrow> (typed w \<longrightarrow> typed w') \<and> appCfg w' = appCfg w"

lemma keeps_refl [simp, intro]: "keeps w w" by (simp add: keeps_def)

lemma keeps_trans [trans]: "keeps w w1 \<Longrightarrow> keeps w1 w2 \<Longrightarrow> keeps w w2"
  by (simp add: keeps_def)

lemma keeps_sameProc: "sameProc w w' \<Longrightarrow> keeps w w'"
  by (simp add: keeps_def typed_def sameProcD)

lemma keeps_heap: "heap w' = heap w \<Longrightarrow> appCfg w' = appCfg w \<Longrightarrow> keeps w w'"
  by (simp add: keeps_def typed_def)

named_theorems keeping "operations that keep the classes of the objects and the configuration"

lemma keeps_modify [keeping]:
  "modifyObj pollForRead p w = Inr w' \<Longrightarrow> keeps w w'"
  "modifyObj (setEvents e) p w = Inr w' \<Longrightarrow> keeps w w'"
  "modifyObj (setRevents e) p w = Inr w' \<Longrightarrow> keeps w w'"
  by (auto simp: modifyObj_def keeps_def typed_def okClass_def sock_defs split: if_splits option.splits)

lemma keeps_share [keeping]: "sharePtr p w = Inr w' \<Longrightarrow> keeps w w'"
  by (auto simp: sharePtr_def keeps_def typed_def split: if_splits option.splits)

lemma keeps_release [keeping]: "releasePtr S p w = Inr w' \<Longrightarrow> keeps w w'"
  by (auto simp: releasePtr_def keeps_def typed_def sameProcD [OF destroySocket_frame]
      split: if_splits option.splits)

lemma keeps_makeSocket [keeping]:
  "makeSocket cls fd t l w = Inr (p, w') \<Longrightarrow> (l \<longrightarrow> cls \<in> listenerClasses) \<Longrightarrow>
   (cls \<in> range UnixListenerSocket \<longrightarrow> t = UNIX) \<Longrightarrow> keeps w w'"
  by (auto simp: makeObject_def makeShared_def outcome_simps keeps_def typed_def okClass_def split: if_splits)

lemma keeps_put [keeping]: "putSocket p l w = Inr (b, l', w') \<Longrightarrow> keeps w w'"
  by (auto simp: putSocket_def outcome_simps split: if_splits dest: keeping)

lemma keeps_del [keeping]: "delSocket S p l w = Inr (b, l', w') \<Longrightarrow> keeps w w'"
  by (auto simp: delSocket_def outcome_simps split: if_splits option.splits dest: keeping)

lemma keeps_releaseAll: "releaseAll (releasePtr S) ps w = Inr w' \<Longrightarrow> keeps w w'"
  by (induction ps arbitrary: w) (auto simp: outcome_simps dest: keeping intro: keeps_trans)

lemma keeps_clear [keeping]: "clearSockets S l w = Inr (l', w') \<Longrightarrow> keeps w w'"
  by (auto simp: clearSockets_def outcome_simps dest: keeps_releaseAll)

lemma keeps_collect: "collectPollInfo ps w = Inr (fds, w') \<Longrightarrow> keeps w w'"
  by (induction ps arbitrary: w fds) (auto simp: outcome_simps dest!: keeping intro: keeps_trans)

lemma keeps_distribute: "distribute revs i ps out w = Inr (out', w') \<Longrightarrow> keeps w w'"
proof (induction ps arbitrary: i out w)
  case (Cons p ps)
  then show ?case by (auto simp: outcome_simps split: if_splits dest!: keeping intro: keeps_trans)
qed simp

lemma keeps_poll [keeping]:
  assumes "pollSockets S inp out w = Inr (e, out', w')"
  shows "keeps w w'"
proof -
  from assms obtain fds w1 where c: "collectPollInfo (sockets inp) w = Inr (fds, w1)"
    by (auto simp: pollSockets_def outcome_simps)
  obtain r w2 where p: "k_poll S fds w1 = (r, w2)" by (metis surj_pair)
  have "keeps w w1" "keeps w1 w2"
    using c keeps_collect p call_frame(1) keeps_sameProc by blast+
  moreover have "w' = w2 \<or> (\<exists>out'. distribute (pollRevents r) 0 (sockets inp) out w2 = Inr (out', w'))"
    using assms c p by (auto simp: pollSockets_def outcome_simps split: if_splits)
  ultimately show ?thesis using keeps_distribute keeps_trans by blast
qed

section \<open>The accounts of the listener\<close>

definition good :: "ApplicationConfig \<Rightarrow> 'k world \<Rightarrow> ptr multiset \<Rightarrow> bool" where
  "good cfg w M \<longleftrightarrow> owned w M \<and> typed w \<and> appCfg w = cfg"

lemma good_step: "good cfg w M \<Longrightarrow> keeps w w' \<Longrightarrow> owned w' N \<Longrightarrow> good cfg w' N"
  by (simp add: good_def keeps_def)

lemma good_sameProc: "sameProc w w' \<Longrightarrow> good cfg w M \<Longrightarrow> good cfg w' M"
  using good_step [OF _ keeps_sameProc] owned_sameProc good_def by metis

lemmas good_calls = call_frame [THEN good_sameProc]

lemma goodD: "good cfg w M \<Longrightarrow> owned w M" by (simp add: good_def)

lemma good_null [simp]: "good cfg w (add_mset nullptr M) = good cfg w M" by (simp add: good_def)

lemma good_sat:
  assumes "good cfg w M" "sat E (\<lambda>w'. owned w' N) m" "\<And>w'. m = Inr w' \<Longrightarrow> keeps w w'"
  shows "sat E (\<lambda>w'. good cfg w' N) m"
  using assms by (cases m) (auto intro: good_step)

text \<open>The contracts of owner counts, of the list and of the poller hold for these accounts too.\<close>

interpretation lsp: sockets_poller "good cfg" sharePtr "releasePtr S" putSocket "delSocket S"
  "clearSockets S" sockets maxSize "pollSockets S" MAX_SOCKETS_TO_POLL for S :: "'k sys" and cfg
proof (unfold_locales, goal_cases)
  case (1 w M p)
  then show ?case using owned_share [OF goodD] keeps_share good_step by metis
next
  case (2 w p M)
  then show ?case using owned_release [OF goodD] keeps_release good_step by metis
next
  case (3 l p w)
  then show ?case by simp
next
  case (4 l w M p)
  with sl.put_ok [OF 4(1) goodD [OF 4(2)] 4(3)] show ?case using keeps_put good_step by meson
next
  case (5 l p w)
  then show ?case by simp
next
  case (6 w l M p)
  then obtain b l' w' where d: "delSocket S p l w = Inr (b, l', w')" "owned w' (mset (sockets l') + M)"
    "maxSize l' = maxSize l"
    "if b then \<exists>xs q ys. sockets l = xs @ q # ys \<and> sockets l' = xs @ ys else l' = l \<and> w' = w"
    using delSocket_ok [OF goodD [OF 6(1)] 6(2-4)] by blast
  then have "good cfg w' (mset (sockets l') + M)" using 6(1) keeps_del good_step by metis
  with d show ?case by blast
next
  case (7 w l M)
  then obtain l' w' where "clearSockets S l w = Inr (l', w')" "sockets l' = []" "maxSize l' = maxSize l"
    "owned w' M" using sl.clear_ok [OF goodD] by blast
  with 7 show ?case using keeps_clear good_step by metis
next
  case (8 w inp out M)
  then obtain e out' w' where d: "pollSockets S inp out w = Inr (e, out', w')"
    "owned w' (mset (sockets inp) + mset (sockets out') + M)" "maxSize out' = maxSize out"
    "length (sockets out') \<le> maxSize out" "set (sockets out') \<subseteq> set (sockets out) \<union> set (sockets inp)"
    "e \<noteq> NO_ERROR \<longrightarrow> out' = out"
    using pollSockets_owned [OF goodD [OF 8(1)] 8(2-4)] by blast
  then have "good cfg w' (mset (sockets inp) + mset (sockets out') + M)"
    using 8(1) keeps_poll good_step by metis
  with d show ?case by blast
qed

section \<open>The handlers\<close>

lemmas keeps_calls = call_frame [THEN keeps_sameProc]

lemma good_split:
  assumes "good cfg w M" "sat E (\<lambda>(x, w'). owned w' (N x)) m" "\<And>x w'. m = Inr (x, w') \<Longrightarrow> keeps w w'"
  shows "sat E (\<lambda>(x, w'). good cfg w' (N x)) m"
  using assms by (cases m) (auto intro: good_step)

lemma keeps_set_bio [simp]: "keeps (k_SSL_set_bio S ssl b w) w' = keeps w w'"
  by (simp add: keeps_def typed_def k_SSL_set_bio_def)

lemma keeps_accept [keeping]:
  assumes "acceptConnection S p w = Inr (q, w')"
  shows "keeps w w'"
proof -
  have plain: "keeps w w'" if "acceptPlain S s t w = Inr (q, w')" for s t
    using that by (auto simp: acceptPlain_def split: prod.splits if_splits
        dest!: keeps_calls keeps_makeSocket intro: keeps_trans)
  have ssl: "keeps w w'" if "acceptSsl S s ctx w = Inr (q, w')" for s ctx
    using that by (auto simp: acceptSsl_def outcome_simps split: prod.splits if_splits
        dest!: keeps_calls keeps_makeSocket; simp add: keeps_def)
  from assms obtain s where "deref w p = Inr s" by (auto simp: acceptConnection_def outcome_simps)
  with assms show ?thesis
    by (cases "dynClass s") (auto simp: acceptConnection_def intro: plain ssl)
qed

lemma acceptConnection_good:
  assumes "good cfg w M" "deref w p = Inr s" "listenSocket s" "peerCrashes S \<subseteq> E"
  shows "sat E (\<lambda>(q, w'). good cfg w' (add_mset q M)) (acceptConnection S p w)"
proof -
  have "okClass s"
    using assms(1,2) by (auto simp: good_def typed_def deref_def split: if_splits option.splits)
  then have "dynClass s \<in> listenerClasses" using assms(3) by (simp add: okClass_def)
  from acceptConnection_sat [OF goodD [OF assms(1)] assms(2) this [unfolded listenerClasses_def] assms(4)]
  show ?thesis by (rule good_split [OF assms(1)]) (rule keeps_accept)
qed

lemma good_deref: "good cfg w M \<Longrightarrow> p \<in># M \<Longrightarrow> p \<noteq> nullptr \<Longrightarrow> \<exists>s. deref w p = Inr s"
  using goodD owned_deref by blast

lemma good_sendCmsg [simp]: "good cfg (w\<lparr>sendCmsg := x\<rparr>) M = good cfg w M"
  by (simp add: good_def typed_def)

lemma sendSocket_good:
  assumes "good cfg w M" "p \<in># M" "p \<noteq> nullptr" "c \<in># M" "c \<noteq> nullptr" "pipeCrashes S \<subseteq> E"
  shows "sat E (\<lambda>(b, w'). good cfg w' M) (sendSocket S p c w)"
proof -
  obtain sp sc where d: "deref w p = Inr sp" "deref w c = Inr sc" using good_deref assms by blast
  show ?thesis
    using d assms(1,6)
    by (auto simp: sendSocket_def Let_def split: prod.splits if_splits dest!: good_calls intro!: sat_unlessKilled)
qed

lemma sendToDispatchers_good:
  assumes "good cfg w M" "c \<in># M" "c \<noteq> nullptr" "set ps \<subseteq> set_mset M" "nullptr \<notin> set ps"
    and "pipeCrashes S \<subseteq> E"
  shows "sat E (\<lambda>w'. good cfg w' M) (sendToDispatchers S c ps w)"
  using assms
proof (induction ps arbitrary: w)
  case Nil
  then show ?case by simp
next
  case (Cons p ps)
  then have p: "p \<in># M" "p \<noteq> nullptr" by auto
  with Cons.prems(1) obtain s where s: "deref w p = Inr s" using good_deref by blast
  have "sat E (\<lambda>w'. good cfg w' M) (if socketType s = UNIX \<and> \<not> listenSocket s
      then andThen (sendSocket S p c w) (\<lambda>(sent, w1). Inr w1) else Inr w)"
    using Cons.prems(1) by (auto intro!: sat_andThen [OF sendSocket_good [OF Cons.prems(1) p Cons.prems(2,3,6)]])
  then show ?case
    using s Cons by (auto intro!: sat_andThen [where Q = "\<lambda>w'. good cfg w' M"])
qed

lemma good_release:
  "good cfg w (add_mset p M) \<Longrightarrow> sat E (\<lambda>w'. good cfg w' M) (releasePtr S p w)"
  using lsp.release_ok by (fastforce intro: satI)

lemma processClientConnection_good:
  assumes "good cfg w (mset (sockets l) + M)" "deref w p = Inr s" "listenSocket s" "nullptr \<notin> set (sockets l)"
    and "peerCrashes S \<subseteq> E"
  shows "sat E (\<lambda>(b, w'). good cfg w' (mset (sockets l) + M)) (processClientConnection S p l w)"
  unfolding processClientConnection_def
proof (rule sat_andThen [OF acceptConnection_good [OF assms(1-3,5)]], clarify, goal_cases)
  case (1 c w1)
  show ?case
  proof (cases "c = nullptr")
    case True
    with 1 show ?thesis by simp
  next
    case False
    have "sat E (\<lambda>w'. good cfg w' (add_mset c (mset (sockets l) + M)))
        (sendToDispatchers S c (sockets l) w1)"
      by (rule sendToDispatchers_good [OF 1 _ False _ assms(4)]) (use assms(5) in \<open>auto simp: peerCrashes_def\<close>)
    then have "sat E (\<lambda>(b, w'). good cfg w' (mset (sockets l) + M))
        (andThen (sendToDispatchers S c (sockets l) w1)
          (\<lambda>w2. andThen (releasePtr S c w2) (\<lambda>w3. Inr (True, w3))))"
      by (rule sat_andThen) (auto intro!: sat_andThen [OF good_release])
    with False show ?thesis by simp
  qed
qed

text \<open>
  The crashes a listener can meet: the forked child always leaves the program, with an
  assertion only when \<^verbatim>\<open>execl\<close> fails, the configuration text may not fit, \<^verbatim>\<open>SSL_new\<close> may give no
  SSL object for an accepted client, and a write to a peer that is gone raises SIGPIPE. Each
  is there only if the environment can bring it about.
\<close>

definition listenerCrashes :: "'k sys \<Rightarrow> ApplicationConfig \<Rightarrow> crash set" where
  "listenerCrashes S cfg = insert Replaced (peerCrashes S \<union>
     (if (\<forall>k. length (formatConfig (sys_getpid S k) cfg) < CONFIG_BUFFER_SIZE) \<and>
         (\<forall>path args k. fst (sys_execl S path args k)) then {} else {AssertFailed}))"

lemma peer_listenerCrashes [simp, intro]:
  "peerCrashes S \<subseteq> listenerCrashes S cfg" "pipeCrashes S \<subseteq> listenerCrashes S cfg"
  by (auto simp: listenerCrashes_def peerCrashes_def)

lemma null_not_listenerCrash [simp]: "NullDeref \<notin> listenerCrashes S cfg"
  by (auto simp: listenerCrashes_def peerCrashes_def sslCrashes_def pipeCrashes_def)

lemma sendConfig_good:
  assumes "good cfg w M"
  shows "sat (listenerCrashes S cfg) (\<lambda>(b, w'). good cfg w' M) (sendConfig S fd w)"
proof -
  obtain n w1 where w1: "k_write S fd ''CONFIG'' w = (n, w1)" by (metis surj_pair)
  then have g: "good cfg w1 M" using assms good_calls(3) by blast
  then have c: "appCfg w1 = cfg" by (simp add: good_def)
  then have "AssertFailed \<in> listenerCrashes S cfg"
    if "\<not> length (formatConfig (sys_getpid S (kern w1)) (appCfg w1)) < CONFIG_BUFFER_SIZE"
    using that unfolding listenerCrashes_def by auto
  with w1 g show ?thesis
    by (auto simp: sendConfig_def Let_def guarded_def listenerCrashes_def peerCrashes_def pipeCrashes_def
        split: prod.splits dest!: good_calls)
qed

lemma processDispatcherConnection_good:
  assumes "good cfg w (mset (sockets l) + M)" "deref w p = Inr s" "listenSocket s"
    and "listOk n l"
  shows "sat (listenerCrashes S cfg) (\<lambda>(b, l', w'). good cfg w' (mset (sockets l') + M) \<and> listOk n l')
    (processDispatcherConnection S p l w)"
  unfolding processDispatcherConnection_def
proof (rule sat_andThen [OF acceptConnection_good [OF assms(1-3) peer_listenerCrashes(1)]], clarify, goal_cases)
  case (1 c w1)
  show ?case
  proof (cases "c = nullptr")
    case True
    with 1 assms(4) show ?thesis by simp
  next
    case False
    from 1 have g1: "good cfg w1 (mset (sockets l) + add_mset c M)" by simp
    obtain b l1 w2 where put: "putSocket c l w1 = Inr (b, l1, w2)"
      using lsp.put_total [OF g1, of c] by auto
    have "c \<in># mset (sockets l) + add_mset c M" by simp
    note g2 = lsp.put_own [OF g1 this put]
    then have ok: "listOk n l1" using assms(4) False by (auto simp: listOk_def)
    obtain sc where sc: "deref w2 c = Inr sc" using good_deref g2 False by force
    have "sat (listenerCrashes S cfg) (\<lambda>(b, w'). good cfg w' (add_mset c (mset (sockets l1) + M)))
        (sendConfig S (descriptor sc) w2)"
      by (rule sendConfig_good) (use conjunct1 [OF g2] in simp)
    then have "sat (listenerCrashes S cfg)
        (\<lambda>(b, l', w'). good cfg w' (mset (sockets l') + M) \<and> listOk n l')
        (andThen (sendConfig S (descriptor sc) w2) (\<lambda>(good, w3).
         andThen (releasePtr S c w3) (\<lambda>w4. Inr (good, l1, w4))))"
      by (rule sat_andThen) (auto intro!: sat_andThen [OF good_release] simp: ok)
    with put sc False show ?thesis by simp
  qed
qed

lemma delSocket_good:
  assumes "good cfg w (mset (sockets l) + M)" "p \<in># mset (sockets l) + M" "p \<noteq> nullptr" "listOk n l"
  shows "sat E (\<lambda>(b, l', w'). good cfg w' (mset (sockets l') + M) \<and> listOk n l') (delSocket S p l w)"
proof -
  obtain b l' w' where del: "delSocket S p l w = Inr (b, l', w')"
    "good cfg w' (mset (sockets l') + M)" "maxSize l' = maxSize l"
    "if b then \<exists>xs q ys. sockets l = xs @ q # ys \<and> sockets l' = xs @ ys else l' = l \<and> w' = w"
    using lsp.del_ok [OF assms(1-3)] assms(4) unfolding listOk_def by blast
  then have "listOk n l'" using assms(4) by (auto simp: listOk_def split: if_splits)
  with del show ?thesis by simp
qed

lemma processSockets_good:
  assumes "good cfg w (mset (sockets l) + M)" "set ps \<subseteq> set_mset M" "nullptr \<notin> set ps" "listOk n l"
  shows "sat (listenerCrashes S cfg) (\<lambda>(l', w'). good cfg w' (mset (sockets l') + M) \<and> listOk n l')
    (processSockets S ps l w)"
  using assms
proof (induction ps arbitrary: l w)
  case Nil
  then show ?case by simp
next
  case (Cons p ps)
  let ?P = "\<lambda>(l', w'). good cfg w' (mset (sockets l') + M) \<and> listOk n l'"
  have p: "p \<in># mset (sockets l) + M" "p \<noteq> nullptr" using Cons.prems by auto
  then obtain s where s: "deref w p = Inr s" using good_deref Cons.prems(1) by blast
  have rest: "sat (listenerCrashes S cfg) ?P (processSockets S ps l1 w1)"
    if "good cfg w1 (mset (sockets l1) + M)" "listOk n l1" for l1 w1
    using Cons.IH [OF that(1)] that(2) Cons.prems by simp
  have nn: "nullptr \<notin> set (sockets l)" using Cons.prems(4) by (simp add: listOk_def)
  have "sat (listenerCrashes S cfg) ?P
      (andThen (delSocket S p l w) (\<lambda>(deleted, l1, w1). processSockets S ps l1 w1))"
    by (rule sat_andThen [OF delSocket_good [OF Cons.prems(1) p Cons.prems(4)]]) (auto intro: rest)
  moreover have "sat (listenerCrashes S cfg) ?P
      (andThen (processClientConnection S p l w) (\<lambda>(good, w1). processSockets S ps l w1))"
    if "listenSocket s"
    by (rule sat_andThen [OF processClientConnection_good [OF Cons.prems(1) s that nn peer_listenerCrashes(1)]])
      (auto intro: rest Cons.prems(4))
  moreover have "sat (listenerCrashes S cfg) ?P
      (andThen (processDispatcherConnection S p l w) (\<lambda>(good, l1, w1). processSockets S ps l1 w1))"
    if "listenSocket s"
    by (rule sat_andThen [OF processDispatcherConnection_good [OF Cons.prems(1) s that Cons.prems(4)]])
      (auto intro: rest)
  ultimately show ?case using s rest [OF Cons.prems(1,4)] by simp
qed


section \<open>The loop\<close>

lemma pollAllForRead_good:
  "good cfg w M \<Longrightarrow> set ps \<subseteq> set_mset M \<Longrightarrow> nullptr \<notin> set ps \<Longrightarrow>
   sat E (\<lambda>w'. good cfg w' M) (pollAllForRead ps w)"
proof (induction ps arbitrary: w)
  case Nil
  then show ?case by simp
next
  case (Cons p ps)
  then have p: "p \<in># M" "p \<noteq> nullptr" by auto
  from modify_sat [OF goodD [OF Cons.prems(1)] p]
  have "sat E (\<lambda>w'. good cfg w' M) (modifyObj pollForRead p w)"
    by (rule good_sat [OF Cons.prems(1)]) (rule keeps_modify)
  then show ?case unfolding pollAllForRead.simps by (rule sat_andThen) (use Cons in auto)
qed

lemma create_dispatcher_good:
  assumes "good cfg w M"
  shows "sat (listenerCrashes S cfg) (\<lambda>(r, w'). good cfg w' M) (create_dispatcher S w)"
proof -
  obtain r w1 where f: "k_fork S w = (r, w1)" by (metis surj_pair)
  obtain b w2 where e: "k_execl S ''mydisp'' [''mydisp'', MY_SOCK_PATH] w1 = (b, w2)" by (metis surj_pair)
  have "fst (sys_execl S ''mydisp'' [''mydisp'', MY_SOCK_PATH] (kern w1)) = b"
    using e by (auto simp: k_execl_def split: prod.splits)
  then have "(if b then Replaced else AssertFailed) \<in> listenerCrashes S cfg"
    by (auto simp: listenerCrashes_def)
  with f e good_calls [OF _ assms] show ?thesis
    by (auto simp: create_dispatcher_def split: if_splits)
qed

text \<open>
  The invariant of the loop: the two lists and the two pointers of \<^verbatim>\<open>main\<close> account for every
  owner, listening sockets are of a listening class, the configuration does not change.
\<close>

definition listenerInv :: "ApplicationConfig \<Rightarrow> ptr \<Rightarrow> ptr \<Rightarrow> 'k lstate \<Rightarrow> bool" where
  "listenerInv cfg t u s \<longleftrightarrow>
     good cfg (world s)
       (mset (sockets (socketsList s)) + mset (sockets (outputSocketsList s)) + {#t, u#}) \<and>
     listOk LISTENER_SOCKETS (socketsList s) \<and> listOk LISTENER_SOCKETS (outputSocketsList s)"

lemma handlePolled_good:
  assumes inv: "listenerInv cfg t u s"
    and sub: "set (sockets (outputSocketsList s)) \<subseteq> set (sockets (socketsList s))"
  shows "sat (listenerCrashes S cfg) (listenerInv cfg t u) (handlePolled S e s)"
proof -
  let ?out = "mset (sockets (outputSocketsList s)) + {#t, u#}"
  from inv have g: "good cfg (world s) (mset (sockets (socketsList s)) + ?out)"
    and ok: "listOk LISTENER_SOCKETS (socketsList s)" "listOk LISTENER_SOCKETS (outputSocketsList s)"
    by (auto simp: listenerInv_def ac_simps)
  have ready: "sat (listenerCrashes S cfg) (listenerInv cfg t u)
      (andThen (processSockets S (sockets (outputSocketsList s)) (socketsList s) (world s))
        (\<lambda>(l1, w1). Inr (s\<lparr>socketsList := l1, world := w1\<rparr>)))"
    by (rule sat_andThen [OF processSockets_good [OF g _ _ ok(1)]])
      (use ok(2) in \<open>auto simp: listenerInv_def listOk_def ac_simps\<close>)
  obtain pid st w1 where wp: "k_waitpid S (world s) = ((pid, st), w1)" by (metis surj_pair)
  then have g1: "good cfg w1 (mset (sockets (socketsList s)) + ?out)" using g good_calls(27) by blast
  then have inv1: "listenerInv cfg t u (s\<lparr>world := w1\<rparr>)"
    using inv by (simp add: listenerInv_def ac_simps)
  have "sat (listenerCrashes S cfg) (listenerInv cfg t u) (restartDispatcher S (s\<lparr>world := w1\<rparr>))"
    unfolding restartDispatcher_def
    by (rule sat_andThen [OF create_dispatcher_good [where M = "mset (sockets (socketsList s)) + ?out"]])
      (use g1 inv in \<open>auto simp: listenerInv_def ac_simps\<close>)
  then show ?thesis
    using ready inv inv1 wp
    by (auto simp: handlePolled_def wait_disp_child_def) (auto simp: listenerInv_def)
qed

lemma deliverSignals_inv [simp]: "listenerInv cfg t u (deliverSignals S s) = listenerInv cfg t u s"
  by (simp add: deliverSignals_def sig_INT_def listenerInv_def)

lemma listenerRound_good:
  assumes inv: "listenerInv cfg t u s"
  shows "sat (listenerCrashes S cfg) (listenerInv cfg t u) (listenerRound S s)"
proof -
  let ?l = "sockets (socketsList s)" and ?M = "mset (sockets (socketsList s)) + {#t, u#}"
  from inv have g: "good cfg (world s) (mset ?l + mset (sockets (outputSocketsList s)) + {#t, u#})"
    and ok: "listOk LISTENER_SOCKETS (socketsList s)" "listOk LISTENER_SOCKETS (outputSocketsList s)"
    by (auto simp: listenerInv_def)
  have nn: "nullptr \<notin> set ?l" "length ?l \<le> MAX_SOCKETS_TO_POLL"
    using ok(1) by (auto simp: listOk_def LISTENER_SOCKETS_def MAX_SOCKETS_TO_POLL_def)
  from g have "good cfg (world s) (mset (sockets (outputSocketsList s)) + ?M)" by (simp add: ac_simps)
  then obtain out1 w1 where c: "clearSockets S (outputSocketsList s) (world s) = Inr (out1, w1)"
    "good cfg w1 ?M" using lsp.clear_ok by blast
  obtain w2 where w2: "pollAllForRead ?l w1 = Inr w2" "good cfg w2 ?M"
    using sat_emptyD [OF pollAllForRead_good [OF c(2) _ nn(1)]] by auto
  obtain e out2 w3 where p: "pollSockets S (socketsList s) out1 w2 = Inr (e, out2, w3)"
    "good cfg w3 (mset ?l + mset (sockets out2) + {#t, u#})" "set (sockets out2) \<subseteq> set ?l"
    "length (sockets out2) \<le> maxSize (outputSocketsList s)" "maxSize out2 = maxSize (outputSocketsList s)"
    using lsp.clear_then_poll [OF g nn c(1) w2(2)] by blast
  have "listenerInv cfg t u (s\<lparr>outputSocketsList := out2, world := w3\<rparr>)"
    using p ok nn by (auto simp: listenerInv_def listOk_def)
  from handlePolled_good [OF this] p(3)
  have "sat (listenerCrashes S cfg) (listenerInv cfg t u)
      (handlePolled S e (s\<lparr>outputSocketsList := out2, world := w3\<rparr>))" by simp
  then have "sat (listenerCrashes S cfg) (listenerInv cfg t u)
      (andThen (handlePolled S e (s\<lparr>outputSocketsList := out2, world := w3\<rparr>))
        (\<lambda>s1. Inr (deliverSignals S s1)))"
    by (rule sat_andThen) simp
  with c w2 p show ?thesis by (simp add: listenerRound_def)
qed

interpretation ll: main_loop listenerStops "listenerRound S" "listenerInv cfg t u"
  "listenerCrashes S cfg" for S :: "'k sys" and cfg t u
  by unfold_locales (rule listenerRound_good)

section \<open>From start to exit\<close>

lemma keeps_unlink [simp]: "keeps (k_unlink S path w) w' = keeps w w'"
  by (simp add: keeps_def typed_def k_unlink_def)

lemma keeps_makeListener:
  "makeSocket (UnixListenerSocket path) fd UNIX l w = Inr (p, w') \<Longrightarrow> keeps w w'"
  "makeSocket (TcpSslListenerSocket ctx) fd t l w = Inr (p, w') \<Longrightarrow> keeps w w'"
  by (auto elim!: keeps_makeSocket simp: listenerClasses_def)

lemma keeps_unixListener: "unixListenerCreate S path w = Inr (p, w') \<Longrightarrow> keeps w w'"
  by (auto simp: unixListenerCreate_def split: prod.splits if_splits
      dest!: keeps_calls keeps_makeListener; simp add: keeps_def)

lemma keeps_tcpSslListener: "tcpSslListenerCreate S port q ctx w = Inr (p, w') \<Longrightarrow> keeps w w'"
  by (auto simp: tcpSslListenerCreate_def split: prod.splits option.splits
      dest!: openTcpListener_frame [THEN keeps_sameProc] keeps_makeListener; simp add: keeps_def)

lemma deliverSignals_fields [simp]:
  "world (deliverSignals S s) = world s" "socketsList (deliverSignals S s) = socketsList s"
  "outputSocketsList (deliverSignals S s) = outputSocketsList s"
  by (simp_all add: deliverSignals_def sig_INT_def)

text \<open>The state the loop starts in; a pointer that is null has no owners to account for.\<close>

lemma listenerSockets_state:
  assumes "listenerSockets S (TcpSslListenerSocketFactory port q ctx) w = Inr (t, u, s)"
    and "good cfg w {#}"
  shows "good cfg (world s) {#t, u, t, u#} \<and>
    socketsList s = \<lparr>sockets = [t, u], maxSize = LISTENER_SOCKETS\<rparr> \<and>
    outputSocketsList s = newSocketsList LISTENER_SOCKETS"
proof -
  let ?f = "TcpSslListenerSocketFactory port q ctx" and ?g = "UnixListenerSocketFactory MY_SOCK_PATH"
  from assms(1) obtain w1 w2 r pid w3 b1 l1 w4 b2 l2 w5 where st:
    "createSocket S ?f w = Inr (t, w1)" "createSocket S ?g w1 = Inr (u, w2)"
    "create_dispatcher S w2 = Inr ((r, pid), w3)"
    "putSocket t (newSocketsList LISTENER_SOCKETS) w3 = Inr (b1, l1, w4)"
    "putSocket u l1 w4 = Inr (b2, l2, w5)"
    "s = deliverSignals S \<lparr>exitRequested = False, pollerFailed = False,
        disp_pid = (case pid of None \<Rightarrow> -1 | Some p \<Rightarrow> p), socketsList = l2,
        outputSocketsList = newSocketsList LISTENER_SOCKETS, world = w5\<rparr>"
    unfolding listenerSockets_def by (simp only: andThen_eq_Inr split_paired_Ex prod.case) auto
  have "owned w1 {#t#}" using createSocket_sat [OF goodD [OF assms(2)], of ?f S] st(1) by simp
  then have g1: "good cfg w1 {#t#}" using assms(2) keeps_tcpSslListener st(1) good_step by fastforce
  then have "owned w2 {#u, t#}" using createSocket_sat [OF goodD [OF g1], of ?g S] st(2) by simp
  then have g2: "good cfg w2 {#u, t#}" using g1 keeps_unixListener st(2) good_step by fastforce
  then have g3: "good cfg w3 (mset (sockets (newSocketsList LISTENER_SOCKETS)) + {#t, u#})"
    using create_dispatcher_good [OF g2, of S] st(3) by (simp add: newSocketsList_def add_mset_commute)
  note g4 = lsp.put_own [OF g3 _ st(4)]
  have "good cfg w4 (mset (sockets l1) + {#t, u#})" "sockets l1 = [t]" "maxSize l1 = LISTENER_SOCKETS"
    using g4 by (auto simp: newSocketsList_def LISTENER_SOCKETS_def)
  moreover from lsp.put_own [OF this(1) _ st(5)] this
  have "good cfg w5 (mset (sockets l2) + {#t, u#})" "sockets l2 = [t, u]" "maxSize l2 = LISTENER_SOCKETS"
    by (auto simp: LISTENER_SOCKETS_def)
  ultimately show ?thesis using st(6) by (simp add: add_mset_commute)
qed

lemma listenerSockets_inv:
  assumes "listenerSockets S (TcpSslListenerSocketFactory port q ctx) w = Inr (t, u, s)"
    and "good cfg w {#}" "t \<noteq> nullptr" "u \<noteq> nullptr"
  shows "listenerInv cfg t u s"
  using listenerSockets_state [OF assms(1,2)] assms(3,4)
  by (auto simp: listenerInv_def listOk_def newSocketsList_def LISTENER_SOCKETS_def add_mset_commute)

lemma sayGoodbye_good:
  "good cfg w M \<Longrightarrow> set ps \<subseteq> set_mset M \<Longrightarrow> nullptr \<notin> set ps \<Longrightarrow>
   sat (pipeCrashes S) (\<lambda>w'. good cfg w' M) (sayGoodbyeToAllDispatchers S ps w)"
proof (induction ps arbitrary: w)
  case Nil
  then show ?case by simp
next
  case (Cons p ps)
  then obtain s where s: "deref w p = Inr s" using good_deref by force
  obtain n w1 where n: "k_write S (descriptor s) ''EXIT'' w = (n, w1)" by (metis surj_pair)
  then have "sat (pipeCrashes S) (\<lambda>w'. good cfg w' M) (if socketType s = UNIX \<and> \<not> listenSocket s
      then (case k_write S (descriptor s) ''EXIT'' w of (n, w1) \<Rightarrow> unlessKilled S w1 (Inr w1)) else Inr w)"
    using Cons.prems(1) good_calls(3) [OF n Cons.prems(1)] by (auto intro!: sat_unlessKilled)
  with s Cons show ?case by (auto intro!: sat_andThen [where Q = "\<lambda>w'. good cfg w' M"])
qed

lemma dropContext_owned: "owned (dropContext S w) M = owned w M"
  by (rule owned_cong; simp add: dropContext_def k_SSL_CTX_free_def)

lemma listenerExit_good:
  assumes "listenerInv cfg t u s"
  shows "sat (pipeCrashes S) (\<lambda>w'. owned w' {#}) (listenerExit S t u s)"
proof -
  let ?l = "mset (sockets (socketsList s))" and ?o = "mset (sockets (outputSocketsList s))"
  have g: "good cfg (world s) (?o + (?l + {#u, t#}))" and nn: "nullptr \<notin> set (sockets (socketsList s))"
    using assms by (auto simp: listenerInv_def listOk_def ac_simps add_mset_commute)
  have sub: "set (sockets (socketsList s)) \<subseteq> set_mset (?o + (?l + {#u, t#}))" by auto
  show ?thesis
    unfolding listenerExit_def
  proof (rule sat_andThen [OF sayGoodbye_good [OF g sub nn]], goal_cases)
    case (1 w1)
    obtain pid st w2 where wp: "k_waitpid S w1 = ((pid, st), w2)" by (metis surj_pair)
    have o2: "owned w2 (?o + (?l + {#u, t#}))" using good_calls(27) [OF wp 1] goodD by blast
    have "sat (pipeCrashes S) (\<lambda>w'. owned w' {#}) (andThen (clearSockets S (outputSocketsList s) w2) (\<lambda>(out, w3).
       andThen (clearSockets S (socketsList s) w3) (\<lambda>(l, w4).
       andThen (releasePtr S u w4) (\<lambda>w5.
       andThen (releasePtr S t w5) (\<lambda>w6. Inr (dropContext S w6))))))"
    proof (rule sat_andThen [OF clearSockets_sat [OF o2]], clarify, goal_cases)
      case (1 out w3)
      show ?case
      proof (rule sat_andThen [OF clearSockets_sat [OF 1]], clarify, goal_cases)
        case (1 l w4)
        show ?case
        proof (rule sat_andThen [OF release_sat [OF 1]], goal_cases)
          case (1 w5)
          show ?case
            by (rule sat_andThen [OF release_sat [OF 1]])
              (simp add: dropContext_owned)
        qed
      qed
    qed
    then show ?case using wp by (auto simp: wait_disp_child_def)
  qed
qed

lemma listenerRound_null:
  assumes "listenerSockets S (TcpSslListenerSocketFactory port q ctx) w = Inr (t, u, s)"
    and "good cfg w {#}" "t = nullptr \<or> u = nullptr"
  shows "listenerRound S s = Inl NullDeref"
proof -
  note st = listenerSockets_state [OF assms(1,2)]
  have "pollAllForRead [t, u] (world s) = Inl NullDeref"
  proof (cases "t = nullptr")
    case True
    then show ?thesis by (simp add: modifyObj_def)
  next
    case False
    then obtain w' where "modifyObj pollForRead t (world s) = Inr w'"
      using owned_modify [OF goodD [OF conjunct1 [OF st]], of t] by auto
    with False assms(3) show ?thesis by (simp add: modifyObj_def [of _ 0])
  qed
  with st show ?thesis
    by (simp add: listenerRound_def clearSockets_def newSocketsList_def)
qed

lemma good_start: "owned w {#} \<Longrightarrow> good (appCfg w) w {#}"
  using owned_None [of w "{#}"] by (simp add: good_def typed_def)

section \<open>Properties of the listener\<close>

text \<open>The definitions a concrete start of the listener runs through.\<close>

lemmas startup_defs = listenerSockets_def tcpSslListenerCreate_def openTcpListener_def call_defs replay_def
  makeObject_def newSocket_def FREE_SOCKET_def makeShared_def unixListenerCreate_def create_dispatcher_def
  putSocket_def newSocketsList_def LISTENER_SOCKETS_def sharePtr_def deliverSignals_def sig_INT_def
  logCall_def startWorld_def numeral_2_eq_2



text \<open>
  C40. A listening socket that could not be made is put into the list all the same, as a null
  pointer, and the first round dereferences it.
\<close>

theorem listener_null_socket_crashes:
  assumes "listenerSockets S (TcpSslListenerSocketFactory port q ctx) w = Inr (t, u, s)"
    and "owned w {#}" "t = nullptr \<or> u = nullptr"
  shows "listenerRound S s = Inl NullDeref"
  by (rule listenerRound_null [OF assms(1) good_start [OF assms(2)] assms(3)])

theorem listener_null_socket_crashes_witness:
  "\<exists>u s. listenerSockets replay (TcpSslListenerSocketFactory 5555 32 9)
      (startWorld LISTENER [ARet 3, ARet 0, ARet (-1), ARet 4, ARet 0, ARet 0, ARet 77]) =
        Inr (nullptr, u, s) \<and> listenerRound replay s = Inl NullDeref"
proof -
  let ?w = "startWorld LISTENER [ARet 3, ARet 0, ARet (-1), ARet 4, ARet 0, ARet 0, ARet 77]"
  obtain u s where s: "listenerSockets replay (TcpSslListenerSocketFactory 5555 32 9) ?w = Inr (nullptr, u, s)"
    by (simp add: startup_defs)
  have own: "owned ?w {#}" by (simp add: owned_def ownersOf_def)
  from listener_null_socket_crashes [OF s own] s show ?thesis by auto
qed

end
