(* ===== verification/ListenerProtocol.thy ===== *)
theory ListenerProtocol
  imports ListenerSafety
begin

text \<open>
  What the listener of \<^verbatim>\<open>mylsnr.cpp\<close> says to whom: descriptors of clients, configuration and
  goodbyes to the dispatchers, and what it does about children that end.
\<close>


section \<open>Clients go to every dispatcher\<close>

lemma sendSocket_known:
  assumes "deref w p = Inr sp" "deref w c = Inr sc" "0 \<le> descriptor sc" "sendCmsg w"
    and "\<And>k. \<not> sys_sigpipe S k"
  shows "\<exists>b w' n. sendSocket S p c w = Inr (b, w') \<and> sameProc w w' \<and>
    trace w' = trace w @ [Io (EvSendmsg (descriptor sp) [NUL, NUL] (Some (descriptor sc)) n)]"
  using assms by (auto simp: sendSocket_def Let_def fdMessage_def k_sendmsg_def split: prod.splits)

text \<open>The descriptors of the dispatchers in a list: UNIX sockets that do not listen.\<close>

definition dispatchersIn :: "(ptr \<Rightarrow> sock) \<Rightarrow> ptr list \<Rightarrow> int list" where
  "dispatchersIn so ps =
     map (\<lambda>p. descriptor (so p)) (filter (\<lambda>p. socketType (so p) = UNIX \<and> \<not> listenSocket (so p)) ps)"

lemma sendToDispatchers_known:
  assumes "\<forall>p \<in> set ps. deref w p = Inr (so p)" "deref w c = Inr sc" "0 \<le> descriptor sc" "sendCmsg w"
    and "\<And>k. \<not> sys_sigpipe S k"
  shows "\<exists>w' ns. sendToDispatchers S c ps w = Inr w' \<and> sameProc w w' \<and>
    length ns = length (dispatchersIn so ps) \<and>
    trace w' = trace w @ map2 (\<lambda>fd n. Io (EvSendmsg fd [NUL, NUL] (Some (descriptor sc)) n))
      (dispatchersIn so ps) ns"
  using assms
proof (induction ps arbitrary: w)
  case Nil
  then show ?case by (auto simp: dispatchersIn_def)
next
  case (Cons p ps)
  show ?case
  proof (cases "socketType (so p) = UNIX \<and> \<not> listenSocket (so p)")
    case True
    obtain b w1 n where 1: "sendSocket S p c w = Inr (b, w1)" "sameProc w w1"
      "trace w1 = trace w @ [Io (EvSendmsg (descriptor (so p)) [NUL, NUL] (Some (descriptor sc)) n)]"
      using sendSocket_known [of w p "so p" c sc S] Cons.prems by auto
    have d: "deref w1 q = deref w q" for q using deref_cong [OF sameProcD(1) [OF 1(2)]] .
    obtain w' ns where "sendToDispatchers S c ps w1 = Inr w'" "sameProc w1 w'"
      "length ns = length (dispatchersIn so ps)"
      "trace w' = trace w1 @ map2 (\<lambda>fd n. Io (EvSendmsg fd [NUL, NUL] (Some (descriptor sc)) n))
        (dispatchersIn so ps) ns"
      using Cons.IH [of w1] Cons.prems d sameProcD(4) [OF 1(2)] by auto
    with 1 True Cons.prems(1) show ?thesis
      by (intro exI [of _ w'] exI [of _ "n # ns"]) (auto simp: dispatchersIn_def intro: sameProc_trans)
  next
    case False
    with Cons.IH [of w] Cons.prems show ?thesis by (auto simp: dispatchersIn_def)
  qed
qed

text \<open>A client the listener has accepted: offered to the dispatchers, then closed.\<close>

lemma processClientConnection_known:
  assumes "acceptConnection S p w = Inr (c, w1)" "c \<noteq> nullptr"
    and "owned w1 (add_mset c M)" "c \<notin># M" "deref w1 c = Inr sc" "dynClass sc = PlainSocket"
    and "\<not> protectDescriptor sc" "0 \<le> descriptor sc" "sendCmsg w1" "\<And>k. \<not> sys_sigpipe S k"
    and "\<forall>q \<in> set (sockets l). deref w1 q = Inr (so q)"
  shows "\<exists>w' ns. processClientConnection S p l w = Inr (True, w') \<and> owned w' M \<and>
    length ns = length (dispatchersIn so (sockets l)) \<and>
    trace w' = trace w1 @ map2 (\<lambda>fd n. Io (EvSendmsg fd [NUL, NUL] (Some (descriptor sc)) n))
      (dispatchersIn so (sockets l)) ns @ [Io (EvClose (descriptor sc))]"
proof -
  obtain w2 ns where w2: "sendToDispatchers S c (sockets l) w1 = Inr w2" "sameProc w1 w2"
    "length ns = length (dispatchersIn so (sockets l))"
    "trace w2 = trace w1 @ map2 (\<lambda>fd n. Io (EvSendmsg fd [NUL, NUL] (Some (descriptor sc)) n))
      (dispatchersIn so (sockets l)) ns"
    using sendToDispatchers_known [OF assms(11,5,8,9,10)] by blast
  have "owned w2 (add_mset c M)" "deref w2 c = Inr sc"
    using owned_frame [OF w2(2) assms(3)] deref_cong [OF sameProcD(1) [OF w2(2)]] assms(5) by simp_all
  then obtain w3 where "releasePtr S c w2 = Inr w3" "owned w3 M" "trace w3 = trace w2 @ destroyEvents sc"
    using release_last [OF _ assms(4,2)] by blast
  with assms(1,2,6,7) w2 show ?thesis
    by (auto simp: processClientConnection_def destroyEvents_def)
qed

section \<open>Dispatchers are configured\<close>

text \<open>The two writes to a dispatcher that has connected.\<close>

lemma processDispatcherConnection_known:
  assumes "acceptConnection S p w = Inr (c, w1)" "c \<noteq> nullptr"
    and "owned w1 (mset (sockets l) + add_mset c M)" "deref w1 c = Inr sc"
    and "length (sockets l) \<noteq> maxSize l"
    and "sys_write S (descriptor sc) ''CONFIG'' (kern w1) = (n1, k1)" "0 \<le> n1"
    and "text = formatConfig (sys_getpid S k1) (appCfg w1)" "length text < 4096"
    and "sys_write S (descriptor sc) text k1 = (n2, k2)" "\<not> sys_sigpipe S k1" "\<not> sys_sigpipe S k2"
  shows "\<exists>w'. processDispatcherConnection S p l w =
      Inr (0 \<le> n2, l\<lparr>sockets := sockets l @ [c]\<rparr>, w') \<and>
    deref w' c = Inr sc \<and> appCfg w' = appCfg w1 \<and>
    trace w' = trace w1 @ [Io (EvWrite (descriptor sc) ''CONFIG'' n1), Io (EvWrite (descriptor sc) text n2)]"
proof -
  let ?N = "add_mset c (mset (sockets l) + add_mset c M)"
  have c: "c \<in># mset (sockets l) + add_mset c M" by simp
  obtain w2 where w2: "sharePtr c w1 = Inr w2" "owned w2 ?N" using owned_share [OF assms(3) c] by blast
  have eq: "trace w2 = trace w1" "kern w2 = kern w1" "appCfg w2 = appCfg w1" "deref w2 c = Inr sc"
    using w2(1) deref_share [OF w2(1), of c] assms(4)
    by (auto simp: sharePtr_def split: if_splits option.splits)
  define w3 where "w3 = logCall (Io (EvWrite (descriptor sc) text n2)) k2
      (logCall (Io (EvWrite (descriptor sc) ''CONFIG'' n1)) k1 w2)"
  have s: "sendConfig S (descriptor sc) w2 = Inr (0 \<le> n2, w3)"
    using assms(6-12) eq by (auto simp: sendConfig_def k_write_def Let_def CONFIG_BUFFER_SIZE_def w3_def)
  have sp: "sameProc w2 w3" unfolding w3_def by (blast intro: sameProc_trans)
  have o3: "owned w3 ?N" using owned_frame [OF sp w2(2)] .
  obtain w4 where w4: "releasePtr S c w3 = Inr w4" "trace w4 = trace w3" "deref w4 c = deref w3 c"
    using release_shared [OF o3 c assms(2)] by blast
  have "appCfg w4 = appCfg w3" using keeps_release [OF w4(1)] by (simp add: keeps_def)
  then have "appCfg w4 = appCfg w1" using sameProcD(5) [OF sp] eq by simp
  moreover have "deref w3 c = Inr sc" using deref_cong [OF sameProcD(1) [OF sp]] eq by simp
  moreover have "trace w3 = trace w1 @
      [Io (EvWrite (descriptor sc) ''CONFIG'' n1), Io (EvWrite (descriptor sc) text n2)]"
    using eq by (simp add: w3_def)
  ultimately show ?thesis
    using assms(1,2,5) w2(1) eq(4) s w4
    by (auto simp: processDispatcherConnection_def putSocket_def)
qed

text \<open>
  A dispatcher that connects while there is room joins the list and is sent the label and
  then the configuration text of the listener, in two writes; the return value says whether
  the second one worked.
\<close>

theorem dispatcher_configured:
  assumes "acceptConnection S p w = Inr (c, w1)" "c \<noteq> nullptr"
    and "owned w1 (mset (sockets l) + add_mset c M)" "deref w1 c = Inr sc"
    and "length (sockets l) \<noteq> maxSize l"
    and "sys_write S (descriptor sc) ''CONFIG'' (kern w1) = (n1, k1)" "0 \<le> n1"
    and "text = formatConfig (sys_getpid S k1) (appCfg w1)" "length text < 4096"
    and "sys_write S (descriptor sc) text k1 = (n2, k2)" "\<not> sys_sigpipe S k1" "\<not> sys_sigpipe S k2"
  shows "\<exists>w'. processDispatcherConnection S p l w =
      Inr (0 \<le> n2, l\<lparr>sockets := sockets l @ [c]\<rparr>, w') \<and>
    trace w' = trace w1 @ [Io (EvWrite (descriptor sc) ''CONFIG'' n1), Io (EvWrite (descriptor sc) text n2)]"
  using processDispatcherConnection_known [OF assms] by blast

definition exampleText :: string where
  "exampleText = formatConfig 4711 (createConfig DISPATCHER)"

theorem dispatcher_configured_witness:
  "\<exists>w'. processDispatcherConnection replay 1 \<lparr>sockets = [1], maxSize = 100\<rparr>
      (exampleWorld [(exampleSock 4 UNIX)\<lparr>dynClass := UnixListenerSocket ''s'', listenSocket := True\<rparr>]
        [ARet 6, ARet 6, ARet 40]) = Inr (True, \<lparr>sockets = [1, 2], maxSize = 100\<rparr>, w') \<and>
    trace w' = [Net (EvAccept 4 6), Io (EvWrite 6 ''CONFIG'' 6), Io (EvWrite 6 exampleText 40)]"
proof -
  let ?lst = "(exampleSock 4 UNIX)\<lparr>dynClass := UnixListenerSocket ''s'', listenSocket := True\<rparr>"
  let ?w = "exampleWorld [?lst] [ARet 6, ARet 6, ARet 40]"
  have own: "owned ?w {#1#}" by (auto simp: owned_def ownersOf_def)
  obtain w1 where w1: "acceptConnection replay 1 ?w = Inr (2, w1)" "deref w1 2 = Inr (exampleSock 6 UNIX)"
    "kern w1 = [ARet 6, ARet 40]" "appCfg w1 = createConfig DISPATCHER" "trace w1 = [Net (EvAccept 4 6)]"
    by (auto simp: acceptConnection_def deref_def acceptPlain_def call_defs replay_def makeObject_def
        newSocket_def FREE_SOCKET_def NO_EVENTS_def makeShared_def exampleSock_def exampleWorld_def
        logCall_def startWorld_def numeral_2_eq_2)
  have "owned w1 (mset [1] + add_mset 2 {#})"
    using acceptConnection_sat [OF own, of 1 ?lst replay UNIV] w1(1) by (simp add: deref_def)
  moreover have "length exampleText < 4096"
    by (simp add: exampleText_def formatConfig_def createConfig_def cstr_def showInt_def showNat.simps)
  ultimately show ?thesis
    using dispatcher_configured [OF w1(1) _ _ w1(2), of "\<lparr>sockets = [1], maxSize = 100\<rparr>" "{#}" 6 "[ARet 40]"
        exampleText 40 "[]"] w1
    by (auto simp: exampleText_def replay_def exampleSock_def)
qed

section \<open>Goodbyes\<close>

lemma deref_logCall [simp]: "deref (logCall e k w) p = deref w p"
  by (rule deref_cong) simp

text \<open>
  Every connected dispatcher is sent \<^verbatim>\<open>EXIT\<close>; a write that fails does not keep the others from
  it, unless SIGPIPE ends the listener there.
\<close>

lemma sayGoodbye_known:
  assumes "\<forall>p \<in> set ps. deref w p = Inr (so p)"
  shows "sat (pipeCrashes S) (\<lambda>w'. \<exists>ns. length ns = length (dispatchersIn so ps) \<and>
      trace w' = trace w @ map2 (\<lambda>fd n. Io (EvWrite fd ''EXIT'' n)) (dispatchersIn so ps) ns)
    (sayGoodbyeToAllDispatchers S ps w)"
  using assms
proof (induction ps arbitrary: w)
  case Nil
  then show ?case by (auto simp: dispatchersIn_def)
next
  case (Cons p ps)
  show ?case
  proof (cases "socketType (so p) = UNIX \<and> \<not> listenSocket (so p)")
    case True
    obtain n k where n: "sys_write S (descriptor (so p)) ''EXIT'' (kern w) = (n, k)" by (metis surj_pair)
    let ?w1 = "logCall (Io (EvWrite (descriptor (so p)) ''EXIT'' n)) k w"
    have "sat (pipeCrashes S) (\<lambda>w'. \<exists>ns. length ns = length (dispatchersIn so (p # ps)) \<and>
        trace w' = trace w @ map2 (\<lambda>fd n. Io (EvWrite fd ''EXIT'' n)) (dispatchersIn so (p # ps)) ns)
      (sayGoodbyeToAllDispatchers S ps ?w1)"
    proof (rule sat_mono [OF Cons.IH [of ?w1]], goal_cases)
      case (3 w')
      then obtain ns where "length ns = length (dispatchersIn so ps)"
        "trace w' = trace ?w1 @ map2 (\<lambda>fd n. Io (EvWrite fd ''EXIT'' n)) (dispatchersIn so ps) ns" by blast
      with True show ?case by (intro exI [of _ "n # ns"]) (simp add: dispatchersIn_def)
    qed (use Cons.prems in auto)
    with True n Cons.prems sigpipe_crash [of S k] show ?thesis
      by (auto simp: k_write_def guarded_def)
  next
    case False
    with Cons.IH [of w] Cons.prems show ?thesis by (auto simp: dispatchersIn_def)
  qed
qed

section \<open>Children\<close>

lemma unat_ucast8: "unat (ucast (e :: 8 word) :: 32 word) = unat e"
proof -
  have "unat e < 2 ^ 8" by (rule order_less_le_trans [OF unsigned_less]) simp
  then show ?thesis by (simp add: unsigned_ucast_eq take_bit_nat_eq_self_iff)
qed

lemma reportChild_exited:
  "reportChild (push_bit 8 (ucast (e :: 8 word))) =
     (if e = 0 then ChildExited else ChildExitedWith (unat e))"
proof -
  let ?s = "push_bit 8 (ucast e) :: 32 word"
  have m: "(0x7F :: 32 word) = mask 7" by (simp add: mask_eq_exp_minus_1)
  have a: "?s AND 0x7F = 0"
    unfolding m
    by (rule bit_word_eqI) (auto simp: bit_simps)
  have m2: "(0xFF00 :: 32 word) = push_bit 8 (mask 8)" by (simp add: mask_eq_exp_minus_1)
  have b: "drop_bit 8 (?s AND 0xFF00) = ucast e"
    unfolding m2 by (rule bit_word_eqI) (auto simp: bit_simps dest: bit_imp_le_length)
  have c: "WEXITSTATUS ?s = unat e"
    unfolding WEXITSTATUS_def b by (rule unat_ucast8)
  show ?thesis using a c by (simp add: reportChild_def WIFEXITED_def unat_eq_0)
qed

lemma reportChild_signalled:
  "reportChild (ucast (s :: 8 word)) = (if s AND 0x7F = 0 then ChildExited else NoReport)"
proof -
  have m: "(0x7F :: 32 word) = mask 7" "(0x7F :: 8 word) = mask 7" by (simp_all add: mask_eq_exp_minus_1)
  have m2: "(0xFF00 :: 32 word) = push_bit 8 (mask 8)" by (simp add: mask_eq_exp_minus_1)
  have a: "(ucast s :: 32 word) AND 0x7F = ucast (s AND 0x7F)"
    unfolding m by (rule bit_word_eqI) (auto simp: bit_simps)
  have z: "(ucast (s AND 0x7F) :: 32 word) = 0 \<longleftrightarrow> s AND 0x7F = 0"
    by (metis unat_eq_0 unat_ucast8)
  have b: "(ucast s :: 32 word) AND 0xFF00 = 0"
    unfolding m2 by (rule bit_word_eqI) (auto simp: bit_simps dest: bit_imp_le_length)
  show ?thesis
    unfolding reportChild_def WIFEXITED_def WEXITSTATUS_def a z b by simp
qed
text \<open>
  C39. What the log says of a child that ended: an exit is reported with its status, for each
  of the 256 values; a death by signal, whose status word is below 256 with the signal in the
  low seven bits and the core flag above them, is not reported at all, whatever the signal.
\<close>

theorem child_reports:
  "reportChild (push_bit 8 (ucast (e :: 8 word))) =
     (if e = 0 then ChildExited else ChildExitedWith (unat e)) \<and>
   reportChild (ucast (s :: 8 word)) = (if s AND 0x7F = 0 then ChildExited else NoReport)"
  using reportChild_exited reportChild_signalled by blast

text \<open>
  A dispatcher that has ended is replaced: when nothing happened for a second and
  \<^verbatim>\<open>waitpid\<close> reports an ended child, the listener forks once, remembers the new child, and
  keeps its lists.
\<close>

theorem dispatcher_restarted:
  assumes "sys_waitpid S (kern (world s)) = ((pid, st), k1)" "0 < pid"
    and "sys_fork S k1 = (child, k2)" "0 < child"
  shows "\<exists>w'. handlePolled S TIMEOUT s = Inr (s\<lparr>disp_pid := child, world := w'\<rparr>) \<and>
    trace w' = trace (world s) @ [Proc (EvWaitpid pid st), Proc (EvFork child)]"
  using assms
  by (intro exI [of _ "logCall (Proc (EvFork child)) k2
        (logCall (Proc (EvWaitpid pid st)) k1 (world s))"])
    (simp add: handlePolled_def wait_disp_child_def k_waitpid_def restartDispatcher_def
      create_dispatcher_def k_fork_def)

theorem dispatcher_restarted_witness:
  "\<exists>s'. handlePolled replay TIMEOUT \<lparr>exitRequested = False, pollerFailed = False, disp_pid = 77,
       socketsList = newSocketsList 100, outputSocketsList = newSocketsList 100,
       world = startWorld LISTENER [AWait 77 9, ARet 78]\<rparr> = Inr s' \<and> disp_pid s' = 78"
  using dispatcher_restarted [of replay "\<lparr>exitRequested = False, pollerFailed = False, disp_pid = 77,
       socketsList = newSocketsList 100, outputSocketsList = newSocketsList 100,
       world = startWorld LISTENER [AWait 77 9, ARet 78]\<rparr>" 77 9 "[ARet 78]" 78 "[]"]
  by (auto simp: replay_def)

end
