(* ===== verification/ListenerSteps.thy ===== *)
theory ListenerSteps
  imports Listener ObjectRelation
begin

text \<open>
  From the elementary operations to a run of the listener. \<open>service_relation\<close> extends
  \<open>silent_relation\<close> by the handling of a client and of a dispatcher that connect, and reaches
  every operation of \<^verbatim>\<open>mylsnr.cpp\<close>; an \<open>object_relation\<close> that respects the accepting of a
  connection is one (\<open>listener_relation\<close>).
\<close>

lemma quiet_sendSocket: "sendSocket S p q w = Inr (b, w') \<Longrightarrow> quiet w w'"
  by (auto simp: sendSocket_def Let_def outcome_simps call_defs guarded_def case_prod_beta quiet_def keepsBuffers_def split: if_splits)

lemma quiet_sendConfig: "sendConfig S fd w = Inr (b, w') \<Longrightarrow> quiet w w'"
  by (auto simp: sendConfig_def Let_def outcome_simps split: prod.splits if_splits
      dest!: quiet_calls intro: quiet_trans)

lemma silent_create_dispatcher: "create_dispatcher S w = Inr (r, w') \<Longrightarrow> silent w w'"
  by (auto simp: create_dispatcher_def call_defs silent_intro split: prod.splits if_splits)

lemma silent_wait: "wait_disp_child S w = (r, w') \<Longrightarrow> silent w w'"
  by (auto simp: wait_disp_child_def call_defs silent_intro split: prod.splits if_splits)

locale service_relation = silent_relation R S
  for R :: "'k world \<Rightarrow> 'k world \<Rightarrow> bool" and S :: "'k sys" +
  assumes clientConnection: "processClientConnection S p l w = Inr (b, w') \<Longrightarrow>
      deref w p = Inr s \<Longrightarrow> socketType s = TCP \<Longrightarrow> R w w'"
    and dispatcherConnection: "processDispatcherConnection S p l w = Inr (b, l', w') \<Longrightarrow> R w w'"
begin

lemma sockets: "processSockets S ps l w = Inr (l', w') \<Longrightarrow> R w w'"
proof (induction ps arbitrary: l w)
  case (Cons p ps)
  then show ?case
    by (auto simp: outcome_simps split: if_splits dest!: del clientConnection dispatcherConnection intro: trans)
qed simp

lemma requests: "pollAllForRead ps w = Inr w' \<Longrightarrow> R w w'"
  by (induction ps arbitrary: w) (auto simp: outcome_simps dest!: methods intro: trans)

lemma polled:
  assumes "handlePolled S e s = Inr s'"
  shows "R (world s) (world s')"
proof -
  have child: "R (world s) w1" if "wait_disp_child S (world s) = (r, w1)" for r w1
    by (rule silent [OF silent_wait [OF that]])
  have "R v (world s')" if "restartDispatcher S (s\<lparr>world := v\<rparr>) = Inr s'" for v
    using that by (auto simp: restartDispatcher_def outcome_simps dest!: silent_create_dispatcher [THEN silent])
  with assms child show ?thesis
    by (auto simp: handlePolled_def outcome_simps split: if_splits prod.splits dest!: sockets intro: trans)
qed

lemma round:
  assumes "listenerRound S s = Inr s'"
  shows "R (world s) (world s')"
proof -
  from assms obtain out1 w1 w2 e out2 w3 s1 where
    r: "clearSockets S (outputSocketsList s) (world s) = Inr (out1, w1)"
      "pollAllForRead (SocketsList.sockets (socketsList s)) w1 = Inr w2"
      "pollSockets S (socketsList s) out1 w2 = Inr (e, out2, w3)"
    and h: "handlePolled S e (s\<lparr>outputSocketsList := out2, world := w3\<rparr>) = Inr s1" "s' = deliverSignals S s1"
    by (auto simp: listenerRound_def outcome_simps)
  have "R (world s) w3"
    by (rule trans [OF trans [OF clear [OF r(1)] requests [OF r(2)]] poll [OF r(3)]])
  moreover have "world s' = world s1" by (simp add: h(2) deliverSignals_def sig_INT_def)
  ultimately show ?thesis using polled [OF h(1)] trans by simp
qed

lemma run: "listenerReaches S s s1 \<Longrightarrow> R (world s) (world s1)"
  by (induction rule: loopReaches.induct) (auto dest: round intro: trans)

end

section \<open>Relations that respect every message\<close>

locale listener_relation = object_relation R S
  for R :: "'k world \<Rightarrow> 'k world \<Rightarrow> bool" and S :: "'k sys" +
  assumes accept: "acceptConnection S p w = Inr (q, w') \<Longrightarrow> R w w'"
begin

lemma sends: "sendToDispatchers S c ps w = Inr w' \<Longrightarrow> R w w'"
  by (induction ps arbitrary: w)
    (auto simp: outcome_simps split: if_splits dest!: quiet_sendSocket [THEN quiet] intro: trans)

lemma serving: "processClientConnection S p l w = Inr (b, w') \<Longrightarrow> R w w'"
  by (auto simp: processClientConnection_def outcome_simps split: if_splits
      dest!: accept sends release intro: trans)

lemma configuring: "processDispatcherConnection S p l w = Inr (b, l', w') \<Longrightarrow> R w w'"
  by (auto simp: processDispatcherConnection_def outcome_simps split: if_splits
      dest!: accept put release quiet_sendConfig [THEN quiet] intro: trans)

end

sublocale listener_relation \<subseteq> service_relation R S
  by unfold_locales (blast intro: serving configuring)+

end
