(* ===== verification/SocketMaking.thy ===== *)
theory SocketMaking
  imports SocketFactories ObjectHistory Ledger
begin

text \<open>
  How the factories and \<^verbatim>\<open>acceptConnection\<close> make sockets, for the history of the objects and
  the books of the descriptors: a new object stands on a descriptor that has just been opened.
\<close>

section \<open>A socket made on a new descriptor\<close>

fun openOf :: "event \<Rightarrow> int list" where
  "openOf (Net (EvSocket d fd)) = (if fd < 0 then [] else [fd])"
| "openOf (Net (EvAccept l fd)) = (if fd < 0 then [] else [fd])"
| "openOf _ = []"

text \<open>Books that count these calls, and perhaps others.\<close>

definition countsOpened :: "(event \<Rightarrow> int list) \<Rightarrow> bool" where
  "countsOpened opener \<longleftrightarrow> (\<forall>e. set (openOf e) \<subseteq> set (opener e))"

lemma countsOpened_self [simp]: "countsOpened openOf"
  by (simp add: countsOpened_def)

lemma countsOpened_trace: "countsOpened opener \<Longrightarrow> set (openedBy openOf es) \<subseteq> set (openedBy opener es)"
  by (auto simp: countsOpened_def openedBy_def)

text \<open>
  Calls that close nothing and open a descriptor, and then the making of an object on it: the
  form of every factory of the listener and of \<^verbatim>\<open>acceptConnection\<close>.
\<close>

definition opensOn :: "int \<Rightarrow> 'k world \<Rightarrow> 'k world \<Rightarrow> bool" where
  "opensOn fd w v \<longleftrightarrow> heap v = heap w \<and> nextPtr v = nextPtr w \<and>
     (\<exists>es. trace v = trace w @ es \<and> closesOf es = [] \<and> fd \<in> set (openedBy openOf es))"

definition madeOn :: "'k world \<Rightarrow> ptr \<times> 'k world \<Rightarrow> bool" where
  "madeOn w r \<longleftrightarrow> (\<exists>v. quiet w v \<and> r = (nullptr, v)) \<or>
     (\<exists>v s. opensOn (descriptor s) w v \<and> makeShared s v = r)"

lemma opensOn_calls:
  "k_accept S l w = (fd, w') \<Longrightarrow> 0 \<le> fd \<Longrightarrow> opensOn fd w w'"
  "k_socket S d w = (fd, w') \<Longrightarrow> 0 \<le> fd \<Longrightarrow> opensOn fd w w'"
  by (auto simp: opensOn_def call_defs split: prod.splits)

lemma opensOn_quiet: "opensOn fd w v \<Longrightarrow> quiet v v' \<Longrightarrow> opensOn fd w v'"
  by (auto simp: opensOn_def quiet_def)

lemma madeOn_history:
  assumes "madeOn w (q, w')"
  shows "history w w'"
proof -
  from assms obtain v where v: "heap v = heap w" "nextPtr v = nextPtr w" "w' = v \<or> (\<exists>s. makeShared s v = (q, w'))"
    by (auto simp: madeOn_def opensOn_def quiet_def)
  have "history w v" using v(1,2) by (rule history_same)
  then show ?thesis using v(3) history_make history_trans by metis
qed

lemma madeOn_ledger:
  assumes "countsOpened opener" "madeOn w (q, w')"
  shows "ledger opener w w'"
proof -
  from assms(2) consider "quiet w w'"
    | v s es where "heap v = heap w" "nextPtr v = nextPtr w" "trace v = trace w @ es" "closesOf es = []"
      "descriptor s \<in> set (openedBy openOf es)" "makeShared s v = (q, w')"
    by (auto simp: madeOn_def opensOn_def)
  then show ?thesis
    by cases (use countsOpened_trace [OF assms(1)] in \<open>auto intro: ledger_quiet ledger_new\<close>)
qed

lemma madeOn_null: "quiet w v \<Longrightarrow> madeOn w (nullptr, v)" by (simp add: madeOn_def)

lemma madeOn_socket:
  assumes "makeSocket cls fd t l v = Inr r" "opensOn fd w v"
  shows "madeOn w r"
proof -
  obtain s where "makeShared s v = r" "descriptor s = fd"
    using assms(1) by (auto simp: makeObject_def outcome_simps)
  with assms(2) show ?thesis unfolding madeOn_def by blast
qed

lemma acceptPlain_made: "acceptPlain S s t w = Inr r \<Longrightarrow> madeOn w r"
  by (auto simp: acceptPlain_def not_less split: prod.splits if_splits
      intro: madeOn_null quiet_calls madeOn_socket opensOn_calls)

lemma acceptSsl_made: 
  assumes "acceptSsl S s ctx w = Inr r"
  shows "madeOn w r"
proof -
  obtain fd w1 b w2 ssl w3 n w4 where c: "k_accept S (descriptor s) w = (fd, w1)"
    "k_BIO_new_socket S fd BIO_NOCLOSE w1 = (b, w2)" "k_SSL_new S ctx w2 = (ssl, w3)"
    "k_SSL_accept S ssl (k_SSL_set_bio S ssl b w3) = (n, w4)" by (metis surj_pair)
  have "quiet w1 w4"
    using c(2-4) by (meson quiet_calls quiet_trans quiet_unit_calls)
  then show ?thesis
    using assms c quiet_trans [OF quiet_calls(11) [OF c(1)]] opensOn_quiet [OF opensOn_calls(1) [OF c(1)]]
    by (auto simp: acceptSsl_def outcome_simps split: if_splits intro: madeOn_null quiet_calls madeOn_socket)
qed

lemma acceptConnection_made:
  assumes "acceptConnection S p w = Inr r"
  shows "madeOn w r"
proof -
  from assms obtain s where "deref w p = Inr s" by (auto simp: acceptConnection_def outcome_simps)
  with assms show ?thesis
    by (cases "dynClass s") (auto simp: acceptConnection_def dest: acceptPlain_made acceptSsl_made)
qed

text \<open>The factories of the listener and the dispatcher's connection to it.\<close>

lemma quiet_setnonblocking: "setnonblocking S fd w = (b, w') \<Longrightarrow> quiet w w'"
  by (auto simp: setnonblocking_def split: prod.splits if_splits intro: quiet_trans quiet_calls)

lemma unixCreate_made:
  assumes "unixCreate S path w = Inr r"
  shows "madeOn w r"
proof -
  obtain fd w1 n w2 b w3 where c: "k_socket S AF_UNIX w = (fd, w1)"
    "k_connect S fd (unixAddress path) w1 = (n, w2)" "setnonblocking S fd w2 = (b, w3)" by (metis surj_pair)
  have "quiet w1 w2" "quiet w1 w3"
    using c(2) quiet_setnonblocking [OF c(3)] by (meson quiet_calls quiet_trans)+
  then show ?thesis
    using assms c quiet_trans [OF quiet_calls(12) [OF c(1)]] opensOn_quiet [OF opensOn_calls(2) [OF c(1)]]
    by (auto simp: unixCreate_def not_less split: if_splits intro: madeOn_null quiet_calls madeOn_socket)
qed

lemma unixListenerCreate_made:
  assumes "unixListenerCreate S path w = Inr r"
  shows "madeOn w r"
proof -
  obtain fd w1 n1 w2 n2 w3 where c: "k_socket S AF_UNIX w = (fd, w1)"
    "k_bind S fd (unixAddress path) (k_unlink S (cstr path) w1) = (n1, w2)" "k_listen S fd 3 w2 = (n2, w3)"
    by (metis surj_pair)
  have "quiet w1 w2" using c(2) by (meson quiet_calls quiet_trans quiet_unit_calls)
  moreover have "quiet w2 w3" by (rule quiet_calls(15) [OF c(3)])
  ultimately show ?thesis
    using assms c quiet_trans [OF quiet_calls(12) [OF c(1)]] opensOn_quiet [OF opensOn_calls(2) [OF c(1)]]
    by (auto simp: unixListenerCreate_def split: if_splits intro: madeOn_null quiet_trans quiet_calls madeOn_socket)
qed

lemma openTcpListener_opens:
  assumes "openTcpListener S port q w = (r, w')"
  shows "case r of None \<Rightarrow> quiet w w' | Some fd \<Rightarrow> opensOn fd w w'"
proof -
  obtain fd w1 n1 w2 n2 w3 n3 w4 where c: "k_socket S AF_INET w = (fd, w1)" "k_setsockopt S fd w1 = (n1, w2)"
    "k_bind S fd (anyAddress port) w2 = (n2, w3)" "k_listen S fd (unat q) w3 = (n3, w4)"
    by (metis surj_pair)
  have "quiet w1 w3" "quiet w1 w4" using c(2-4) by (meson quiet_calls quiet_trans)+
  then show ?thesis
    using assms c quiet_trans [OF quiet_calls(12) [OF c(1)]] opensOn_quiet [OF opensOn_calls(2) [OF c(1)]]
    by (auto simp: openTcpListener_def not_less split: if_splits intro: quiet_trans quiet_calls)
qed

lemma tcpSslListenerCreate_made: "tcpSslListenerCreate S port q ctx w = Inr r \<Longrightarrow> madeOn w r"
  using openTcpListener_opens [of S port q w]
  by (auto simp: tcpSslListenerCreate_def split: prod.splits option.splits intro: madeOn_null madeOn_socket)

end
