(* ===== verification/ListenerMain.thy ===== *)
theory ListenerMain
  imports ListenerSafety
begin

text \<open>
  \<^verbatim>\<open>main\<close> of \<^verbatim>\<open>mylsnr.cpp\<close> as a whole: the configuration and the TLS context, the two listening
  sockets, the loop, and the way out, with the exit code.
\<close>

definition listenerMain ::
    "'k sys \<Rightarrow> (string \<Rightarrow> (char \<times> string) list) \<Rightarrow> 'k world \<Rightarrow>
     (int \<times> 'k world option) outcome option" where
  "listenerMain S getopt w =
     (case listenerStart S getopt w of
        Inl e \<Rightarrow> Some (Inl e)
      | Inr (Inl code) \<Rightarrow> Some (Inr (code, None))
      | Inr (Inr (tcpListenerSocket, unixListenerSocket, s)) \<Rightarrow>
          (case listenerLoop S s of
             None \<Rightarrow> None
           | Some r \<Rightarrow>
               Some (andThen r (\<lambda>s1.
                 andThen (listenerExit S tcpListenerSocket unixListenerSocket s1) (\<lambda>w1.
                 Inr (0, Some w1))))))"

lemma createContext_good:
  assumes "owned w {#}" "createContext S ca crt key pw (w\<lparr>appCfg := cfg\<rparr>) = (r, w1)"
  shows "good cfg w1 {#}"
proof -
  have same: "sameHeap (w\<lparr>appCfg := cfg\<rparr>) w1" by (rule createContext_frame [OF assms(2)])
  have "owned (w\<lparr>appCfg := cfg\<rparr>) {#}" using assms(1) by simp
  then have o1: "owned w1 {#}" using same by (simp add: owned_def ownersOf_def sameHeap_def)
  then have "heap w1 p = None" for p using owned_None [OF o1] by simp
  with o1 same show ?thesis by (simp add: good_def typed_def sameHeap_def)
qed

lemma listenerSockets_sat:
  assumes "good cfg w {#}"
  shows "sat {Replaced, AssertFailed} (\<lambda>r. True) (listenerSockets S (TcpSslListenerSocketFactory port q ctx) w)"
proof -
  let ?f = "TcpSslListenerSocketFactory port q ctx" and ?g = "UnixListenerSocketFactory MY_SOCK_PATH"
  obtain t w1 where t: "createSocket S ?f w = Inr (t, w1)" "owned w1 {#t#}"
    using createSocket_sat [OF goodD [OF assms], of ?f S] by (auto dest!: sat_emptyD)
  then have g1: "good cfg w1 {#t#}" using assms keeps_tcpSslListener good_step by fastforce
  obtain u w2 where u: "createSocket S ?g w1 = Inr (u, w2)" "owned w2 {#u, t#}"
    using createSocket_sat [OF goodD [OF g1], of ?g S] by (auto dest!: sat_emptyD)
  then have g2: "good cfg w2 {#u, t#}" using g1 keeps_unixListener good_step by fastforce
  have child: "sat {Replaced, AssertFailed} (\<lambda>(r, w'). good cfg w' {#u, t#}) (create_dispatcher S w2)"
    using create_dispatcher_good [OF g2, of S] by (auto simp: create_dispatcher_def split: prod.splits if_splits)
  have put: "\<exists>b l' w'. putSocket p l w = Inr (b, l', w') \<and> good cfg w' (mset (sockets l') + {#t, u#})"
    if "good cfg w (mset (sockets l) + {#t, u#})" "p \<in> {t, u}" for p l and w :: "'a world"
  proof -
    have p: "p \<in># mset (sockets l) + {#t, u#}" using that(2) by auto
    from lsp.put_total [OF that(1) p] obtain b l' w' where "putSocket p l w = Inr (b, l', w')" by blast
    with lsp.put_own [OF that(1) p this] show ?thesis by blast
  qed
  show ?thesis
    unfolding listenerSockets_def createUnixListenerSocketFactory_def t(1) u(1) andThen.simps prod.case
  proof (rule sat_andThen [OF child], clarify, goal_cases)
    case (1 r pid w3)
    then have "good cfg w3 (mset (sockets (newSocketsList LISTENER_SOCKETS)) + {#t, u#})"
      by (simp add: newSocketsList_def add_mset_commute)
    from put [OF this, of t] obtain b1 l1 w4 where
      p1: "putSocket t (newSocketsList LISTENER_SOCKETS) w3 = Inr (b1, l1, w4)"
      "good cfg w4 (mset (sockets l1) + {#t, u#})" by auto
    from put [OF this(2), of u] p1 show ?case by auto
  qed
qed

text \<open>Where a listening socket is missing, the loop or the farewell meets the null pointer.\<close>

lemma listenerSockets_listening:
  assumes "listenerSockets S (TcpSslListenerSocketFactory port q ctx) w = Inr (t, u, s)" "good cfg w {#}"
    and "t \<noteq> nullptr" "u = nullptr"
  shows "\<exists>st. deref (world s) t = Inr st \<and> listenSocket st"
proof -
  from assms(1,4) obtain w1 w2 r pid w3 b1 l1 w4 b2 l2 w5 where st:
    "createSocket S (TcpSslListenerSocketFactory port q ctx) w = Inr (t, w1)"
    "createSocket S (UnixListenerSocketFactory MY_SOCK_PATH) w1 = Inr (nullptr, w2)"
    "create_dispatcher S w2 = Inr ((r, pid), w3)"
    "putSocket t (newSocketsList LISTENER_SOCKETS) w3 = Inr (b1, l1, w4)"
    "putSocket nullptr l1 w4 = Inr (b2, l2, w5)" "world s = w5"
    unfolding listenerSockets_def by (simp only: andThen_eq_Inr split_paired_Ex prod.case) auto
  have n: "0 < nextPtr w" using goodD [OF assms(2)] by (simp add: owned_def)
  have "\<exists>st. deref w1 t = Inr st \<and> listenSocket st"
    using st(1) assms(3) n
    by (auto simp: tcpSslListenerCreate_def split: prod.splits option.splits
        dest!: makeSocket_Inr sameProcD(2) [OF openTcpListener_frame])
  moreover have "owned w1 {#t#}" 
    using createSocket_sat [OF goodD [OF assms(2)], of "TcpSslListenerSocketFactory port q ctx" S] st(1) by simp
  then have "0 < nextPtr w1" by (simp add: owned_def)
  then have "heap w2 = heap w1"
    using st(2) by (auto simp: unixListenerCreate_def call_defs makeObject_def outcome_simps makeShared_def
        split: prod.splits if_splits)
  moreover have "heap w3 = heap w2"
    using st(3) by (auto simp: create_dispatcher_def call_defs split: prod.splits if_splits)
  moreover have "deref w4 t = deref w3 t"
    using st(4) by (auto simp: putSocket_def outcome_simps deref_share split: if_splits)
  moreover have "w5 = w4"
    using st(5) by (auto simp: putSocket_def outcome_simps sharePtr_def split: if_splits)
  ultimately show ?thesis using st(6) by (metis deref_cong)
qed

lemma sayGoodbye_null:
  assumes "t \<noteq> nullptr \<longrightarrow> (\<exists>st. deref w t = Inr st \<and> listenSocket st)" "t = nullptr \<or> u = nullptr"
  shows "sayGoodbyeToAllDispatchers S [t, u] w = Inl NullDeref"
proof -
  have "deref v nullptr = Inl NullDeref" for v :: "'a world" by (simp add: deref_def)
  with assms show ?thesis by (cases "t = nullptr") auto
qed

text \<open>
  The loop and the way out: with both sockets in place everything is freed, with one of them
  missing the null pointer is used.
\<close>

lemma listener_runs:
  assumes "listenerSockets S (TcpSslListenerSocketFactory port q ctx) w = Inr (t, u, s)" "good cfg w {#}"
    and "listenerLoop S s = Some r"
  shows "if t = nullptr \<or> u = nullptr then andThen r (listenerExit S t u) = Inl NullDeref
    else sat (listenerCrashes S cfg) (\<lambda>w1. owned w1 {#}) (andThen r (listenerExit S t u))"
proof (cases "t = nullptr \<or> u = nullptr")
  case False
  then have "listenerInv cfg t u s" using listenerSockets_inv [OF assms(1,2)] by simp
  then have "sat (listenerCrashes S cfg) (listenerInv cfg t u) r"
    using sat_mono [OF ll.result_ok [OF assms(3) [unfolded listenerLoop_def]]] by blast
  then have "sat (listenerCrashes S cfg) (\<lambda>w1. owned w1 {#}) (andThen r (listenerExit S t u))"
    by (rule sat_andThen) (rule sat_mono [OF listenerExit_good], auto)
  with False show ?thesis by simp
next
  case True
  note st = listenerSockets_state [OF assms(1,2)]
  show ?thesis
  proof (cases "listenerStops s")
    case stop: True
    have "sayGoodbyeToAllDispatchers S [t, u] (world s) = Inl NullDeref"
      using sayGoodbye_null [OF _ True] listenerSockets_listening [OF assms(1,2)] True by blast
    with stop True assms(3) st show ?thesis
      by (auto simp: listenerLoop_def repeatUntil.simps listenerExit_def)
  next
    case run: False
    have "listenerRound S s = Inl NullDeref" by (rule listenerRound_null [OF assms(1,2) True])
    with run True assms(3) show ?thesis by (auto simp: listenerLoop_def repeatUntil.simps)
  qed
qed



end
