(* ===== verification/ListenerLedger.thy ===== *)
theory ListenerLedger
  imports ListenerSteps SocketMaking ListenerMain
begin

text \<open>
  The sockets of the listener over time (\<^verbatim>\<open>mylsnr.cpp\<close> and the factories under it): what they
  are made as they stay, and every descriptor is closed at most as often as it was opened.
\<close>

section \<open>The run\<close>

interpretation lhist: listener_relation history S for S :: "'k sys"
  by unfold_locales (blast dest: acceptConnection_made madeOn_history)

interpretation lled: listener_relation "\<lambda>w w'. countsOpened opener \<longrightarrow> ledger opener w w'" S for opener and S :: "'k sys"
  by unfold_locales
    (auto intro: ledger_trans ledger_quiet silent_quiet ledger_modify marks_advances ledger_share ledger_release
      acceptConnection_made [THEN madeOn_ledger [rotated]])


text \<open>From the empty process to the loop.\<close>

lemma listenerSockets_steps:
  assumes trans: "\<And>w w1 w2. R w w1 \<Longrightarrow> R w1 w2 \<Longrightarrow> R w w2"
    and quiet: "\<And>w w'. quiet w w' \<Longrightarrow> R w w'"
    and share: "\<And>p l b l' w w'. putSocket p l w = Inr (b, l', w') \<Longrightarrow> R w w'"
    and made: "\<And>w q w'. madeOn w (q, w') \<Longrightarrow> R w w'"
    and run: "listenerSockets S (TcpSslListenerSocketFactory port q ctx) w = Inr (t, u, s)"
  shows "R w (world s)"
proof -
  from run obtain w1 w2 r w3 b1 l1 w4 b2 l2 w5 where
    c: "tcpSslListenerCreate S port q ctx w = Inr (t, w1)" "unixListenerCreate S MY_SOCK_PATH w1 = Inr (u, w2)"
      "create_dispatcher S w2 = Inr (r, w3)" "putSocket t (newSocketsList LISTENER_SOCKETS) w3 = Inr (b1, l1, w4)"
      "putSocket u l1 w4 = Inr (b2, l2, w5)" "world s = w5"
    unfolding listenerSockets_def by (auto simp: andThen_eq_Inr)
  show ?thesis
    unfolding c(6)
    by (rule trans [OF made [OF tcpSslListenerCreate_made [OF c(1)]]
        trans [OF made [OF unixListenerCreate_made [OF c(2)]]
        trans [OF quiet [OF silent_create_dispatcher [THEN silent_quiet, OF c(3)]] trans [OF share [OF c(4)] share [OF c(5)]]]]])
qed

lemma listenerStart_ledger:
  assumes "listenerStart S getopt w = Inr (Inr (t, u, s))" "countsOpened opener"
  shows "ledger opener w (world s)"
proof -
  let ?w = "w\<lparr>appCfg := listenerConfig getopt\<rparr>"
  obtain r w1 where c: "createContext S (caFile (listenerConfig getopt)) (certFile (listenerConfig getopt))
      (keyFile (listenerConfig getopt)) ''1q2w3e4r'' ?w = (r, w1)" by (metis surj_pair)
  from assms(1) c obtain ctx where "listenerSockets S (TcpSslListenerSocketFactory 5555 32 ctx) w1 = Inr (t, u, s)"
    by (auto simp: listenerStart_def Let_def createTcpSslListenerSocketFactory_def outcome_simps split: if_splits)
  then have "ledger opener w1 (world s)"
    by (rule listenerSockets_steps [rotated -1])
      (auto intro: ledger_trans ledger_quiet object_led.put madeOn_ledger [OF assms(2)])
  moreover have "quiet w ?w" by (simp add: quiet_def keepsBuffers_def)
  then have "quiet w w1" using quiet_createContext [OF c] quiet_trans by blast
  ultimately show ?thesis using ledger_quiet ledger_trans by blast
qed


section \<open>The properties\<close>

text \<open>
  C12. No descriptor is closed twice in the listener. From an empty process on, whatever the
  environment answers, at every point of the run each number has been closed at most as
  often as \<^verbatim>\<open>socket\<close> and \<^verbatim>\<open>accept\<close> have handed it out, and every live socket that would close it
  counts as one more close: a connection that is passed on to the dispatchers and dropped
  closes its own descriptor and nobody else's.
\<close>

theorem listener_descriptors_closed_once:
  assumes "owned w {#}" "trace w = []" "listenerStart S getopt w = Inr (Inr (t, u, s))"
    and "listenerReaches S s s1"
  shows "count_list (closesOf (trace (world s1))) fd +
      card {p. \<exists>x. deref (world s1) p = Inr x \<and> \<not> protectDescriptor x \<and> descriptor x = fd} \<le>
    count_list (openedBy openOf (trace (world s1))) fd"
proof -
  have none: "heap w p = None" for p using owned_None [OF assms(1)] by simp
  then have "holders w fd = {}" "heapBounded w" by (auto simp: holders_def heapBounded_def deref_def)
  moreover have "ledger openOf w (world s1)"
    using ledger_trans [OF listenerStart_ledger [OF assms(3)]] lled.run [OF assms(4), of openOf] by simp
  ultimately have "count_list (closesOf (trace (world s1))) fd + card (holders (world s1) fd) \<le>
      count_list (openedBy openOf (trace (world s1))) fd"
    using ledger_books [of openOf w "world s1" fd] assms(2) by simp
  then show ?thesis by (simp add: holders_def)
qed

text \<open>A start, and a round in which a TLS client connects.\<close>

abbreviation clientCalls :: script where
  "clientCalls \<equiv> [AHandle 9, ARet 1, ARet 1, ARet 1,
      ARet 3, ARet 0, ARet 0, ARet 0, ARet 4, ARet 0, ARet 0, ARet 77,
      APoll \<lparr>pollRet = 1, pollErrno = 0, pollRevents = (\<lambda>i. if i = 0 then POLLIN else 0)\<rparr>,
      ARet 6, AHandle 20, AHandle 30, ARet 1]"

lemma client_connects:
  "\<exists>s s1. listenerStart replay (\<lambda>opts. []) (startWorld LISTENER clientCalls) = Inr (Inr (1, 2, s)) \<and>
    listenerReaches replay s s1 \<and> closesOf (trace (world s1)) = [6] \<and>
    openedBy openOf (trace (world s1)) = [3, 4, 6]"
proof -
  let ?w = "startWorld LISTENER clientCalls" and ?cfg = "listenerConfig (\<lambda>opts. [])"
  obtain w1 where c: "createContext replay (caFile ?cfg) (certFile ?cfg) (keyFile ?cfg) ''1q2w3e4r''
      (?w\<lparr>appCfg := ?cfg\<rparr>) = (0, w1)" "sslGlobalCtx w1 = 9" "heap w1 = Map.empty" "nextPtr w1 = 1"
    "kern w1 = drop 4 clientCalls" "closesOf (trace w1) = []" "openedBy openOf (trace w1) = []"
    by (simp add: createContext_def call_defs replay_def startWorld_def logCall_def)
  obtain s where s: "listenerSockets replay (TcpSslListenerSocketFactory 5555 32 9) w1 = Inr (1, 2, s)"
    "\<not> exitRequested s" "\<not> pollerFailed s" "kern (world s) = drop 12 clientCalls" "nextPtr (world s) = 3"
    "sockets (socketsList s) = [1, 2]" "sockets (outputSocketsList s) = []"
    "maxSize (socketsList s) = 100" "maxSize (outputSocketsList s) = 100"
    "closesOf (trace (world s)) = []" "openedBy openOf (trace (world s)) = [3, 4]"
    "heap (world s) 1 = Some \<lparr>obj = (exampleSock 3 TCP)\<lparr>dynClass := TcpSslListenerSocket 9, listenSocket := True\<rparr>, useCount = 2\<rparr>"
    "heap (world s) 2 = Some \<lparr>obj = (exampleSock 4 UNIX)\<lparr>dynClass := UnixListenerSocket MY_SOCK_PATH, listenSocket := True\<rparr>, useCount = 2\<rparr>"
    using c(3-7) by (simp add: startup_defs exampleSock_def NO_EVENTS_def)
  obtain s1 where s1: "listenerRound replay s = Inr s1"
    "closesOf (trace (world s1)) = [6]" "openedBy openOf (trace (world s1)) = [3, 4, 6]"
    using s(4-13)
    by (auto simp: listenerRound_def clearSockets_def pollSockets_def handlePolled_def MAX_SOCKETS_TO_POLL_def
        modifyObj_def deref_def sharePtr_def putSocket_def processClientConnection_def acceptConnection_def
        acceptSsl_def makeObject_def newSocket_def makeShared_def releasePtr_def destroySocket_def
        call_defs replay_def exampleSock_def sock_defs poll_bits NO_EVENTS_def FREE_SOCKET_def isDropped_def
        deliverSignals_def sig_INT_def)
  have "listenerStart replay (\<lambda>opts. []) ?w = Inr (Inr (1, 2, s))"
    using c(1,2) s(1) by (simp add: listenerStart_def createTcpSslListenerSocketFactory_def Let_def)
  moreover have "listenerReaches replay s s1"
    by (intro loopReaches.again [OF loopReaches.start]) (simp_all add: listenerStops_def s(2,3) s1(1))
  ultimately show ?thesis using s1(2,3) by blast
qed

theorem listener_descriptors_closed_once_witness:
  "\<exists>s s1. listenerStart replay (\<lambda>opts. []) (startWorld LISTENER clientCalls) = Inr (Inr (1, 2, s)) \<and>
    listenerReaches replay s s1 \<and> count_list (closesOf (trace (world s1))) 6 = 1 \<and>
    card {p. \<exists>x. deref (world s1) p = Inr x \<and> \<not> protectDescriptor x \<and> descriptor x = 6} = 0"
proof -
  have own: "owned (startWorld LISTENER clientCalls) {#}" by (simp add: owned_def ownersOf_def)
  obtain s s1 where s: "listenerStart replay (\<lambda>opts. []) (startWorld LISTENER clientCalls) = Inr (Inr (1, 2, s))"
    "listenerReaches replay s s1" and t: "closesOf (trace (world s1)) = [6]"
    "openedBy openOf (trace (world s1)) = [3, 4, 6]" using client_connects by blast
  from listener_descriptors_closed_once [OF own _ s, of 6] s t show ?thesis by auto
qed

text \<open>
  The sockets of the listener keep their class, descriptor, kind and listening flag over any
  run, and no address is used twice.
\<close>

theorem listener_sockets_keep_type:
  assumes "listenerReaches S s s1" "p < nextPtr (world s)" "deref (world s1) p = Inr x1"
  shows "\<exists>x. deref (world s) p = Inr x \<and> dynClass x1 = dynClass x \<and> descriptor x1 = descriptor x \<and>
    socketType x1 = socketType x \<and> listenSocket x1 = listenSocket x"
proof -
  have "history (world s) (world s1)" by (rule lhist.run [OF assms(1)])
  with assms(2,3) show ?thesis
    by (fastforce simp: history_def deref_def evolves_def split: if_splits option.splits)
qed

end
