(* ===== verification/ListenerRounds.thy ===== *)
theory ListenerRounds
  imports ListenerProtocol ListenerLedger
begin

text \<open>
  Whole rounds of the listener's loop: a TLS client that connects is offered to every
  dispatcher within the round, and a SIGINT ends the loop.
\<close>

section \<open>A round forwards a client\<close>

lemma pollAllForRead_events:
  "pollAllForRead ps w = Inr w' \<Longrightarrow>
   trace w' = trace w \<and> sendCmsg w' = sendCmsg w \<and>
   (\<forall>p s. deref w p = Inr s \<longrightarrow> (\<exists>e. deref w' p = Inr (s\<lparr>events := e\<rparr>)))"
proof (induction ps arbitrary: w)
  case Nil
  have "\<exists>e. s = s\<lparr>events := e\<rparr>" for s :: sock by (rule exI [of _ "events s"]) simp
  with Nil show ?case by simp
next
  case (Cons q ps)
  from Cons.prems obtain w1 where q: "modifyObj pollForRead q w = Inr w1" "pollAllForRead ps w1 = Inr w'"
    by (auto simp: outcome_simps)
  obtain sq where sq: "deref w q = Inr sq" using modifyObj_deref [OF q(1)] ..
  have w1: "trace w1 = trace w" "sendCmsg w1 = sendCmsg w"
    "deref w1 p = (if p = q then Inr (pollForRead sq) else deref w p)" for p
    using modify_known [OF sq, of pollForRead] q(1)
    by (auto simp: modifyObj_def split: if_splits option.splits)
  have "\<exists>e. deref w1 p = Inr (s\<lparr>events := e\<rparr>)" if "deref w p = Inr s" for p s
    using that sq w1(3) [of p] by (cases "p = q") (auto simp: sock_defs intro: exI [of _ "events s"])
  moreover note Cons.IH [OF q(2)]
  ultimately show ?case using w1(1,2) by (metis (no_types, lifting) sock.update_convs(4) sock.ext_inject sock.surjective)
qed

text \<open>
  The environment in which a TLS client connects at the socket at place \<open>i\<close>: the handshake
  succeeds, there is memory for its SSL object, and no peer has gone away.
\<close>

definition clientConnects :: "'k sys \<Rightarrow> nat \<Rightarrow> int \<Rightarrow> bool" where
  "clientConnects S i fd \<longleftrightarrow> onlyReady S i \<and> 0 \<le> fd \<and>
     (\<forall>l k. fst (sys_accept S l k) = fd) \<and> (\<forall>h k. 0 < fst (SSL_accept S h k)) \<and>
     (\<forall>ctx k. fst (SSL_new S ctx k) \<noteq> 0) \<and> (\<forall>k. \<not> sys_sigpipe S k)"

lemma acceptSsl_known:
  assumes "owned w M" "deref w p = Inr sl" "dynClass sl = TcpSslListenerSocket ctx" "clientConnects S i fd"
  shows "\<exists>c w' b ssl n. acceptConnection S p w = Inr (c, w') \<and> c \<noteq> nullptr \<and> c \<notin># M \<and> owned w' (add_mset c M) \<and>
    deref w' c = Inr \<lparr>dynClass = PlainSocket, protectDescriptor = False, descriptor = fd, events = 0, revents = 0,
      socketType = SSL, listenSocket = False, clientStatus = NO_STATUS\<rparr> \<and>
    (\<forall>q. q \<noteq> c \<longrightarrow> deref w' q = deref w q) \<and> sendCmsg w' = sendCmsg w \<and>
    trace w' = trace w @ [Net (EvAccept (descriptor sl) fd), Tls (EvBioNew fd 0 b), Tls (EvSslNew ctx ssl),
      Tls (EvSslSetBio ssl b), Tls (EvSslAccept ssl n)]"
proof -
  obtain k1 b k2 ssl k3 n k4 where k: "sys_accept S (descriptor sl) (kern w) = (fd, k1)"
    "BIO_new_socket S fd 0 k1 = (b, k2)" "SSL_new S ctx k2 = (ssl, k3)"
    "SSL_accept S ssl (SSL_set_bio S ssl b k3) = (n, k4)" "0 < n" "0 \<le> fd"
    using assms(4) unfolding clientConnects_def by (metis prod.collapse)
  have ssl: "ssl \<noteq> 0" "\<And>k. \<not> sys_sigpipe S k" using assms(4) k(3) unfolding clientConnects_def by (metis fst_conv)+
  let ?s = "\<lparr>dynClass = PlainSocket, protectDescriptor = False, descriptor = fd, events = 0, revents = 0,
      socketType = SSL, listenSocket = False, clientStatus = NO_STATUS\<rparr>"
  obtain v where v: "acceptSsl S sl ctx w = makeSocket PlainSocket fd SSL False v" "sameProc w v"
    "trace v = trace w @ [Net (EvAccept (descriptor sl) fd), Tls (EvBioNew fd 0 b), Tls (EvSslNew ctx ssl),
      Tls (EvSslSetBio ssl b), Tls (EvSslAccept ssl n)]"
  proof
    let ?v = "logCall (Tls (EvSslAccept ssl n)) k4 (logCall (Tls (EvSslSetBio ssl b)) (SSL_set_bio S ssl b k3)
      (logCall (Tls (EvSslNew ctx ssl)) k3 (logCall (Tls (EvBioNew fd 0 b)) k2
      (logCall (Net (EvAccept (descriptor sl) fd)) k1 w))))"
    show "acceptSsl S sl ctx w = makeSocket PlainSocket fd SSL False ?v"
      using k ssl by (simp add: acceptSsl_def call_defs BIO_NOCLOSE_def)
    show "sameProc w ?v" by (meson sameProc_logCall sameProc_trans)
  qed simp
  obtain c w' where c: "makeShared ?s v = (c, w')" by (metis surj_pair)
  have ov: "owned v M" by (rule owned_frame [OF v(2) assms(1)])
  have "newSocket PlainSocket fd SSL False = Inr ?s" using k(6) by (simp add: newSocket_Inr)
  then have "acceptConnection S p w = Inr (c, w')"
    using assms(2,3) v(1) c by (simp add: acceptConnection_def makeObject_def)
  moreover have "owned w' (add_mset c M)" "c \<noteq> nullptr" using owned_make [OF ov c] by simp_all
  moreover have "c \<notin># M" using owned_nextPtr(1) [OF ov] c by (simp add: makeShared_def)
  moreover have "deref w' q = (if q = c then Inr ?s else deref w q)" for q
    using deref_make [OF c \<open>c \<noteq> nullptr\<close>] deref_cong [OF sameProcD(1) [OF v(2)]] by simp
  moreover have "sendCmsg w' = sendCmsg w" "trace w' = trace v"
    using c sameProcD(4) [OF v(2)] by (auto simp: makeShared_def)
  ultimately show ?thesis using v(3) by auto
qed


text \<open>The part after the poll: accept, offer, close.\<close>

lemma processClientConnection_tls:
  assumes own: "owned w M" and sl: "deref w p = Inr sl" "dynClass sl = TcpSslListenerSocket ctx"
    and env: "clientConnects S i fd" and cm: "sendCmsg w"
    and so: "\<forall>q \<in> set (sockets l). q \<in># M \<and> deref w q = Inr (so q)"
  shows "\<exists>w' b ssl n ns. processClientConnection S p l w = Inr (True, w') \<and> owned w' M \<and>
    length ns = length (dispatchersIn so (sockets l)) \<and>
    trace w' = trace w @ [Net (EvAccept (descriptor sl) fd), Tls (EvBioNew fd 0 b), Tls (EvSslNew ctx ssl),
      Tls (EvSslSetBio ssl b), Tls (EvSslAccept ssl n)] @
      map2 (\<lambda>d m. Io (EvSendmsg d [NUL, NUL] (Some fd) m)) (dispatchersIn so (sockets l)) ns @ [Io (EvClose fd)]"
proof -
  obtain c w1 b ssl n where c: "acceptConnection S p w = Inr (c, w1)" "c \<noteq> nullptr" "c \<notin># M"
    "owned w1 (add_mset c M)"
    "deref w1 c = Inr \<lparr>dynClass = PlainSocket, protectDescriptor = False, descriptor = fd, events = 0, revents = 0,
      socketType = SSL, listenSocket = False, clientStatus = NO_STATUS\<rparr>"
    "\<forall>q. q \<noteq> c \<longrightarrow> deref w1 q = deref w q" "sendCmsg w1 = sendCmsg w"
    "trace w1 = trace w @ [Net (EvAccept (descriptor sl) fd), Tls (EvBioNew fd 0 b), Tls (EvSslNew ctx ssl),
      Tls (EvSslSetBio ssl b), Tls (EvSslAccept ssl n)]"
    using acceptSsl_known [OF own sl env] by blast
  have fd: "0 \<le> fd" and pipe: "\<And>k. \<not> sys_sigpipe S k" using env by (simp_all add: clientConnects_def)
  have "\<forall>q \<in> set (sockets l). deref w1 q = Inr (so q)" using so c(3,6) by metis
  from processClientConnection_known [OF c(1,2,4,3,5) _ _ _ _ pipe this] c(7,8) cm fd show ?thesis by auto
qed

lemma listenerRound_forwards:
  assumes "listenerInv cfg t u s" "distinct (sockets (socketsList s))"
    and "i < length (sockets (socketsList s))" "sockets (socketsList s) ! i = p"
    and "\<forall>q \<in> set (sockets (socketsList s)). deref (world s) q = Inr (so q)"
    and "dynClass (so p) = TcpSslListenerSocket ctx" "socketType (so p) = TCP" "listenSocket (so p)"
    and "clientConnects S i fd" "sendCmsg (world s)"
  shows "\<exists>s' gone fds r b ssl n ns. listenerRound S s = Inr s' \<and> socketsList s' = socketsList s \<and>
    length ns = length (dispatchersIn so (sockets (socketsList s))) \<and>
    trace (world s') = trace (world s) @ concat (map destroyEvents gone) @ [Io (EvPoll fds r), Net (EvAccept (descriptor (so p)) fd),
      Tls (EvBioNew fd 0 b), Tls (EvSslNew ctx ssl), Tls (EvSslSetBio ssl b), Tls (EvSslAccept ssl n)] @
      map2 (\<lambda>d m. Io (EvSendmsg d [NUL, NUL] (Some fd) m)) (dispatchersIn so (sockets (socketsList s))) ns @
      [Io (EvClose fd)]"
proof -
  let ?l = "socketsList s" and ?M = "mset (sockets (socketsList s)) + {#t, u#}"
  from assms(1) have g: "good cfg (world s) (mset (sockets ?l) + mset (sockets (outputSocketsList s)) + {#t, u#})"
    and ok: "listOk LISTENER_SOCKETS ?l" "listOk LISTENER_SOCKETS (outputSocketsList s)"
    by (auto simp: listenerInv_def)
  have nn: "nullptr \<notin> set (sockets ?l)" "length (sockets ?l) \<le> MAX_SOCKETS_TO_POLL"
    using ok(1) by (auto simp: listOk_def LISTENER_SOCKETS_def MAX_SOCKETS_TO_POLL_def)
  from g have "good cfg (world s) (mset (sockets (outputSocketsList s)) + ?M)" by (simp add: ac_simps)
  then obtain out1 w1 where c: "clearSockets S (outputSocketsList s) (world s) = Inr (out1, w1)"
    "good cfg w1 ?M" using lsp.clear_ok by blast
  have out1: "out1 = (outputSocketsList s)\<lparr>sockets := []\<rparr>"
    using c(1) by (auto simp: clearSockets_def outcome_simps)
  obtain w2 where w2: "pollAllForRead (sockets ?l) w1 = Inr w2" "good cfg w2 ?M"
    using sat_emptyD [OF pollAllForRead_good [OF c(2) _ nn(1)]] by auto
  obtain e out2 w3 where p: "pollSockets S ?l out1 w2 = Inr (e, out2, w3)"
    "good cfg w3 (mset (sockets ?l) + mset (sockets out2) + {#t, u#})"
    using lsp.clear_then_poll [OF g nn c(1) w2(2)] by blast
  have ready: "sockets out1 = []" "0 < maxSize out1" "length (sockets ?l) \<le> 1024"
    using out1 ok by (simp_all add: listOk_def LISTENER_SOCKETS_def)
  obtain ss where ss: "trace w1 = trace (world s) @ concat (map destroyEvents ss)"
    using clear_destroys [OF c(1)] by blast
  note before = pollAllForRead_events [OF w2(1)]
  have cm: "sendCmsg w3"
    using buffers.clear [OF c(1)] buffers.poll [OF p(1)] before assms(10) by (simp add: keepsBuffers_def)
  have "\<exists>ev. deref w2 q = Inr ((so q)\<lparr>events := ev\<rparr>)" if q: "q \<in> set (sockets ?l)" for q
  proof -
    have "q \<noteq> nullptr" using q nn(1) by metis
    then obtain x where "deref w1 q = Inr x" using good_deref [OF c(2), of q] q by auto
    then have "deref w1 q = Inr (so q)" using clear_keeps_obj [OF c(1)] assms(5) q by force
    with before show ?thesis by blast
  qed
  then obtain ev where ev: "\<forall>q \<in> set (sockets ?l). deref w2 q = Inr ((so q)\<lparr>events := ev q\<rparr>)" by metis
  have "onlyReady S i" using assms(9) by (simp add: clientConnects_def)
  note one = pollSockets_one [OF this p(1) assms(3,2) ev ready(3,1,2)]
  have q: "e = NO_ERROR" "sockets out2 = [p]" using one assms(4) by simp_all
  obtain fds r where poll: "trace w3 = trace w2 @ [Io (EvPoll fds r)]" using one by blast
  have obj: "\<forall>j < length (sockets ?l). deref w3 (sockets ?l ! j) =
      Inr ((so (sockets ?l ! j))\<lparr>events := 0, revents := (if j = i then POLLIN else 0)\<rparr>)"
    using one by simp
  then have "\<exists>x. deref w3 q = Inr ((so q)\<lparr>events := 0, revents := x\<rparr>)" if "q \<in> set (sockets ?l)" for q
    using that unfolding in_set_conv_nth by blast
  then obtain x where x: "\<forall>q \<in> set (sockets ?l). deref w3 q = Inr ((so q)\<lparr>events := 0, revents := x q\<rparr>)" by metis
  let ?so = "\<lambda>q. (so q)\<lparr>events := 0, revents := x q\<rparr>"
  let ?N = "mset (sockets ?l) + mset (sockets out2) + {#t, u#}"
  have pp: "deref w3 p = Inr ((so p)\<lparr>events := 0, revents := POLLIN\<rparr>)" using obj assms(3,4) by auto
  have live: "\<not> isDropped ((so p)\<lparr>events := 0, revents := POLLIN\<rparr>)" by (simp add: isDropped_def poll_bits)
  have same: "dispatchersIn ?so ps = dispatchersIn so ps" for ps by (simp add: dispatchersIn_def)
  obtain w4 b ssl n ns where w4: "processClientConnection S p ?l w3 = Inr (True, w4)"
    "length ns = length (dispatchersIn so (sockets ?l))"
    "trace w4 = trace w3 @ [Net (EvAccept (descriptor (so p)) fd), Tls (EvBioNew fd 0 b), Tls (EvSslNew ctx ssl),
      Tls (EvSslSetBio ssl b), Tls (EvSslAccept ssl n)] @
      map2 (\<lambda>d m. Io (EvSendmsg d [NUL, NUL] (Some fd) m)) (dispatchersIn so (sockets ?l)) ns @ [Io (EvClose fd)]"
    using processClientConnection_tls [OF goodD [OF p(2)] pp _ assms(9) cm, of ctx ?l ?so] x assms(6) same by auto
  have "processSockets S [p] ?l w3 = Inr (?l, w4)"
    using pp live assms(7,8) w4(1) by simp
  then have "listenerRound S s = Inr (deliverSignals S (s\<lparr>outputSocketsList := out2, world := w4\<rparr>))"
    using c(1) w2(1) p(1) q(1,2) by (simp add: listenerRound_def handlePolled_def)
  moreover have "trace w3 = trace (world s) @ concat (map destroyEvents ss) @ [Io (EvPoll fds r)]"
    using poll before ss by simp
  ultimately show ?thesis using w4(2,3) by (simp add: deliverSignals_def sig_INT_def) blast
qed

text \<open>
  C18. A whole round forwards a client. When the poll of a round finds the listening TLS socket
  ready, at any place of the list, the client completes the handshake and no dispatcher is gone, the round first
  destroys what the last one left over, then accepts the client, sends its descriptor to
  every connected dispatcher, in list order and to nobody else, closes its own copy, and
  leaves the list as it was. No other call is made.
\<close>

theorem round_forwards_client:
  assumes "listenerInv cfg t u s" "distinct (sockets (socketsList s))"
    and "i < length (sockets (socketsList s))" "sockets (socketsList s) ! i = p"
    and "\<forall>q \<in> set (sockets (socketsList s)). deref (world s) q = Inr (so q)"
    and "dynClass (so p) = TcpSslListenerSocket ctx" "socketType (so p) = TCP" "listenSocket (so p)"
    and "clientConnects S i fd" "sendCmsg (world s)"
  shows "\<exists>s' gone fds r b ssl n ns. listenerRound S s = Inr s' \<and> socketsList s' = socketsList s \<and>
    length ns = length (dispatchersIn so (sockets (socketsList s))) \<and>
    trace (world s') = trace (world s) @ concat (map destroyEvents gone) @ [Io (EvPoll fds r), Net (EvAccept (descriptor (so p)) fd),
      Tls (EvBioNew fd 0 b), Tls (EvSslNew ctx ssl), Tls (EvSslSetBio ssl b), Tls (EvSslAccept ssl n)] @
      map2 (\<lambda>d m. Io (EvSendmsg d [NUL, NUL] (Some fd) m)) (dispatchersIn so (sockets (socketsList s))) ns @
      [Io (EvClose fd)]"
  by (rule listenerRound_forwards [OF assms])

definition connectingSys :: "script sys" where
  "connectingSys = replay\<lparr>
     sys_poll := (\<lambda>fds k. (\<lparr>pollRet = 1, pollErrno = 0, pollRevents = (\<lambda>j. if j = 0 then POLLIN else 0)\<rparr>, k)),
     sys_accept := (\<lambda>l k. (6, k)), SSL_new := (\<lambda>ctx k. (30, k)), SSL_accept := (\<lambda>h k. (1, k)),
     sys_sigint := (\<lambda>k. True)\<rparr>"

lemma connectingSys_pipe [simp]: "\<not> sys_sigpipe connectingSys k"
  by (simp add: connectingSys_def replay_def)

text \<open>A listener with its two listening sockets and one connected dispatcher.\<close>

definition exampleTls :: sock where
  "exampleTls = (exampleSock 4 TCP)\<lparr>dynClass := TcpSslListenerSocket 9, listenSocket := True\<rparr>"

definition exampleUnix :: sock where
  "exampleUnix = (exampleSock 5 UNIX)\<lparr>dynClass := UnixListenerSocket MY_SOCK_PATH, listenSocket := True\<rparr>"

definition exampleListener :: "script lstate" where
  "exampleListener = \<lparr>exitRequested = False, pollerFailed = False, disp_pid = 77,
     socketsList = \<lparr>sockets = [1, 2, 3], maxSize = 100\<rparr>, outputSocketsList = \<lparr>sockets = [], maxSize = 100\<rparr>,
     world = (exampleWorld [exampleTls, exampleUnix, exampleSock 7 UNIX] [])
       \<lparr>heap := [1 \<mapsto> \<lparr>obj = exampleTls, useCount = 2\<rparr>, 2 \<mapsto> \<lparr>obj = exampleUnix, useCount = 2\<rparr>,
         3 \<mapsto> \<lparr>obj = exampleSock 7 UNIX, useCount = 1\<rparr>]\<rparr>\<rparr>"

lemma exampleListener_inv: "listenerInv (appCfg (world exampleListener)) 1 2 exampleListener"
  by (auto simp: exampleListener_def exampleTls_def exampleUnix_def listenerInv_def good_def typed_def okClass_def
      listenerClasses_def owned_def ownersOf_def listOk_def LISTENER_SOCKETS_def exampleSock_def)

theorem round_forwards_client_witness:
  "\<exists>s' n. listenerRound connectingSys exampleListener = Inr s' \<and>
    {Io (EvSendmsg 7 [NUL, NUL] (Some 6) n), Io (EvClose 6)} \<subseteq> set (trace (world s'))"
proof -
  let ?so = "(\<lambda>q. exampleSock 7 UNIX)(1 := exampleTls, 2 := exampleUnix)"
  have env: "clientConnects connectingSys 0 6"
    by (simp add: clientConnects_def onlyReady_def connectingSys_def replay_def)
  have so: "\<forall>q \<in> set (sockets (socketsList exampleListener)). deref (world exampleListener) q = Inr (?so q)"
    by (simp add: deref_def exampleListener_def)
  have d: "dispatchersIn ?so (sockets (socketsList exampleListener)) = [7]"
    by (simp add: dispatchersIn_def exampleSock_def exampleListener_def exampleTls_def exampleUnix_def)
  have "sendCmsg (world exampleListener)" by (simp add: exampleListener_def)
  from round_forwards_client [OF exampleListener_inv _ _ refl so _ _ _ env this, of 9, unfolded d] show ?thesis
    by (auto simp: exampleListener_def exampleTls_def exampleSock_def length_Suc_conv)
qed

section \<open>A signal ends the loop\<close>

text \<open>
  The way out of the listener, in order: \<^verbatim>\<open>EXIT\<close> to every connected dispatcher, one look for a
  child, the destruction of the sockets, the TLS context; no socket object is left. It is cut
  short only where a write raises SIGPIPE.
\<close>

definition takesLeave :: "(ptr \<Rightarrow> sock) \<Rightarrow> 'k lstate \<Rightarrow> 'k world \<Rightarrow> bool" where
  "takesLeave so s w \<longleftrightarrow>
     (\<exists>ns pid st gone ctx. (\<forall>p. heap w p = None) \<and>
        length ns = length (dispatchersIn so (sockets (socketsList s))) \<and>
        trace w = trace (world s) @
          map2 (\<lambda>fd n. Io (EvWrite fd ''EXIT'' n)) (dispatchersIn so (sockets (socketsList s))) ns @
          Proc (EvWaitpid pid st) # concat (map destroyEvents gone) @ ctx \<and>
        (\<forall>e \<in> set ctx. \<exists>h. e = Ctx (EvCtxFree h)))"

definition leavesInOrder :: "'k sys \<Rightarrow> ptr \<Rightarrow> ptr \<Rightarrow> 'k lstate \<Rightarrow> bool" where
  "leavesInOrder S t u s \<longleftrightarrow>
     (\<exists>so. (\<forall>p \<in> set (sockets (socketsList s)). deref (world s) p = Inr (so p)) \<and>
        sat (pipeCrashes S) (takesLeave so s) (listenerExit S t u s))"

lemma wait_disp_child_trace:
  "wait_disp_child S w = (r, w') \<Longrightarrow> \<exists>pid st. trace w' = trace w @ [Proc (EvWaitpid pid st)]"
  by (auto simp: wait_disp_child_def k_waitpid_def split: prod.splits if_splits)

lemma dropContext_trace:
  "\<exists>ctx. trace (dropContext S w) = trace w @ ctx \<and> (\<forall>e \<in> set ctx. \<exists>h. e = Ctx (EvCtxFree h))"
  by (cases "sslGlobalCtx w = 0") (auto simp: dropContext_def k_SSL_CTX_free_def)

lemma listenerInv_leaves:
  assumes "listenerInv cfg t u s"
  shows "leavesInOrder S t u s"
proof -
  let ?ps = "sockets (socketsList s)"
  have g: "good cfg (world s) (mset (sockets (outputSocketsList s)) + (mset ?ps + {#u, t#}))"
    and nn: "nullptr \<notin> set ?ps"
    using assms by (auto simp: listenerInv_def listOk_def ac_simps add_mset_commute)
  have "\<exists>x. deref (world s) p = Inr x" if "p \<in> set ?ps" for p
    using good_deref [OF g, of p] that nn by force
  then obtain so where so: "\<forall>p \<in> set ?ps. deref (world s) p = Inr (so p)" by metis
  note ends = listenerExit_good [OF assms, of S]
  show ?thesis
  proof (cases "listenerExit S t u s")
    case (Inl e)
    with ends so show ?thesis unfolding leavesInOrder_def by auto
  next
    case (Inr w)
    with ends have w: "listenerExit S t u s = Inr w" "owned w {#}" by simp_all
    from w(1) obtain w1 where say: "sayGoodbyeToAllDispatchers S ?ps (world s) = Inr w1"
      by (auto simp: listenerExit_def outcome_simps)
    then obtain ns where w1: "length ns = length (dispatchersIn so ?ps)"
      "trace w1 = trace (world s) @ map2 (\<lambda>fd n. Io (EvWrite fd ''EXIT'' n)) (dispatchersIn so ?ps) ns"
      using sayGoodbye_known [OF so, of S] by auto
    obtain r w2 where w2: "wait_disp_child S w1 = (r, w2)" by (metis surj_pair)
    from w(1) obtain out w3 l w4 w5 w6 where rest: "clearSockets S (outputSocketsList s) w2 = Inr (out, w3)"
      "clearSockets S (socketsList s) w3 = Inr (l, w4)" "releasePtr S u w4 = Inr w5" "releasePtr S t w5 = Inr w6"
      "w = dropContext S w6"
      using say w2 by (auto simp: listenerExit_def outcome_simps split: prod.splits)
    obtain pid st where p: "trace w2 = trace w1 @ [Proc (EvWaitpid pid st)]" using wait_disp_child_trace [OF w2] by blast
    obtain g1 g2 g3 g4 where "trace w3 = trace w2 @ concat (map destroyEvents g1)"
      "trace w4 = trace w3 @ concat (map destroyEvents g2)" "trace w5 = trace w4 @ concat (map destroyEvents g3)"
      "trace w6 = trace w5 @ concat (map destroyEvents g4)"
      using clear_destroys [OF rest(1)] clear_destroys [OF rest(2)] release_destroys [OF rest(3)]
        release_destroys [OF rest(4)] by blast
    then have tr: "trace w6 = trace w2 @ concat (map destroyEvents (g1 @ g2 @ g3 @ g4))" by simp
    obtain ctx where ctx: "trace w = trace w6 @ ctx" "\<forall>e \<in> set ctx. \<exists>h. e = Ctx (EvCtxFree h)"
      using dropContext_trace rest(5) by metis
    have t: "trace w = trace (world s) @ map2 (\<lambda>fd n. Io (EvWrite fd ''EXIT'' n)) (dispatchersIn so ?ps) ns @
        Proc (EvWaitpid pid st) # concat (map destroyEvents (g1 @ g2 @ g3 @ g4)) @ ctx"
      unfolding ctx(1) tr p w1(2) by simp
    have h: "\<forall>p. heap w p = None" using owned_None [OF w(2)] by simp
    have "takesLeave so s w" unfolding takesLeave_def using h w1(1) t ctx(2) by blast
    with so w(1) show ?thesis unfolding leavesInOrder_def by auto
  qed
qed



end
