(* ===== verification/ProcessSystem.thy ===== *)
theory ProcessSystem
  imports SessionTable ListenerLedger DispatcherMain
begin

text \<open>
  The programs side by side: any number of listeners and dispatchers that take turns on one
  state of the kernel, start at any time and end in their own way, while clients and the
  network change that state between the turns. A turn is one round of a program's loop, or
  its way out.
\<close>

section \<open>Processes\<close>

text \<open>
  A running process is what its \<^verbatim>\<open>main\<close> holds; one that has ended is the outcome of its way
  out. The system's kernel state is the one the turn starts from.
\<close>

datatype 'k process =
    Listening ptr ptr "'k Listener.lstate"
  | Dispatching ptr "'k Dispatcher.dstate"
  | ListenerEnded "'k world outcome"
  | DispatcherEnded "'k world outcome"

definition enterListener :: "'k \<Rightarrow> 'k Listener.lstate \<Rightarrow> 'k Listener.lstate" where
  "enterListener k s = Listener.lstate.world_update (\<lambda>w. w\<lparr>kern := k\<rparr>) s"

definition enterDispatcher :: "'k \<Rightarrow> 'k Dispatcher.dstate \<Rightarrow> 'k Dispatcher.dstate" where
  "enterDispatcher k d = Dispatcher.dstate.world_update (\<lambda>w. w\<lparr>kern := k\<rparr>) d"

fun takeTurn :: "'k sys \<Rightarrow> 'k \<Rightarrow> 'k process \<Rightarrow> 'k process" where
  "takeTurn S k (Listening t u s) =
     (let s0 = enterListener k s in
      if listenerStops s0 then ListenerEnded (listenerExit S t u s0)
      else case listenerRound S s0 of Inl e \<Rightarrow> ListenerEnded (Inl e) | Inr s1 \<Rightarrow> Listening t u s1)"
| "takeTurn S k (Dispatching u d) =
     (let d0 = enterDispatcher k d in
      if dispatcherFailed d0 then DispatcherEnded (dispatcherExit S u d0)
      else case dispatcherRound S u u d0 of Inl e \<Rightarrow> DispatcherEnded (Inl e) | Inr d1 \<Rightarrow> Dispatching u d1)"
| "takeTurn S k p = p"

text \<open>The kernel state a process leaves behind; a crash leaves it to the outside.\<close>

fun kernelAfter :: "'k \<Rightarrow> 'k process \<Rightarrow> 'k" where
  "kernelAfter k (Listening t u s) = kern (Listener.lstate.world s)"
| "kernelAfter k (Dispatching u d) = kern (Dispatcher.dstate.world d)"
| "kernelAfter k (ListenerEnded r) = (case r of Inl e \<Rightarrow> k | Inr w \<Rightarrow> kern w)"
| "kernelAfter k (DispatcherEnded r) = (case r of Inl e \<Rightarrow> k | Inr w \<Rightarrow> kern w)"

section \<open>The system\<close>

text \<open>
  Process \<open>i\<close> makes its calls through \<open>S i\<close>. A listener joins when both of its sockets could be
  made, a dispatcher when its connection could.
\<close>

inductive systemStep ::
    "(nat \<Rightarrow> 'k sys) \<Rightarrow> 'k \<times> 'k process list \<Rightarrow> 'k \<times> 'k process list \<Rightarrow> bool" for S where
  turn: "i < length ps \<Longrightarrow> p = takeTurn (S i) k (ps ! i) \<Longrightarrow>
    systemStep S (k, ps) (kernelAfter k p, ps[i := p])"
| startListener: "listenerStart (S (length ps)) getopt (startWorld LISTENER k) = Inr (Inr (t, u, s)) \<Longrightarrow>
    t \<noteq> nullptr \<Longrightarrow> u \<noteq> nullptr \<Longrightarrow>
    systemStep S (k, ps) (kern (Listener.lstate.world s), ps @ [Listening t u s])"
| startDispatcher: "createSocket (S (length ps)) (UnixSocketFactory path) (startWorld DISPATCHER k) = Inr (u, w) \<Longrightarrow>
    u \<noteq> nullptr \<Longrightarrow> dispatcherStart u w = Inr d \<Longrightarrow>
    systemStep S (k, ps) (kern (Dispatcher.dstate.world d), ps @ [Dispatching u d])"
| outside: "systemStep S (k, ps) (k', ps)"

inductive_cases systemStepE: "systemStep S s s'"

abbreviation systemReaches :: "(nat \<Rightarrow> 'k sys) \<Rightarrow> 'k \<times> 'k process list \<Rightarrow> 'k \<times> 'k process list \<Rightarrow> bool" where
  "systemReaches S \<equiv> (systemStep S)\<^sup>*\<^sup>*"

section \<open>What every process keeps\<close>

text \<open>Descriptors come from \<^verbatim>\<open>socket\<close>, \<^verbatim>\<open>accept\<close> and \<^verbatim>\<open>recvmsg\<close>.\<close>

definition givenOf :: "event \<Rightarrow> int list" where
  "givenOf e = openOf e @ receiveOf e"

definition balanced :: "'k world \<Rightarrow> bool" where
  "balanced w \<longleftrightarrow> (\<forall>fd. count_list (closesOf (trace w)) fd + card (holders w fd) \<le> count_list (openedBy givenOf (trace w)) fd)"

text \<open>
  A running listener has its invariant, a running dispatcher too, and its table of sessions has
  gone through steps of the abstract table from its first entry on. A listener has closed no
  descriptor more often than it was given it; a dispatcher has not either, where every message
  with status zero carries a descriptor. A process that has ended freed every object or crashed
  in one of the ways listed for its program.
\<close>

fun processOk :: "'k sys \<Rightarrow> 'k process \<Rightarrow> bool" where
  "processOk S (Listening t u s) \<longleftrightarrow> (\<exists>cfg. listenerInv cfg t u s) \<and> balanced (Listener.lstate.world s)"
| "processOk S (Dispatching u d) \<longleftrightarrow> dispatcherInv u d \<and>
     (\<exists>n fd. tableSteps MAX_SOCKETS (n, [(u, fd, NO_STATUS)]) (dispatcherTable d)) \<and>
     (carriesDescriptors S \<longrightarrow> balanced (Dispatcher.dstate.world d))"
| "processOk S (ListenerEnded r) \<longleftrightarrow> (\<exists>cfg. sat (listenerCrashes S cfg) (\<lambda>w. \<forall>p. heap w p = None) r)"
| "processOk S (DispatcherEnded r) \<longleftrightarrow> sat (dispatcherCrashes S) (\<lambda>w. \<forall>p. heap w p = None) r"

text \<open>
  What becomes of a process: it stays the program it is with the pointers its \<^verbatim>\<open>main\<close> holds, or
  ends; the table of a dispatcher goes through steps of the abstract table from any point to
  any later one; and the end is final.
\<close>

fun follows :: "'k process \<Rightarrow> 'k process \<Rightarrow> bool" where
  "follows (Listening t u s) (Listening t' u' s') \<longleftrightarrow> t' = t \<and> u' = u"
| "follows (Listening t u s) (ListenerEnded r) \<longleftrightarrow> True"
| "follows (Dispatching u d) (Dispatching u' d') \<longleftrightarrow>
     u' = u \<and> tableSteps MAX_SOCKETS (dispatcherTable d) (dispatcherTable d')"
| "follows (Dispatching u d) (DispatcherEnded r) \<longleftrightarrow> True"
| "follows (ListenerEnded r) (ListenerEnded r') \<longleftrightarrow> r' = r"
| "follows (DispatcherEnded r) (DispatcherEnded r') \<longleftrightarrow> r' = r"
| "follows p p' \<longleftrightarrow> False"

lemma follows_refl [simp]: "follows p p" by (cases p) simp_all

lemma follows_trans: "follows p p1 \<Longrightarrow> follows p1 p2 \<Longrightarrow> follows p p2"
  by (cases p; cases p1; cases p2) (auto intro: rtranclp_trans)

lemma enterListener_inv [simp]: "listenerInv cfg t u (enterListener k s) = listenerInv cfg t u s"
  by (simp add: listenerInv_def enterListener_def good_def typed_def owned_def ownersOf_def)

lemma enterDispatcher_inv [simp]: "dispatcherInv u (enterDispatcher k d) = dispatcherInv u d"
  by (simp add: dispatcherInv_def enterDispatcher_def owned_def ownersOf_def)

lemma enter_fields [simp]:
  "Listener.lstate.world (enterListener k s) = (Listener.lstate.world s)\<lparr>kern := k\<rparr>"
  "Dispatcher.dstate.world (enterDispatcher k d) = (Dispatcher.dstate.world d)\<lparr>kern := k\<rparr>"
  "Dispatcher.dstate.socketsList (enterDispatcher k d) = Dispatcher.dstate.socketsList d"
  by (simp_all add: enterListener_def enterDispatcher_def)

lemma tableOf_kern [simp]: "tableOf l (w\<lparr>kern := k\<rparr>) = tableOf l w"
  by (simp add: tableOf_def entriesOf_def session_def deref_def)

lemma balanced_kern [simp]: "balanced (w\<lparr>kern := k\<rparr>) = balanced w"
  by (simp add: balanced_def holders_def deref_def)


lemma countsGiven [simp]: "countsOpened givenOf" "countsReceived givenOf"
  by (auto simp: countsOpened_def countsReceived_def givenOf_def)

lemma owned_bounded: "owned w M \<Longrightarrow> heapBounded w"
  using owned_None [of w M] by (fastforce simp: heapBounded_def owned_def)

lemma balanced_step:
  assumes "ledger givenOf w w'" "balanced w" "heapBounded w"
  shows "balanced w'"
  unfolding balanced_def
proof
  fix fd
  have "count_list (closesOf (trace w)) fd + card (holders w fd) \<le> count_list (openedBy givenOf (trace w)) fd"
    using assms(2) by (simp add: balanced_def)
  with ledgerD(2) [OF assms(1,3), of fd]
  show "count_list (closesOf (trace w')) fd + card (holders w' fd) \<le> count_list (openedBy givenOf (trace w')) fd"
    by linarith
qed

lemma balanced_start [simp]: "balanced (startWorld t k)"
  by (simp add: balanced_def holders_def deref_def)

lemma startWorld_owned [simp]: "owned (startWorld t k) {#}"
  by (simp add: owned_def ownersOf_def)

section \<open>Turns\<close>

lemma takeTurn_listener:
  assumes "processOk S (Listening t u s)"
  shows "processOk S (takeTurn S k (Listening t u s))"
proof -
  let ?s = "enterListener k s"
  from assms obtain cfg where inv: "listenerInv cfg t u ?s" and b: "balanced (Listener.lstate.world ?s)" by auto
  show ?thesis
  proof (cases "listenerStops ?s")
    case True
    have "sat (listenerCrashes S cfg) (\<lambda>w. \<forall>p. heap w p = None) (listenerExit S t u ?s)"
      by (rule sat_mono [OF listenerExit_good [OF inv]]) (auto simp: owned_None)
    with True show ?thesis by auto
  next
    case False
    note r = listenerRound_good [OF inv, of S]
    show ?thesis
    proof (cases "listenerRound S ?s")
      case (Inl e)
      with False r show ?thesis by auto
    next
      case (Inr s1)
      have "heapBounded (Listener.lstate.world ?s)" 
        using inv unfolding listenerInv_def by (metis owned_bounded goodD)
      then have "balanced (Listener.lstate.world s1)"
        using balanced_step [OF _ b] lled.round [OF Inr, of givenOf] by simp
      with False Inr r show ?thesis by auto
    qed
  qed
qed

lemma takeTurn_dispatcher:
  assumes "processOk S (Dispatching u d)"
  shows "processOk S (takeTurn S k (Dispatching u d))"
proof -
  let ?d = "enterDispatcher k d"
  from assms obtain n fd where inv: "dispatcherInv u ?d"
    and t: "tableSteps MAX_SOCKETS (n, [(u, fd, NO_STATUS)]) (dispatcherTable ?d)"
    and b: "carriesDescriptors S \<longrightarrow> balanced (Dispatcher.dstate.world ?d)" by auto
  show ?thesis
  proof (cases "dispatcherFailed ?d")
    case True
    obtain w where "dispatcherExit S u ?d = Inr w" "owned w {#}" using dispatcherExit_owned [OF inv] by blast
    with True show ?thesis using owned_None [of w "{#}"] by simp
  next
    case False
    note r = dispatcherRound_sat [OF inv, of S]
    show ?thesis
    proof (cases "dispatcherRound S u u ?d")
      case (Inl e)
      with False r show ?thesis by auto
    next
      case (Inr d1)
      have "heapBounded (Dispatcher.dstate.world ?d)" using inv owned_bounded by (auto simp: dispatcherInv_def)
      then have "carriesDescriptors S \<longrightarrow> balanced (Dispatcher.dstate.world d1)"
        using balanced_step [of "Dispatcher.dstate.world ?d" "Dispatcher.dstate.world d1"]
          led.round [OF Inr, of givenOf] b countsGiven(2) by metis
      moreover have "tableSteps MAX_SOCKETS (n, [(u, fd, NO_STATUS)]) (dispatcherTable d1)"
        by (rule table.round [OF t inv Inr])
      ultimately show ?thesis using False Inr r by auto
    qed
  qed
qed

lemma takeTurn_ok: "processOk S p \<Longrightarrow> processOk S (takeTurn S k p)"
proof (cases p)
  case (Listening t u s)
  then show "processOk S p \<Longrightarrow> ?thesis" by (simp only: takeTurn_listener)
next
  case (Dispatching u d)
  then show "processOk S p \<Longrightarrow> ?thesis" by (simp only: takeTurn_dispatcher)
qed simp_all

lemma takeTurn_follows:
  assumes "processOk S p"
  shows "follows p (takeTurn S k p)"
proof (cases p)
  case (Dispatching u d)
  let ?d = "enterDispatcher k d"
  have inv: "dispatcherInv u ?d" using assms Dispatching by simp
  have "tableSteps MAX_SOCKETS (dispatcherTable d) (dispatcherTable d1)" if "dispatcherRound S u u ?d = Inr d1" for d1
    using table.round [of "dispatcherTable ?d", OF _ inv that] by simp
  with Dispatching show ?thesis by (auto simp: Let_def split: sum.splits)
qed (auto simp: Let_def split: sum.splits)

section \<open>Starts\<close>

lemma startListener_ok:
  assumes "listenerStart S getopt (startWorld LISTENER k) = Inr (Inr (t, u, s))" "t \<noteq> nullptr" "u \<noteq> nullptr"
  shows "processOk S (Listening t u s)"
proof -
  let ?w = "startWorld LISTENER k" and ?cfg = "listenerConfig getopt"
  obtain e w1 where c: "createContext S (caFile ?cfg) (certFile ?cfg) (keyFile ?cfg) ''1q2w3e4r''
    (?w\<lparr>appCfg := ?cfg\<rparr>) = (e, w1)" by (metis surj_pair)
  then obtain ctx where "listenerSockets S (TcpSslListenerSocketFactory 5555 32 ctx) w1 = Inr (t, u, s)"
    using assms(1) by (auto simp: listenerStart_def Let_def createTcpSslListenerSocketFactory_def outcome_simps
        split: if_splits)
  then have "listenerInv ?cfg t u s"
    using listenerSockets_inv [OF _ createContext_good [OF startWorld_owned c] assms(2,3)] by blast
  moreover have "balanced (Listener.lstate.world s)"
    by (rule balanced_step [OF listenerStart_ledger [OF assms(1)]]) (simp_all add: owned_bounded [OF startWorld_owned])
  ultimately show ?thesis by auto
qed

lemma makeSocket_status:
  "makeSocket cls fd t l v = Inr (p, w) \<Longrightarrow> p \<noteq> nullptr \<Longrightarrow>
   \<exists>s. deref w p = Inr s \<and> clientStatus s = NO_STATUS"
  by (auto simp: makeObject_def outcome_simps makeShared_def deref_def)

lemma startDispatcher_ok:
  assumes "createSocket S (UnixSocketFactory path) (startWorld DISPATCHER k) = Inr (u, w)" "u \<noteq> nullptr"
    and "dispatcherStart u w = Inr d"
  shows "processOk S (Dispatching u d)"
proof -
  let ?v = "startWorld DISPATCHER k"
  have own: "owned w {#u#}"
    using unixCreate_sat [OF startWorld_owned, of "{}" S path DISPATCHER k] assms(1) by simp
  obtain su where su: "deref w u = Inr su" "clientStatus su = NO_STATUS"
    using assms(1,2) by (auto simp: unixCreate_def split: prod.splits if_splits dest!: makeSocket_status)
  have inv: "dispatcherInv u d" using dispatcherStart_inv [OF own assms(2)] assms(3) by auto
  have "ledger givenOf ?v w"
    using assms(1) by (auto intro: madeOn_ledger unixCreate_made)
  moreover have "ledger givenOf w (Dispatcher.dstate.world d)"
  proof -
    obtain w1 b l where s: "sharePtr u w = Inr w1"
      "putSocket u (newSocketsList MAX_SOCKETS) w1 = Inr (b, l, Dispatcher.dstate.world d)"
      using assms(3) by (auto simp: dispatcherStart_def outcome_simps)
    show ?thesis by (rule ledger_trans [OF ledger_share [OF s(1)] object_led.put [OF s(2)]])
  qed
  ultimately have "ledger givenOf ?v (Dispatcher.dstate.world d)" by (rule ledger_trans)
  then have "balanced (Dispatcher.dstate.world d)"
    by (rule balanced_step [OF _ balanced_start owned_bounded [OF startWorld_owned]])
  moreover have "dispatcherTable d = (nextPtr w, [(u, descriptor su, NO_STATUS)])"
    using dispatcher_table_start [OF own su(1) assms(3)] su(2) by simp
  ultimately show ?thesis using inv by auto
qed


section \<open>The properties\<close>

lemma system_ok:
  "systemReaches S s s' \<Longrightarrow> (\<forall>i < length (snd s). processOk (S i) (snd s ! i)) \<Longrightarrow>
   \<forall>i < length (snd s'). processOk (S i) (snd s' ! i)"
proof (induction rule: rtranclp_induct)
  case (step s1 s2)
  then have ok: "\<forall>i < length (snd s1). processOk (S i) (snd s1 ! i)" by blast
  from step.hyps(2) show ?case
  proof cases
    case (turn i ps p k)
    with ok show ?thesis by (auto simp: nth_list_update takeTurn_ok)
  next
    case (startListener ps getopt k t u s)
    with ok startListener_ok [OF startListener(3-5)] show ?thesis
      by (auto simp: nth_append less_Suc_eq simp del: processOk.simps)
  next
    case (startDispatcher ps path k u w d)
    with ok startDispatcher_ok [OF startDispatcher(3-5)] show ?thesis
      by (auto simp: nth_append less_Suc_eq simp del: processOk.simps)
  qed (use ok in auto)
qed


lemma system_follows:
  assumes "systemReaches S s s'" "\<forall>i < length (snd s). processOk (S i) (snd s ! i)"
  shows "length (snd s) \<le> length (snd s') \<and> (\<forall>i < length (snd s). follows (snd s ! i) (snd s' ! i))"
  using assms(1)
proof (induction rule: rtranclp_induct)
  case (step s1 s2)
  have ok: "\<forall>i < length (snd s1). processOk (S i) (snd s1 ! i)" using system_ok [OF step.hyps(1) assms(2)] .
  from step.hyps(2) have "length (snd s1) \<le> length (snd s2) \<and> (\<forall>i < length (snd s1). follows (snd s1 ! i) (snd s2 ! i))"
  proof cases
    case (turn i ps p k)
    with ok show ?thesis by (auto simp: nth_list_update takeTurn_follows simp del: takeTurn.simps)
  qed (auto simp: nth_append)
  with step.IH show ?case by (meson follows_trans le_trans less_le_trans)
qed simp



end
