(* ===== verification/Client.thy ===== *)
theory Client
  imports SocketFactories SslContext MainLoop
begin

text \<open>
  \<^verbatim>\<open>myclnt.cpp\<close>: the interactive client. \<open>clientStart\<close> connects, \<open>clientRound\<close> is the body of
  the endless loop, \<open>clientMain\<close> the program with its exit code.
\<close>


section \<open>The program\<close>

text \<open>
  \<^verbatim>\<open>printf("%.*s\n", bytes, recvBuffer)\<close> prints what was read up to its first NUL. The second
  field stands for the \<^verbatim>\<open>break\<close>. The client installs no handler for SIGPIPE either.
\<close>

record 'k cstate =
  world :: "'k world"
  finished :: bool

definition clientRound :: "'k sys \<Rightarrow> ptr \<Rightarrow> 'k cstate \<Rightarrow> 'k cstate outcome" where
  "clientRound S clientSocket c =
     andThen (utilsRead S clientSocket 1024 0 (world c)) (\<lambda>(r, w1).
     let w2 = (if 0 < ioRet r then k_stdout (cstr (ioBytes r) @ [NL]) w1 else w1)
     in case k_stdin S w2 of (userInputLine, w3) \<Rightarrow>
        if userInputLine = [] then
          andThen (utilsWrite S clientSocket ''EXIT'' w3) (\<lambda>(n, w4).
          unlessKilled S w4 (Inr \<lparr>world = w4, finished = True\<rparr>))
        else
          andThen (utilsWrite S clientSocket userInputLine w3) (\<lambda>(n, w4).
          unlessKilled S w4 (Inr (c\<lparr>world := w4\<rparr>))))"

definition clientLoop :: "'k sys \<Rightarrow> ptr \<Rightarrow> 'k cstate \<Rightarrow> 'k cstate outcome option" where
  "clientLoop S clientSocket c = repeatUntil finished (clientRound S clientSocket) c"

text \<open>
  \<^verbatim>\<open>main\<close> up to the loop: an exit code when there is no context (the exception of the factory)
  or no connection, the connected socket otherwise. The result of \<^verbatim>\<open>createClientContext\<close> is not
  looked at.
\<close>

definition clientStart :: "'k sys \<Rightarrow> 'k world \<Rightarrow> (int + ptr \<times> 'k cstate) outcome" where
  "clientStart S w =
     (case createClientContext S w of (r, w1) \<Rightarrow>
      case createTcpSslConnectSocketFactory ''localhost'' 5555 w1 of
        Inl what \<Rightarrow> Inr (Inl 1)
      | Inr f \<Rightarrow>
          andThen (createSocket S f w1) (\<lambda>(clientSocket, w2).
          if clientSocket = nullptr then Inr (Inl 1)
          else Inr (Inr (clientSocket, \<lparr>world = w2, finished = False\<rparr>))))"

text \<open>The whole program: its exit code and the state in which it ends.\<close>

definition clientMain :: "'k sys \<Rightarrow> 'k world \<Rightarrow> (int \<times> 'k world option) outcome option" where
  "clientMain S w =
     (case clientStart S w of
        Inl e \<Rightarrow> Some (Inl e)
      | Inr (Inl code) \<Rightarrow> Some (Inr (code, None))
      | Inr (Inr (p, c)) \<Rightarrow>
         (case clientLoop S p c of
            None \<Rightarrow> None
          | Some r \<Rightarrow> Some (andThen r (\<lambda>c1. andThen (releasePtr S p (world c1)) (\<lambda>w1.
                             Inr (0, Some w1))))))"

section \<open>One round\<close>

lemma k_stdin_frame: "k_stdin S w = (bs, w') \<Longrightarrow> sameProc w w'"
  by (rule call_frame)


lemma clientRound_sat:
  assumes "owned (world c) {#p#}" "p \<noteq> nullptr"
  shows "sat (pipeCrashes S) (\<lambda>c'. owned (world c') {#p#}) (clientRound S p c)"
proof -
  have rd: "sat (pipeCrashes S) (\<lambda>(r, w'). owned w' {#p#}) (utilsRead S p 1024 0 (world c))"
    by (rule read_sat [OF assms(1) _ assms(2)]) simp
  show ?thesis
    unfolding clientRound_def Let_def
  proof (rule sat_andThen [OF rd], clarify, goal_cases)
    case (1 r w1)
    let ?w2 = "if 0 < ioRet r then k_stdout (cstr (ioBytes r) @ [NL]) w1 else w1"
    have o2: "owned ?w2 {#p#}" using 1 by simp
    obtain line w3 where l: "k_stdin S ?w2 = (line, w3)" by (metis surj_pair)
    have o3: "owned w3 {#p#}" using owned_frame [OF k_stdin_frame [OF l] o2] .
    have wr: "sat (pipeCrashes S) (\<lambda>(n, w'). owned w' {#p#}) (utilsWrite S p m w3)" for m
      by (rule write_sat [OF o3 _ assms(2)]) simp
    show ?case
      using l by (auto intro!: sat_andThen [OF wr] sat_unlessKilled)
  qed
qed

interpretation cl: main_loop finished "clientRound S p" "\<lambda>c. owned (world c) {#p#} \<and> p \<noteq> nullptr" "pipeCrashes S"
  for S :: "'k sys" and p
proof (unfold_locales, elim conjE)
  fix c :: "'k cstate"
  assume o: "owned (world c) {#p#}" and p: "p \<noteq> nullptr"
  show "sat (pipeCrashes S) (\<lambda>c. owned (world c) {#p#} \<and> p \<noteq> nullptr) (clientRound S p c)"
    by (rule sat_mono [OF clientRound_sat [OF o p]]) (use p in auto)
qed

lemma clientRound_known:
  assumes "deref (world c) p = Inr s" "castSslSocket (dynClass s) = Some b"
    and "BIO_read S b 1024 (kern (world c)) = (r, k1)" "sys_stdin S k1 = (line, k2)"
    and "BIO_write S b (if line = [] then ''EXIT'' else line) k2 = (n, k3)"
  shows "\<exists>c'. clientRound S p c = (if sys_sigpipe S k3 then Inl BrokenPipe else Inr c') \<and> finished c' = (line = [] \<or> finished c) \<and>
    kern (world c') = k3 \<and> heap (world c') = heap (world c) \<and>
    trace (world c') = trace (world c) @ [Tls (EvBioRead b 1024 r)] @
      (if ioBytes r = [] then [] else [Proc (EvStdout (cstr (ioBytes r) @ [NL]))]) @
      [Proc (EvStdin line), Tls (EvBioWrite b (if line = [] then ''EXIT'' else line) n)]"
proof -
  have d: "deref (logCall e k w) p = deref w p" for e k and w :: "'a world" by (rule deref_cong) simp
  let ?w1 = "logCall (Tls (EvBioRead b 1024 r)) k1 (world c)"
  let ?w = "logCall (Tls (EvBioWrite b (if line = [] then ''EXIT'' else line) n)) k3 (logCall (Proc (EvStdin line)) k2
      (if ioBytes r = [] then ?w1 else logCall (Proc (EvStdout (cstr (ioBytes r) @ [NL]))) k1 ?w1))"
  show ?thesis
    using assms
    by (intro exI [of _ "\<lparr>world = ?w, finished = line = [] \<or> finished c\<rparr>"])
      (auto simp: clientRound_def utilsRead_def utilsWrite_def k_BIO_read_def k_BIO_write_def
        k_stdin_def k_stdout_def d Let_def guarded_def)
qed

text \<open>
  One round of the client over TLS: one read, whose data is printed up to its first NUL if
  there is any, one token from the user, one write. An empty token, at the end of the input,
  becomes \<^verbatim>\<open>EXIT\<close> and ends the loop; any other goes out as it is. A write that raises SIGPIPE
  ends the client.
\<close>

theorem client_round:
  assumes "deref (world c) p = Inr s" "castSslSocket (dynClass s) = Some b"
    and "BIO_read S b 1024 (kern (world c)) = (r, k1)" "sys_stdin S k1 = (line, k2)"
    and "BIO_write S b (if line = [] then ''EXIT'' else line) k2 = (n, k3)"
  shows "\<exists>c'. clientRound S p c = (if sys_sigpipe S k3 then Inl BrokenPipe else Inr c') \<and> finished c' = (line = [] \<or> finished c) \<and>
    kern (world c') = k3 \<and> heap (world c') = heap (world c) \<and>
    trace (world c') = trace (world c) @ [Tls (EvBioRead b 1024 r)] @
      (if ioBytes r = [] then [] else [Proc (EvStdout (cstr (ioBytes r) @ [NL]))]) @
      [Proc (EvStdin line), Tls (EvBioWrite b (if line = [] then ''EXIT'' else line) n)]"
  by (rule clientRound_known [OF assms])

theorem client_round_witness:
  "\<exists>c'. clientRound replay 1 \<lparr>world = exampleWorld [(exampleSock 6 SSL)\<lparr>dynClass := SslClientSocket 20 30\<rparr>]
      [AIo (Data ''HELLO''), AIn ''hi'', ARet 2], finished = False\<rparr> = Inr c' \<and> \<not> finished c' \<and>
    trace (world c') = [Tls (EvBioRead 20 1024 (Data ''HELLO'')), Proc (EvStdout (''HELLO'' @ [NL])),
      Proc (EvStdin ''hi''), Tls (EvBioWrite 20 ''hi'' 2)]"
proof -
  let ?s = "(exampleSock 6 SSL)\<lparr>dynClass := SslClientSocket 20 30\<rparr>"
  let ?c = "\<lparr>world = exampleWorld [?s] [AIo (Data ''HELLO''), AIn ''hi'', ARet 2], finished = False\<rparr>"
  have d: "deref (world ?c) 1 = Inr ?s" by (simp add: deref_def)
  from client_round [OF d, of 20 replay "Data ''HELLO''" "[AIn ''hi'', ARet 2]" "''hi''" "[ARet 2]" 2 "[]"]
  show ?thesis by (auto simp: replay_def cstr_def)
qed

section \<open>The loop ends with the input\<close>

lemma clientLoop_ends:
  fixes m :: "'k \<Rightarrow> nat"
  assumes rd: "\<And>k. m (snd (BIO_read S b 1024 k)) \<le> m k"
    and wr: "\<And>msg k. m (snd (BIO_write S b msg k)) \<le> m k"
    and inp: "\<And>k. if fst (sys_stdin S k) = [] then m (snd (sys_stdin S k)) \<le> m k
                  else m (snd (sys_stdin S k)) < m k"
    and "deref (world c) p = Inr s" "castSslSocket (dynClass s) = Some b"
  shows "\<exists>r. clientLoop S p c = Some r \<and> sat (pipeCrashes S) (\<lambda>c'. finished c' \<and>
    (finished c \<or> (\<exists>n. last (trace (world c')) = Tls (EvBioWrite b ''EXIT'' n)))) r"
  using assms(4)
proof (induction "m (kern (world c))" arbitrary: c rule: less_induct)
  case less
  show ?case
  proof (cases "finished c")
    case True
    then show ?thesis by (simp add: clientLoop_def repeatUntil.simps)
  next
    case False
    obtain r k1 where r: "BIO_read S b 1024 (kern (world c)) = (r, k1)" by (metis surj_pair)
    obtain line k2 where l: "sys_stdin S k1 = (line, k2)" by (metis surj_pair)
    obtain n k3 where w: "BIO_write S b (if line = [] then ''EXIT'' else line) k2 = (n, k3)"
      by (metis surj_pair)
    obtain c1 where c1: "clientRound S p c = (if sys_sigpipe S k3 then Inl BrokenPipe else Inr c1)"
      "finished c1 = (line = [])"
      "kern (world c1) = k3" "heap (world c1) = heap (world c)"
      "last (trace (world c1)) = Tls (EvBioWrite b (if line = [] then ''EXIT'' else line) n)"
      using clientRound_known [OF less.prems assms(5) r l w] False by auto
    have d: "deref (world c1) p = Inr s" using deref_cong [OF c1(4)] less.prems by simp
    have step: "clientLoop S p c = (if sys_sigpipe S k3 then Some (Inl BrokenPipe) else clientLoop S p c1)"
      using False c1(1) by (simp add: clientLoop_def repeatUntil.simps [of _ _ c])
    note pipe = sigpipe_crash [of S k3]
    show ?thesis
    proof (cases "line = []")
      case True
      with c1 step pipe show ?thesis by (auto simp: clientLoop_def repeatUntil.simps [of _ _ c1])
    next
      case line: False
      have "m k1 \<le> m (kern (world c))" using rd [of "kern (world c)"] r by simp
      moreover have "m k2 < m k1" using inp [of k1] l line by simp
      moreover have "m k3 \<le> m k2" using wr [of "if line = [] then ''EXIT'' else line" k2] w by simp
      ultimately have "m (kern (world c1)) < m (kern (world c))" using c1(3) by simp
      from less.hyps [OF this d] step c1(2) line pipe False show ?thesis by auto
    qed
  qed
qed

text \<open>
  C28. The client ends when its input does. If the tokens left on the standard input, measured
  by any number that no read or write on the connection raises, go down with every token that
  is not empty, then the loop ends, and the last thing the client does is to send \<^verbatim>\<open>EXIT\<close>,
  unless a write to a dispatcher that is gone raises SIGPIPE and ends it there.
\<close>

theorem client_loop_ends:
  fixes m :: "'k \<Rightarrow> nat"
  assumes "\<And>k. m (snd (BIO_read S b 1024 k)) \<le> m k"
    and "\<And>msg k. m (snd (BIO_write S b msg k)) \<le> m k"
    and "\<And>k. if fst (sys_stdin S k) = [] then m (snd (sys_stdin S k)) \<le> m k
             else m (snd (sys_stdin S k)) < m k"
    and "deref (world c) p = Inr s" "castSslSocket (dynClass s) = Some b" "\<not> finished c"
  shows "\<exists>r. clientLoop S p c = Some r \<and> sat (pipeCrashes S) (\<lambda>c'. finished c' \<and>
    (\<exists>n. last (trace (world c')) = Tls (EvBioWrite b ''EXIT'' n))) r"
  using clientLoop_ends [of m S b c p s, OF assms(1-5)] assms(6) by simp

lemma replay_shrinks:
  "length (snd (BIO_read replay b n k)) \<le> length k"
  "length (snd (BIO_write replay b msg k)) \<le> length k"
proof -
  have "length (snd (nextIo k)) \<le> length k" "length (snd (nextRet k)) \<le> length k"
    by (cases k rule: nextIo.cases; simp) (cases k rule: nextRet.cases; simp)
  then show "length (snd (BIO_read replay b n k)) \<le> length k"
    "length (snd (BIO_write replay b msg k)) \<le> length k" by (simp_all add: replay_def)
qed

lemma replay_input:
  "if fst (sys_stdin replay k) = [] then length (snd (sys_stdin replay k)) \<le> length k
   else length (snd (sys_stdin replay k)) < length k"
proof -
  have "if fst (nextIn k) = [] then length (snd (nextIn k)) \<le> length k
   else length (snd (nextIn k)) < length k" by (cases k rule: nextIn.cases; simp)
  then show ?thesis by (simp add: replay_def)
qed

theorem client_loop_ends_witness:
  "\<exists>c' n. clientLoop replay 1 \<lparr>world = exampleWorld [(exampleSock 6 SSL)\<lparr>dynClass := SslClientSocket 20 30\<rparr>]
      [AIo (Data ''HELLO''), AIn ''hi'', ARet 2, AIo (Fail 0), AIn []], finished = False\<rparr> = Some (Inr c') \<and>
    last (trace (world c')) = Tls (EvBioWrite 20 ''EXIT'' n)"
proof -
  let ?s = "(exampleSock 6 SSL)\<lparr>dynClass := SslClientSocket 20 30\<rparr>"
  let ?c = "\<lparr>world = exampleWorld [?s]
      [AIo (Data ''HELLO''), AIn ''hi'', ARet 2, AIo (Fail 0), AIn []], finished = False\<rparr>"
  have d: "deref (world ?c) 1 = Inr ?s" by (simp add: deref_def)
  show ?thesis
    using client_loop_ends [of length replay 20, OF replay_shrinks replay_input d]
    by (auto simp: pipeCrashes_def replay_def dest!: sat_emptyD)
qed

section \<open>The whole program\<close>

text \<open>
  The client stops with code 1, without having opened a connection, when OpenSSL gives it
  no context and the process had none: the factory throws.
\<close>

theorem client_needs_context:
  assumes "sslGlobalCtx w = 0" "SSL_CTX_new S (kern w) = (0, k)"
  shows "clientMain S w = Some (Inr (1, None))"
  using assms
  by (simp add: clientMain_def clientStart_def createClientContext_def k_SSL_CTX_new_def
      createTcpSslConnectSocketFactory_def)

theorem client_needs_context_witness: "clientMain replay (startWorld LISTENER []) = Some (Inr (1, None))"
  using client_needs_context [of "startWorld LISTENER []" replay "[]"] by (simp add: replay_def)

text \<open>
  C27. Safety of the client: started with an empty heap, if the program ends it ends with an
  exit code, and with code 0 its socket has been freed, or by one of the crashes of
  \<open>connectCrashes\<close>, each only where the environment can bring it about: the BIO is freed twice
  when \<^verbatim>\<open>SSL_connect\<close> can fail, the address overflows when a host entry can be longer than an
  IPv4 address, \<^verbatim>\<open>SSL_set_bio\<close> gets a null pointer when \<^verbatim>\<open>SSL_new\<close> can fail, and a write to a peer
  that is gone raises SIGPIPE. No null or dangling pointer to a socket is used.
\<close>

theorem client_memory_safe:
  assumes "owned w {#}" "clientMain S w = Some r"
  shows "sat (connectCrashes S) (\<lambda>(code, w1). case w1 of None \<Rightarrow> code = 1
    | Some w2 \<Rightarrow> code = 0 \<and> (\<forall>p. heap w2 p = None)) r"
proof -
  obtain i w1 where cc: "createClientContext S w = (i, w1)" by (metis surj_pair)
  then have o1: "owned w1 {#}"
    using assms(1) by (auto simp: createClientContext_def k_SSL_CTX_new_def owned_def ownersOf_def
        split: if_splits prod.splits)
  show ?thesis
  proof (cases "createTcpSslConnectSocketFactory ''localhost'' 5555 w1")
    case (Inl what)
    with assms(2) cc show ?thesis by (auto simp: clientMain_def clientStart_def)
  next
    case (Inr f)
    then have f: "factoryNeeds f = {#}" "factoryCrashes S f = connectCrashes S"
      by (auto simp: createTcpSslConnectSocketFactory_def split: if_splits)
    have cs: "sat (connectCrashes S) (\<lambda>(p, w'). owned w' {#p#}) (createSocket S f w1)"
      using createSocket_sat [OF o1, of f S] f by simp
    show ?thesis
    proof (cases "createSocket S f w1")
      case (Inl e)
      with cs Inr cc assms(2) show ?thesis by (auto simp: clientMain_def clientStart_def)
    next
      case created: (Inr pw)
      obtain p w2 where pw: "pw = (p, w2)" by (cases pw)
      with cs created have o2: "owned w2 {#p#}" by simp
      show ?thesis
      proof (cases "p = nullptr")
        case True
        with created pw Inr cc assms(2) show ?thesis by (auto simp: clientMain_def clientStart_def)
      next
        case False
        then obtain r1 where r1: "clientLoop S p \<lparr>world = w2, finished = False\<rparr> = Some r1"
          "r = andThen r1 (\<lambda>c1. andThen (releasePtr S p (world c1)) (\<lambda>w1. Inr (0, Some w1)))"
          using created pw Inr cc assms(2)
          by (auto simp: clientMain_def clientStart_def split: option.splits)
        from cl.result_ok [OF r1(1) [unfolded clientLoop_def]] o2 False
        have "sat (connectCrashes S) (\<lambda>c. owned (world c) {#p#}) r1"
          by (cases r1) (auto simp: connectCrashes_def peerCrashes_def)
        then show ?thesis unfolding r1(2)
        proof (rule sat_andThen, goal_cases)
          case (1 c1)
          show ?case by (rule sat_andThen [OF release_sat [OF 1]]) (simp add: owned_None)
        qed
      qed
    qed
  qed
qed

theorem client_memory_safe_witness:
  "\<exists>w2. clientMain replay (startWorld LISTENER [AHandle 9, AHost (Some \<lparr>hLength = 4, hAddr = [CHR 0x7F, NUL, NUL, CHR 0x01]\<rparr>),
      ARet 6, ARet 0, AHandle 30, AHandle 20, ARet 1, AIo (Data ''HELLO''), AIn []]) = Some (Inr (0, Some w2)) \<and>
    (\<forall>p. heap w2 p = None)"
proof -
  let ?w = "startWorld LISTENER [AHandle 9, AHost (Some \<lparr>hLength = 4, hAddr = [CHR 0x7F, NUL, NUL, CHR 0x01]\<rparr>),
      ARet 6, ARet 0, AHandle 30, AHandle 20, ARet 1, AIo (Data ''HELLO''), AIn []]"
  have own: "owned ?w {#}" by (simp add: owned_def ownersOf_def)
  obtain w2 where run: "clientMain replay ?w = Some (Inr (0, Some w2))"
    by (simp add: clientMain_def clientStart_def createClientContext_def call_defs replay_def
      createTcpSslConnectSocketFactory_def tcpSslConnectCreate_def connectSsl_def makeObject_def newSocket_def
      FREE_SOCKET_def makeShared_def clientLoop_def repeatUntil.simps clientRound_def utilsRead_def utilsWrite_def
      deref_def releasePtr_def destroySocket_def startWorld_def logCall_def Let_def cstr_def)
  with client_memory_safe [OF own run] show ?thesis by simp
qed

end
