(* ===== verification/ClientRelay.thy ===== *)
theory ClientRelay
  imports Client ObjectRelation
begin

text \<open>
  What the client of \<^verbatim>\<open>myclnt.cpp\<close> does with what it gets, over any number of rounds: the
  loop relays the user's tokens to the connection and the connection's data to the screen.
\<close>

section \<open>What is typed, heard and printed\<close>

fun enteredOf :: "event \<Rightarrow> string list" where
  "enteredOf (Proc (EvStdin line)) = [line]"
| "enteredOf _ = []"

fun printedOf :: "event \<Rightarrow> string list" where
  "printedOf (Proc (EvStdout out)) = [out]"
| "printedOf _ = []"

fun heardOf :: "handle \<Rightarrow> event \<Rightarrow> string list" where
  "heardOf b (Tls (EvBioRead h n r)) = (if h = b \<and> ioBytes r \<noteq> [] then [ioBytes r] else [])"
| "heardOf b _ = []"

definition entered :: "event list \<Rightarrow> string list" where
  "entered es = concat (map enteredOf es)"

definition printed :: "event list \<Rightarrow> string list" where
  "printed es = concat (map printedOf es)"

definition heard :: "handle \<Rightarrow> event list \<Rightarrow> string list" where
  "heard b es = concat (map (heardOf b) es)"

lemmas relay_defs = entered_def printed_def heard_def

text \<open>What one token becomes on the wire, and one message on the screen.\<close>

definition wired :: "string \<Rightarrow> string" where
  "wired line = (if line = [] then ''EXIT'' else line)"

definition shown :: "string \<Rightarrow> string" where
  "shown bs = cstr bs @ [NL]"

section \<open>The relay\<close>

abbreviation clientReaches :: "'k sys \<Rightarrow> ptr \<Rightarrow> 'k cstate \<Rightarrow> 'k cstate \<Rightarrow> bool" where
  "clientReaches S p \<equiv> loopReaches finished (clientRound S p)"

definition relays :: "handle \<Rightarrow> 'k cstate \<Rightarrow> 'k cstate \<Rightarrow> bool" where
  "relays b c c' \<longleftrightarrow> (\<exists>es. trace (world c') = trace (world c) @ es \<and>
     writesTo b es = map wired (entered es) \<and> printed es = map shown (heard b es) \<and>
     [] \<notin> set (butlast (entered es)) \<and> (finished c' \<longleftrightarrow> [] \<in> set (entered es)))"

lemma clientRound_relays:
  assumes "deref (world c) p = Inr s" "castSslSocket (dynClass s) = Some b" "\<not> finished c"
    and "clientRound S p c = Inr c'"
  shows "relays b c c' \<and> heap (world c') = heap (world c)"
proof -
  obtain r k1 where r: "BIO_read S b 1024 (kern (world c)) = (r, k1)" by (metis surj_pair)
  obtain line k2 where l: "sys_stdin S k1 = (line, k2)" by (metis surj_pair)
  obtain n k3 where w: "BIO_write S b (if line = [] then ''EXIT'' else line) k2 = (n, k3)" by (metis surj_pair)
  from clientRound_known [OF assms(1,2) r l w] assms(3,4) show ?thesis
    by (fastforce simp: relays_def relay_defs wired_def shown_def split: if_splits)
qed

lemma relays_trans:
  assumes "relays b c c1" "relays b c1 c2" "\<not> finished c1"
  shows "relays b c c2"
proof -
  obtain es fs where es: "trace (world c1) = trace (world c) @ es" "writesTo b es = map wired (entered es)"
    "printed es = map shown (heard b es)" "[] \<notin> set (entered es)"
    and fs: "trace (world c2) = trace (world c1) @ fs" "writesTo b fs = map wired (entered fs)"
    "printed fs = map shown (heard b fs)" "[] \<notin> set (butlast (entered fs))" "finished c2 \<longleftrightarrow> [] \<in> set (entered fs)"
    using assms by (auto simp: relays_def)
  have "[] \<notin> set (butlast (entered (es @ fs)))"
    using es(4) fs(4) by (auto simp: relay_defs butlast_append dest: in_set_butlastD)
  with es fs show ?thesis
    unfolding relays_def by (intro exI [of _ "es @ fs"]) (auto simp: relay_defs)
qed

text \<open>
  C19. The client is a relay. However many rounds its loop has made, in any environment: what
  it has written to the connection are the user's tokens, each in one message, in order and
  nothing else, with \<^verbatim>\<open>EXIT\<close> for the empty token at the end of the input; what it has printed are
  the messages it has read, each up to its first NUL and with a newline, in order; and the
  loop is over when, and only when, the empty token has come.
\<close>

theorem client_relays:
  assumes "deref (world c) p = Inr s" "castSslSocket (dynClass s) = Some b" "\<not> finished c"
    and "clientReaches S p c c'"
  shows "\<exists>es. trace (world c') = trace (world c) @ es \<and>
    writesTo b es = map (\<lambda>line. if line = [] then ''EXIT'' else line) (entered es) \<and>
    printed es = map (\<lambda>bs. cstr bs @ [NL]) (heard b es) \<and>
    [] \<notin> set (butlast (entered es)) \<and> (finished c' \<longleftrightarrow> [] \<in> set (entered es))"
proof -
  have "relays b c c' \<and> heap (world c') = heap (world c)"
    using assms(4,1-3)
  proof (induction rule: loopReaches.induct)
    case start
    then show ?case by (auto simp: relays_def relay_defs)
  next
    case (again c1 c2)
    then have c1: "relays b c c1" "heap (world c1) = heap (world c)" by simp_all
    then have "deref (world c1) p = Inr s" using deref_cong [OF c1(2)] again.prems(1) by simp
    from clientRound_relays [OF this assms(2) again.hyps(2,3)] again.hyps(2) c1
    show ?case using relays_trans by fastforce
  qed
  then show ?thesis by (simp add: relays_def wired_def [abs_def] shown_def [abs_def])
qed

theorem client_relays_witness:
  "\<exists>c' es. clientReaches replay 1 \<lparr>world = exampleWorld [(exampleSock 6 SSL)\<lparr>dynClass := SslClientSocket 20 30\<rparr>]
      [AIo (Data ''HELLO''), AIn ''hi'', ARet 2], finished = False\<rparr> c' \<and>
    trace (world c') = es \<and> writesTo 20 es = [''hi''] \<and> printed es = [''HELLO'' @ [NL]] \<and> \<not> finished c'"
proof -
  let ?s = "(exampleSock 6 SSL)\<lparr>dynClass := SslClientSocket 20 30\<rparr>"
  let ?c = "\<lparr>world = exampleWorld [?s] [AIo (Data ''HELLO''), AIn ''hi'', ARet 2], finished = False\<rparr>"
  have d: "deref (world ?c) 1 = Inr ?s" by (simp add: deref_def)
  obtain c' where c': "clientRound replay 1 ?c = Inr c'"
    "trace (world c') = [Tls (EvBioRead 20 1024 (Data ''HELLO'')), Proc (EvStdout (''HELLO'' @ [NL])),
      Proc (EvStdin ''hi''), Tls (EvBioWrite 20 ''hi'' 2)]"
    using clientRound_known [OF d, of 20 replay "Data ''HELLO''" "[AIn ''hi'', ARet 2]" "''hi''" "[ARet 2]" 2 "[]"]
    by (auto simp: replay_def cstr_def)
  then have run: "clientReaches replay 1 ?c c'"
    by (intro loopReaches.again [OF loopReaches.start]) simp_all
  have "castSslSocket (dynClass ?s) = Some 20" "\<not> finished ?c" by simp_all
  from client_relays [OF d this run] run c'(2) show ?thesis
    by (auto simp: relay_defs cstr_def)
qed

end
