(* ===== verification/DispatcherMail.thy ===== *)
theory DispatcherMail
  imports ListenerRounds ListenerSteps
begin

text \<open>
  What a dispatcher hears from the listener (\<^verbatim>\<open>mylsnr.cpp\<close>) over a whole run of its loop: on a
  connection, the configuration comes first, and after it descriptors of clients and nothing
  else.
\<close>

section \<open>Letters\<close>

text \<open>What is written to a descriptor, as text or as a message with ancillary data.\<close>

datatype letter = Text string | Message string "int option"

fun letterOf :: "int \<Rightarrow> event \<Rightarrow> letter list" where
  "letterOf fd (Io (EvWrite d bs n)) = (if d = fd then [Text bs] else [])"
| "letterOf fd (Io (EvSendmsg d bs control n)) = (if d = fd then [Message bs control] else [])"
| "letterOf fd _ = []"

definition lettersTo :: "int \<Rightarrow> event list \<Rightarrow> letter list" where
  "lettersTo fd es = concat (map (letterOf fd) es)"

text \<open>The descriptors \<^verbatim>\<open>accept\<close> has handed out.\<close>

fun acceptOf :: "event \<Rightarrow> int list" where
  "acceptOf (Net (EvAccept l fd)) = (if fd < 0 then [] else [fd])"
| "acceptOf _ = []"

definition accepted :: "event list \<Rightarrow> int list" where
  "accepted es = concat (map acceptOf es)"

lemma letters_simps [simp]:
  "lettersTo fd [] = []" "lettersTo fd (e # es) = letterOf fd e @ lettersTo fd es"
  "lettersTo fd (es @ fs) = lettersTo fd es @ lettersTo fd fs"
  "accepted [] = []" "accepted (e # es) = acceptOf e @ accepted es" "accepted (es @ fs) = accepted es @ accepted fs"
  by (simp_all add: lettersTo_def accepted_def)

lemma mute_letters: "\<forall>e \<in> set es. mute e \<Longrightarrow> lettersTo fd es = []"
proof (induction es)
  case (Cons e es)
  have "mute e \<Longrightarrow> letterOf fd e = []" by (induction e rule: mute.induct) simp_all
  with Cons show ?case by simp
qed simp

lemma destroy_letters: "lettersTo fd (concat (map destroyEvents ss)) = [] \<and> accepted (concat (map destroyEvents ss)) = []"
proof (induction ss)
  case (Cons s ss)
  then show ?case by (cases "dynClass s") (auto simp: destroyEvents_def)
qed simp

text \<open>
  The introduction: the label, and the text unless the label could not be written. After it a
  message offers the descriptor of a client that has been accepted.
\<close>

definition introduces :: "ApplicationConfig \<Rightarrow> letter list \<Rightarrow> bool" where
  "introduces cfg ms \<longleftrightarrow> ms = [Text ''CONFIG''] \<or> (\<exists>pid. ms = [Text ''CONFIG'', Text (formatConfig pid cfg)])"

definition offers :: "event list \<Rightarrow> letter \<Rightarrow> bool" where
  "offers es m \<longleftrightarrow> (\<exists>f \<in> set (accepted es). m = Message [NUL, NUL] (Some f))"

lemma offers_append: "offers es m \<Longrightarrow> offers (es @ fs) m" "offers fs m \<Longrightarrow> offers (es @ fs) m"
  by (auto simp: offers_def)

section \<open>The relation\<close>

definition uses :: "'k world \<Rightarrow> ptr \<Rightarrow> int \<Rightarrow> bool" where
  "uses w q fd \<longleftrightarrow> (\<exists>s. deref w q = Inr s \<and> descriptor s = fd)"

definition unused :: "'k world \<Rightarrow> int \<Rightarrow> bool" where
  "unused w fd \<longleftrightarrow> (\<forall>q. \<not> uses w q fd)"

definition told :: "ApplicationConfig \<Rightarrow> int \<Rightarrow> 'k world \<Rightarrow> event list \<Rightarrow> 'k world \<Rightarrow> bool" where
  "told cfg fd w es w' \<longleftrightarrow>
     (count_list (accepted es) fd = 0 \<longrightarrow>
        (\<forall>m \<in> set (lettersTo fd es). offers es m) \<and> (unused w fd \<longrightarrow> lettersTo fd es = [] \<and> unused w' fd)) \<and>
     (count_list (accepted es) fd = 1 \<and> unused w fd \<longrightarrow> lettersTo fd es = [] \<and> unused w' fd \<or>
        (\<exists>ms ns. lettersTo fd es = ms @ ns \<and> introduces cfg ms \<and> (\<forall>m \<in> set ns. offers es m)))"

definition tells :: "'k world \<Rightarrow> 'k world \<Rightarrow> bool" where
  "tells w w' \<longleftrightarrow> keeps w w' \<and>
     (typed w \<longrightarrow> (\<exists>es. trace w' = trace w @ es \<and> (\<forall>fd. told (appCfg w) fd w es w')))"

lemma told_trans:
  assumes "told cfg fd w es w1" "told cfg fd w1 fs w2"
  shows "told cfg fd w (es @ fs) w2"
proof -
  have zero: "(\<forall>m \<in> set (lettersTo fd (es @ fs)). offers (es @ fs) m) \<and>
      (unused w fd \<longrightarrow> lettersTo fd (es @ fs) = [] \<and> unused w2 fd)"
    if "count_list (accepted es) fd = 0" "count_list (accepted fs) fd = 0"
    using assms that unfolding told_def by (auto intro: offers_append)
  have one: "lettersTo fd (es @ fs) = [] \<and> unused w2 fd \<or>
      (\<exists>ms ns. lettersTo fd (es @ fs) = ms @ ns \<and> introduces cfg ms \<and> (\<forall>m \<in> set ns. offers (es @ fs) m))"
    if "count_list (accepted (es @ fs)) fd = 1" "unused w fd"
  proof (cases "count_list (accepted es) fd = 0")
    case True
    with assms(1) that(2) have "lettersTo fd es = []" "unused w1 fd" by (simp_all add: told_def)
    with assms(2) that(1) True show ?thesis unfolding told_def by (auto intro: offers_append)
  next
    case False
    with that(1) have c: "count_list (accepted es) fd = 1" "count_list (accepted fs) fd = 0" by simp_all
    with assms(1) that(2) have "lettersTo fd es = [] \<and> unused w1 fd \<or>
      (\<exists>ms ns. lettersTo fd es = ms @ ns \<and> introduces cfg ms \<and> (\<forall>m \<in> set ns. offers es m))" by (simp add: told_def)
    then show ?thesis
    proof (elim disjE exE conjE)
      fix ms ns assume m: "lettersTo fd es = ms @ ns" "introduces cfg ms" "\<forall>m \<in> set ns. offers es m"
      have "\<forall>m \<in> set (lettersTo fd fs). offers fs m" using assms(2) c(2) by (simp add: told_def)
      with m have "lettersTo fd (es @ fs) = ms @ (ns @ lettersTo fd fs)"
        "\<forall>m \<in> set (ns @ lettersTo fd fs). offers (es @ fs) m" by (auto intro: offers_append)
      with m(2) show ?thesis by blast
    qed (use assms(2) c(2) in \<open>simp add: told_def\<close>)
  qed
  show ?thesis unfolding told_def using zero one by simp
qed

lemma tells_trans:
  assumes "tells w w1" "tells w1 w2"
  shows "tells w w2"
proof -
  have k: "keeps w w2" "typed w \<Longrightarrow> typed w1" "appCfg w1 = appCfg w"
    using assms keeps_trans by (auto simp: tells_def keeps_def)
  have "\<exists>es. trace w2 = trace w @ es \<and> (\<forall>fd. told (appCfg w) fd w es w2)" if t: "typed w"
  proof -
    obtain es where es: "trace w1 = trace w @ es" "\<forall>fd. told (appCfg w) fd w es w1"
      using assms(1) t by (auto simp: tells_def)
    obtain fs where fs: "trace w2 = trace w1 @ fs" "\<forall>fd. told (appCfg w) fd w1 fs w2"
      using assms(2) t k(2,3) unfolding tells_def by metis
    have "trace w2 = trace w @ es @ fs" "\<forall>fd. told (appCfg w) fd w (es @ fs) w2"
      using es fs told_trans by (simp, blast)
    then show ?thesis by blast
  qed
  with k(1) show ?thesis by (simp add: tells_def)
qed

section \<open>Operations that send nothing\<close>

lemma tells_shrink:
  assumes "keeps w w'" "trace w' = trace w @ es" "\<And>fd. lettersTo fd es = []"
    and "\<And>q fd. uses w' q fd \<Longrightarrow> uses w q fd"
  shows "tells w w'"
proof -
  have "unused w fd \<Longrightarrow> unused w' fd" for fd using assms(4) by (auto simp: unused_def)
  with assms(3) have "told (appCfg w) fd w es w'" for fd by (simp add: told_def)
  with assms(1,2) show ?thesis unfolding tells_def by blast
qed

lemma uses_cong: "(\<And>q. deref w' q = deref w q) \<Longrightarrow> uses w' = uses w"
  by (simp add: uses_def fun_eq_iff)

lemma tells_same: "keeps w w' \<Longrightarrow> trace w' = trace w \<Longrightarrow> uses w' = uses w \<Longrightarrow> tells w w'"
  using tells_shrink [of w w' "[]"] by simp

lemma tells_silent: "silent w w' \<Longrightarrow> tells w w'"
proof -
  assume s: "silent w w'"
  then obtain es where es: "trace w' = trace w @ es" "\<forall>e \<in> set es. mute e" by (auto simp: silent_def)
  have "keeps w w'" using s by (intro keeps_heap) (simp_all add: silent_intro)
  moreover have "uses w' = uses w" by (rule uses_cong, rule deref_cong) (use s in \<open>simp add: silent_intro\<close>)
  ultimately show "tells w w'" using tells_shrink [OF _ es(1) mute_letters [OF es(2)]] by simp
qed

lemma tells_mark:
  assumes "modifyObj f p w = Inr w'" "deref w p = Inr s" "marks s (f s)"
  shows "tells w w'"
proof (rule tells_same)
  obtain e r where fs: "f s = s\<lparr>events := e, revents := r\<rparr>" using assms(3) by (auto simp: marks_def)
  then show "keeps w w'"
    using assms(1,2) by (auto simp: modifyObj_def keeps_def typed_def okClass_def deref_def split: if_splits option.splits)
  show "uses w' = uses w" using deref_modify [OF assms(1,2)] assms(2) fs by (auto simp: uses_def fun_eq_iff)
  show "trace w' = trace w" using assms(1) by (auto simp: modifyObj_def split: if_splits option.splits)
qed

lemma share_same:
  assumes s: "sharePtr p w = Inr w'"
  shows "trace w' = trace w \<and> uses w' = uses w"
proof
  from s show "trace w' = trace w" by (auto simp: sharePtr_def split: if_splits option.splits)
  show "uses w' = uses w" by (rule uses_cong [OF deref_share [OF s]])
qed

lemma tells_share: "sharePtr p w = Inr w' \<Longrightarrow> tells w w'"
  using share_same by (blast intro: tells_same keeps_share)

lemma release_uses: "releasePtr S p w = Inr w' \<Longrightarrow> uses w' q fd \<Longrightarrow> uses w q fd"
  using release_keeps_obj by (fastforce simp: uses_def)

lemma tells_release:
  assumes "releasePtr S p w = Inr w'"
  shows "tells w w'"
proof -
  obtain ss where "trace w' = trace w @ concat (map destroyEvents ss)" using release_destroys [OF assms] by blast
  then show ?thesis
  proof (rule tells_shrink [OF keeps_release [OF assms]])
    show "lettersTo fd (concat (map destroyEvents ss)) = []" for fd by (rule conjunct1 [OF destroy_letters])
    show "uses w q fd" if "uses w' q fd" for q fd by (rule release_uses [OF assms that])
  qed
qed

section \<open>A connection is accepted\<close>

text \<open>A new object on the accepted descriptor; it is a UNIX socket only if a listening UNIX socket accepted it.\<close>

definition newcomer :: "ptr \<Rightarrow> event list \<Rightarrow> sock \<Rightarrow> 'k world \<Rightarrow> 'k world \<Rightarrow> bool" where
  "newcomer c es x w w1 \<longleftrightarrow> accepted es = [descriptor x] \<and> 0 \<le> descriptor x \<and> okClass x \<and>
     heap w1 = (heap w)(c \<mapsto> \<lparr>obj = x, useCount = 1\<rparr>)"

lemma makeSocket_newcomer:
  assumes "makeSocket PlainSocket fd t False v = Inr (c, w1)" "heap v = heap w" "accepted es = [fd]" "0 \<le> fd"
  shows "\<exists>x. newcomer c es x w w1 \<and> socketType x = t \<and> trace w1 = trace v \<and> appCfg w1 = appCfg v"
proof -
  obtain x where "heap w1 = (heap v)(c \<mapsto> \<lparr>obj = x, useCount = 1\<rparr>)" "trace w1 = trace v" "appCfg w1 = appCfg v"
    "dynClass x = PlainSocket" "descriptor x = fd" "socketType x = t" "\<not> listenSocket x"
    using assms(1) by (auto simp: makeObject_def makeShared_def outcome_simps)
  with assms(2-) show ?thesis by (intro exI [of _ x]) (auto simp: newcomer_def okClass_def)
qed

lemma acceptConnection_news:
  assumes "acceptConnection S p w = Inr (c, w1)" "deref w p = Inr s"
  shows "\<exists>es. trace w1 = trace w @ es \<and> (\<forall>fd. lettersTo fd es = []) \<and> appCfg w1 = appCfg w \<and>
    (c = nullptr \<and> heap w1 = heap w \<or>
     (\<exists>x. newcomer c es x w w1 \<and> (socketType x = UNIX \<longrightarrow> dynClass s \<in> range UnixListenerSocket)))"
proof -
  have plain: ?thesis if run: "acceptPlain S s t w = Inr (c, w1)" and "t = UNIX \<longrightarrow> dynClass s \<in> range UnixListenerSocket" for t
  proof -
    obtain fd v where v: "k_accept S (descriptor s) w = (fd, v)" by (metis surj_pair)
    then have "trace v = trace w @ [Net (EvAccept (descriptor s) fd)]" "heap v = heap w" "appCfg v = appCfg w"
      by (auto simp: k_accept_def split: prod.splits)
    with run v makeSocket_newcomer [of fd t v c w1 w "[Net (EvAccept (descriptor s) fd)]"] that(2) show ?thesis
      by (intro exI [of _ "[Net (EvAccept (descriptor s) fd)]"]) (auto simp: acceptPlain_def split: if_splits)
  qed
  have ssl: ?thesis if run: "acceptSsl S s ctx w = Inr (c, w1)" for ctx
  proof -
    obtain fd v b v2 ssl v3 n v4 where v: "k_accept S (descriptor s) w = (fd, v)"
      "k_BIO_new_socket S fd BIO_NOCLOSE v = (b, v2)" "k_SSL_new S ctx v2 = (ssl, v3)"
      "k_SSL_accept S ssl (k_SSL_set_bio S ssl b v3) = (n, v4)" by (metis surj_pair)
    let ?es = "[Net (EvAccept (descriptor s) fd)] @ [Tls (EvBioNew fd BIO_NOCLOSE b), Tls (EvSslNew ctx ssl),
      Tls (EvSslSetBio ssl b), Tls (EvSslAccept ssl n)]"
    have "trace v = trace w @ [Net (EvAccept (descriptor s) fd)]" "heap v = heap w" "appCfg v = appCfg w"
      "trace v4 = trace w @ ?es" "heap v4 = heap w" "appCfg v4 = appCfg w"
      using v by (auto simp: call_defs split: prod.splits)
    with run v makeSocket_newcomer [of fd SSL v4 c w1 w ?es] show ?thesis
      by (cases "fd < 0"; cases "n \<le> 0") (auto simp: acceptSsl_def outcome_simps split: if_splits)
  qed
  show ?thesis
    using assms plain [of UNIX] plain [of TCP] ssl
    by (cases "dynClass s") (auto simp: acceptConnection_def)
qed

text \<open>The two outcomes of accepting, as the handlers see them.\<close>

lemma acceptConnection_outcomes:
  assumes acc: "acceptConnection S p w = Inr (c, w1)" and s: "deref w p = Inr s"
  shows "c = nullptr \<and> tells w w1 \<or> c \<noteq> nullptr \<and> (\<exists>es x. trace w1 = trace w @ es \<and>
    (\<forall>fd. lettersTo fd es = []) \<and> keeps w w1 \<and> newcomer c es x w w1 \<and>
    (socketType x = UNIX \<longrightarrow> dynClass s \<in> range UnixListenerSocket))"
proof -
  obtain es where es: "trace w1 = trace w @ es" "\<And>fd. lettersTo fd es = []"
    and new: "c = nullptr \<and> heap w1 = heap w \<or>
      (\<exists>x. newcomer c es x w w1 \<and> (socketType x = UNIX \<longrightarrow> dynClass s \<in> range UnixListenerSocket))"
    using acceptConnection_news [OF acc s] by blast
  have k: "keeps w w1" by (rule keeps_accept [OF acc])
  show ?thesis
  proof (cases "c = nullptr")
    case True
    with new have "deref w1 q = deref w q" for q by (auto simp: newcomer_def deref_def)
    then have "uses w1 = uses w" by (rule uses_cong)
    with True tells_shrink [OF k es] show ?thesis by simp
  next
    case False
    with new es k show ?thesis by blast
  qed
qed

lemma newcomer_deref:
  "newcomer c es x w w1 \<Longrightarrow> c \<noteq> nullptr \<Longrightarrow> deref w1 q = (if q = c then Inr x else deref w q)"
  by (auto simp: newcomer_def deref_def)

lemma newcomer_keeps: "newcomer c es x w w1 \<Longrightarrow> appCfg w1 = appCfg w \<Longrightarrow> keeps w w1"
  by (auto simp: newcomer_def keeps_def typed_def)

text \<open>The offer to the dispatchers.\<close>

lemma sendSocket_letters:
  assumes "sendSocket S q c v = Inr (b, v')" "deref v q = Inr s" "deref v c = Inr x" "0 \<le> descriptor x"
  shows "\<exists>es. trace v' = trace v @ es \<and> accepted es = [] \<and> heap v' = heap v \<and> appCfg v' = appCfg v \<and>
    (\<forall>fd. \<forall>m \<in> set (lettersTo fd es). m = Message [NUL, NUL] (Some (descriptor x)) \<and> fd = descriptor s)"
  using assms
  by (auto simp: sendSocket_def Let_def fdMessage_def call_defs outcome_simps split: prod.splits if_splits)

lemma sendToDispatchers_letters:
  assumes "sendToDispatchers S c ps v = Inr v'" "deref v c = Inr x" "0 \<le> descriptor x"
  shows "\<exists>es. trace v' = trace v @ es \<and> accepted es = [] \<and> heap v' = heap v \<and> appCfg v' = appCfg v \<and>
    (\<forall>fd. \<forall>m \<in> set (lettersTo fd es). m = Message [NUL, NUL] (Some (descriptor x)) \<and>
      (\<exists>q s. deref v q = Inr s \<and> descriptor s = fd \<and> socketType s = UNIX))"
  using assms
proof (induction ps arbitrary: v)
  case Nil
  then show ?case by (intro exI [of _ "[]"]) simp
next
  case (Cons q ps)
  obtain s v1 where s: "deref v q = Inr s" "sendToDispatchers S c ps v1 = Inr v'"
    and one: "if socketType s = UNIX \<and> \<not> listenSocket s then \<exists>b. sendSocket S q c v = Inr (b, v1) else v1 = v"
  proof -
    from Cons.prems(1) obtain s where s: "deref v q = Inr s" by (auto simp: outcome_simps)
    with Cons.prems(1) that [OF s] show thesis
      by (cases "socketType s = UNIX \<and> \<not> listenSocket s") (auto simp: outcome_simps)
  qed
  obtain es where es: "trace v1 = trace v @ es" "accepted es = []" "heap v1 = heap v" "appCfg v1 = appCfg v"
    "\<forall>fd. \<forall>m \<in> set (lettersTo fd es). m = Message [NUL, NUL] (Some (descriptor x)) \<and>
      fd = descriptor s \<and> socketType s = UNIX"
  proof (cases "socketType s = UNIX \<and> \<not> listenSocket s")
    case True
    with one obtain b where b: "sendSocket S q c v = Inr (b, v1)" by auto
    from sendSocket_letters [OF b s(1) Cons.prems(2,3)] obtain es where "trace v1 = trace v @ es" "accepted es = []"
      "heap v1 = heap v" "appCfg v1 = appCfg v"
      "\<forall>fd. \<forall>m \<in> set (lettersTo fd es). m = Message [NUL, NUL] (Some (descriptor x)) \<and> fd = descriptor s" by blast
    with True show ?thesis by (intro that [of es]) auto
  qed (use one that [of "[]"] in simp)
  have d: "deref v1 r = deref v r" for r by (rule deref_cong [OF es(3)])
  obtain fs where fs: "trace v' = trace v1 @ fs" "accepted fs = []" "heap v' = heap v1" "appCfg v' = appCfg v1"
    "\<forall>fd. \<forall>m \<in> set (lettersTo fd fs). m = Message [NUL, NUL] (Some (descriptor x)) \<and>
      (\<exists>q s. deref v1 q = Inr s \<and> descriptor s = fd \<and> socketType s = UNIX)"
    using Cons.IH [OF s(2)] Cons.prems(2,3) d by auto
  have "m = Message [NUL, NUL] (Some (descriptor x)) \<and> (\<exists>q s. deref v q = Inr s \<and> descriptor s = fd \<and> socketType s = UNIX)"
    if "m \<in> set (lettersTo fd (es @ fs))" for fd m
  proof (cases "m \<in> set (lettersTo fd es)")
    case True
    have "m = Message [NUL, NUL] (Some (descriptor x)) \<and> fd = descriptor s \<and> socketType s = UNIX"
      by (rule bspec [OF spec [OF es(5)] True])
    with s(1) show ?thesis by (intro conjI exI [of _ q] exI [of _ s]) simp_all
  next
    case False
    with that have "m \<in> set (lettersTo fd fs)" by simp
    from bspec [OF spec [OF fs(5)] this] show ?thesis unfolding d .
  qed
  moreover have "trace v' = trace v @ es @ fs" "accepted (es @ fs) = []" "heap v' = heap v" "appCfg v' = appCfg v"
    using es(1-4) fs(1-4) by simp_all
  ultimately show ?case by blast
qed

section \<open>The two connections\<close>

lemma told_offers:
  assumes "accepted es = [g]" "\<forall>fd. \<forall>m \<in> set (lettersTo fd es). m = Message [NUL, NUL] (Some g) \<and> \<not> unused w fd"
    and "\<And>q fd. uses w' q fd \<Longrightarrow> uses w q fd"
  shows "told cfg fd w es w'"
proof -
  have u: "unused w fd \<Longrightarrow> unused w' fd" using assms(3) by (auto simp: unused_def)
  have n: "unused w fd \<Longrightarrow> lettersTo fd es = []" using assms(2) by (metis list.set_intros(1) neq_Nil_conv)
  have o1: "\<forall>m \<in> set (lettersTo fd es). offers es m" using assms(1,2) by (auto simp: offers_def)
  show ?thesis unfolding told_def using u n o1 by blast
qed

lemma tells_client:
  assumes run: "processClientConnection S p l w = Inr (b, w')" and s: "deref w p = Inr s" "socketType s = TCP"
  shows "tells w w'"
proof -
  obtain c w1 where acc: "acceptConnection S p w = Inr (c, w1)"
    and rest: "c = nullptr \<and> w' = w1 \<or>
      c \<noteq> nullptr \<and> (\<exists>w2. sendToDispatchers S c (sockets l) w1 = Inr w2 \<and> releasePtr S c w2 = Inr w')"
    using run by (auto simp: processClientConnection_def outcome_simps split: if_splits)
  show ?thesis
  proof (cases "c = nullptr")
    case True
    with rest acceptConnection_outcomes [OF acc s(1)] show ?thesis by simp
  next
    case False
    with acceptConnection_outcomes [OF acc s(1)] obtain es x where es: "trace w1 = trace w @ es"
      "\<And>fd. lettersTo fd es = []" and k1: "keeps w w1"
      and x: "newcomer c es x w w1" "socketType x = UNIX \<longrightarrow> dynClass s \<in> range UnixListenerSocket" by blast
    from False rest obtain w2 where w2: "sendToDispatchers S c (sockets l) w1 = Inr w2" "releasePtr S c w2 = Inr w'" by blast
    have d1: "deref w1 q = (if q = c then Inr x else deref w q)" for q by (rule newcomer_deref [OF x(1) False])
    obtain fs where fs: "trace w2 = trace w1 @ fs" "accepted fs = []" "heap w2 = heap w1" "appCfg w2 = appCfg w1"
      "\<forall>fd. \<forall>m \<in> set (lettersTo fd fs). m = Message [NUL, NUL] (Some (descriptor x)) \<and>
        (\<exists>q y. deref w1 q = Inr y \<and> descriptor y = fd \<and> socketType y = UNIX)"
      using sendToDispatchers_letters [OF w2(1)] d1 x(1) by (auto simp: newcomer_def)
    obtain ss where ss: "trace w' = trace w2 @ concat (map destroyEvents ss)" using release_destroys [OF w2(2)] by blast
    let ?es = "es @ fs @ concat (map destroyEvents ss)"
    have tr: "trace w' = trace w @ ?es" using es fs ss by simp
    have ac: "accepted ?es = [descriptor x]" using x(1) fs(2) destroy_letters by (simp add: newcomer_def)
    have le: "lettersTo fd ?es = lettersTo fd fs" for fd using es(2) destroy_letters by simp
    have former: "uses w q fd" if u: "uses w' q fd" for q fd
    proof -
      have "heap w' c = None" using w2(2) fs(3) x(1) False
        by (auto simp: releasePtr_def newcomer_def sameProcD [OF destroySocket_frame] split: if_splits)
      with u have "q \<noteq> c" using False by (auto simp: uses_def deref_def)
      moreover have "uses w1 q fd" using release_uses [OF w2(2) u] uses_cong [OF deref_cong [OF fs(3)]] by simp
      ultimately show ?thesis using d1 by (simp add: uses_def)
    qed
    have "keeps w w'" using k1 keeps_heap [OF fs(3,4)] keeps_release [OF w2(2)] keeps_trans by blast
    moreover have "told (appCfg w) fd w ?es w'" if t: "typed w" for fd
    proof (rule told_offers [OF ac _ former], intro allI ballI)
      fix fd m assume m: "m \<in> set (lettersTo fd ?es)"
      have "m \<in> set (lettersTo fd fs)" using m unfolding le .
      from bspec [OF spec [OF fs(5)] this] have m': "m = Message [NUL, NUL] (Some (descriptor x))"
        "\<exists>q y. deref w1 q = Inr y \<and> descriptor y = fd \<and> socketType y = UNIX" by blast+
      have "okClass s" using t s(1) by (auto simp: typed_def deref_def split: if_splits option.splits)
      then have "socketType x \<noteq> UNIX" using x(2) s(2) by (auto simp: okClass_def)
      with m'(2) d1 obtain q where q: "uses w q fd" by (auto simp: uses_def split: if_splits)
      with m'(1) show "m = Message [NUL, NUL] (Some (descriptor x)) \<and> \<not> unused w fd"
        by (auto simp: unused_def)
    qed
    ultimately show ?thesis using tr unfolding tells_def by blast
  qed
qed

lemma put_same: "putSocket p l w = Inr (b, l', w') \<Longrightarrow> trace w' = trace w \<and> uses w' = uses w"
  by (auto simp: putSocket_def outcome_simps split: if_splits dest: share_same)

lemma sendConfig_letters:
  assumes "sendConfig S fd w = Inr (b, w')"
  shows "\<exists>es. trace w' = trace w @ es \<and> accepted es = [] \<and> heap w' = heap w \<and> appCfg w' = appCfg w \<and>
    (\<forall>d. if d = fd then introduces (appCfg w) (lettersTo d es) else lettersTo d es = [])"
  using assms
  by (auto simp: sendConfig_def Let_def guarded_def k_write_def introduces_def split: prod.splits if_splits)

lemma told_introduction:
  assumes "accepted es = [g]" "\<forall>fd. if fd = g then introduces cfg (lettersTo fd es) else lettersTo fd es = []"
    and "\<And>q fd. uses w' q fd \<Longrightarrow> uses w q fd \<or> fd = g"
  shows "told cfg fd w es w'"
proof (cases "fd = g")
  case True
  then have "introduces cfg (lettersTo fd es)" using assms(2) by simp
  then have "\<exists>ms ns. lettersTo fd es = ms @ ns \<and> introduces cfg ms \<and> (\<forall>m \<in> set ns. offers es m)"
    by (intro exI [of _ "lettersTo fd es"] exI [of _ "[]"]) simp
  with True assms(1) show ?thesis by (simp add: told_def)
next
  case False
  with assms have "lettersTo fd es = []" "unused w fd \<Longrightarrow> unused w' fd" by (auto simp: unused_def)
  with False assms(1) show ?thesis by (simp add: told_def)
qed

lemma tells_dispatcher:
  assumes run: "processDispatcherConnection S p l w = Inr (b, l', w')"
  shows "tells w w'"
proof -
  obtain c w1 where acc1: "acceptConnection S p w = Inr (c, w1)"
    using run by (auto simp: processDispatcherConnection_def outcome_simps)
  then have rest: "c = nullptr \<and> w' = w1 \<or> c \<noteq> nullptr \<and> (\<exists>st w2 x g w3. putSocket c l w1 = Inr (st, l', w2) \<and>
      deref w2 c = Inr x \<and> sendConfig S (descriptor x) w2 = Inr (g, w3) \<and> releasePtr S c w3 = Inr w')"
    using run by (auto simp: processDispatcherConnection_def outcome_simps split: if_splits)
  obtain s where acc: "acceptConnection S p w = Inr (c, w1)" "deref w p = Inr s"
    using acc1 by (auto simp: acceptConnection_def outcome_simps)
  show ?thesis
  proof (cases "c = nullptr")
    case True
    with rest acceptConnection_outcomes [OF acc] show ?thesis by simp
  next
    case False
    with acceptConnection_outcomes [OF acc] obtain es x where es: "trace w1 = trace w @ es"
      "\<And>fd. lettersTo fd es = []" and k1: "keeps w w1" and x: "newcomer c es x w w1" by blast
    have d1: "deref w1 q = (if q = c then Inr x else deref w q)" for q by (rule newcomer_deref [OF x False])
    from False rest obtain st w2 y g w3 where s: "putSocket c l w1 = Inr (st, l', w2)" "deref w2 c = Inr y"
      "sendConfig S (descriptor y) w2 = Inr (g, w3)" "releasePtr S c w3 = Inr w'" by blast
    have y: "uses w2 = uses w1" "trace w2 = trace w1" using put_same [OF s(1)] by simp_all
    have g: "descriptor y = descriptor x"
      using s(2) d1 fun_cong [OF fun_cong [OF y(1)], of c "descriptor y"] by (auto simp: uses_def)
    have k2: "keeps w1 w2" by (rule keeps_put [OF s(1)])
    obtain fs where fs: "trace w3 = trace w2 @ fs" "accepted fs = []" "heap w3 = heap w2" "appCfg w3 = appCfg w2"
      "\<forall>d. if d = descriptor y then introduces (appCfg w2) (lettersTo d fs) else lettersTo d fs = []"
      using sendConfig_letters [OF s(3)] by blast
    obtain ss where ss: "trace w' = trace w3 @ concat (map destroyEvents ss)" using release_destroys [OF s(4)] by blast
    let ?es = "es @ fs @ concat (map destroyEvents ss)"
    have tr: "trace w' = trace w @ ?es" using es fs y ss by simp
    have ac: "accepted ?es = [descriptor x]" using x fs(2) destroy_letters by (simp add: newcomer_def)
    have le: "lettersTo fd ?es = lettersTo fd fs" for fd using es(2) destroy_letters by simp
    have cfg: "appCfg w2 = appCfg w" using k1 k2 by (simp add: keeps_def)
    have "uses w q fd \<or> fd = descriptor x" if "uses w' q fd" for q fd
      using release_uses [OF s(4) that] uses_cong [OF deref_cong [OF fs(3)]] y(1) d1
      by (auto simp: uses_def split: if_splits)
    moreover have "\<forall>fd. if fd = descriptor x then introduces (appCfg w) (lettersTo fd ?es) else lettersTo fd ?es = []"
      using fs(5) unfolding le g cfg .
    ultimately have "told (appCfg w) fd w ?es w'" for fd
      using told_introduction [OF ac] by blast
    moreover have "keeps w w'"
      using k1 k2 keeps_heap [OF fs(3,4)] keeps_release [OF s(4)] keeps_trans by blast
    ultimately show ?thesis using tr unfolding tells_def by blast
  qed
qed

section \<open>A whole run\<close>

interpretation mail: service_relation tells S for S :: "'k sys"
  by unfold_locales
    (blast intro: tells_trans tells_silent tells_mark tells_share tells_release tells_client tells_dispatcher)+

text \<open>
  C7. What a dispatcher hears from the listener. Over any run of the listener's loop, whatever the
  kernel, OpenSSL, the clients and the other dispatchers do, a descriptor that no socket of the
  listener uses at the start and that \<^verbatim>\<open>accept\<close> hands out at most once during the run is sent
  nothing, or first the configuration of this listener (the label, and the text unless the label
  could not be written) and after that only messages that carry the descriptor of a client
  accepted in this run. Without having been accepted it is sent nothing at all.
\<close>

theorem dispatchers_hear_protocol:
  assumes "listenerInv cfg t u s" "listenerReaches S s s1" "trace (world s1) = trace (world s) @ es"
    and "\<And>p x. deref (world s) p = Inr x \<Longrightarrow> descriptor x \<noteq> fd" "count_list (accepted es) fd \<le> 1"
  shows "lettersTo fd es = [] \<or>
    fd \<in> set (accepted es) \<and> (\<exists>ms ns. lettersTo fd es = ms @ ns \<and> introduces cfg ms \<and> (\<forall>m \<in> set ns. offers es m))"
proof -
  have inv: "typed (world s)" "appCfg (world s) = cfg" using assms(1) by (auto simp: listenerInv_def good_def)
  have "tells (world s) (world s1)" by (rule mail.run [OF assms(2)])
  with inv assms(3) have t: "told cfg fd (world s) es (world s1)" by (auto simp: tells_def)
  have u: "unused (world s) fd" using assms(4) by (auto simp: unused_def uses_def)
  show ?thesis
  proof (cases "count_list (accepted es) fd = 0")
    case True
    with t u show ?thesis by (simp add: told_def)
  next
    case False
    with assms(5) have "count_list (accepted es) fd = 1" by linarith
    moreover from False have "fd \<in> set (accepted es)" by (simp add: count_list_0_iff)
    ultimately show ?thesis using t u unfolding told_def by blast
  qed
qed

definition introducingSys :: "script sys" where
  "introducingSys = connectingSys\<lparr>
     sys_poll := (\<lambda>fds k. (\<lparr>pollRet = 1, pollErrno = 0, pollRevents = (\<lambda>j. if j = 1 then POLLIN else 0)\<rparr>, k)),
     sys_accept := (\<lambda>l k. (8, k)), sys_write := (\<lambda>fd bs k. (int (length bs), k))\<rparr>"

lemma example_text: "length (formatConfig 4711 (createConfig DISPATCHER)) < CONFIG_BUFFER_SIZE"
  by (simp add: CONFIG_BUFFER_SIZE_def formatConfig_def createConfig_def cstr_def showInt_def showNat.simps)

lemma example_round:
  "\<exists>s1. listenerRound introducingSys exampleListener = Inr s1 \<and> (\<exists>es. trace (world s1) = trace (world exampleListener) @ es \<and>
    accepted es = [8] \<and> lettersTo 8 es \<noteq> [])"
  by (simp add: listenerRound_def exampleListener_def clearSockets_def modifyObj_def
      pollSockets_def deref_def introducingSys_def connectingSys_def call_defs replay_def exampleTls_def exampleUnix_def exampleSock_def sock_defs
      putSocket_def sharePtr_def handlePolled_def isDropped_def poll_bits MAX_SOCKETS_TO_POLL_def
      processDispatcherConnection_def acceptConnection_def acceptPlain_def makeObject_def newSocket_def FREE_SOCKET_def makeShared_def
      exampleWorld_def sendConfig_def example_text Let_def
      startWorld_def logCall_def releasePtr_def deliverSignals_def sig_INT_def)

theorem dispatchers_hear_protocol_witness:
  "\<exists>s1 es. listenerReaches introducingSys exampleListener s1 \<and>
    trace (world s1) = trace (world exampleListener) @ es \<and> accepted es = [8] \<and>
    (\<exists>ms ns. lettersTo 8 es = ms @ ns \<and> introduces (appCfg (world exampleListener)) ms \<and> (\<forall>m \<in> set ns. offers es m))"
proof -
  obtain s1 es where s1: "listenerRound introducingSys exampleListener = Inr s1"
    "trace (world s1) = trace (world exampleListener) @ es" "accepted es = [8]" "lettersTo 8 es \<noteq> []"
    using example_round by blast
  have "\<not> listenerStops exampleListener" by (simp add: listenerStops_def exampleListener_def)
  then have run: "listenerReaches introducingSys exampleListener s1"
    by (intro loopReaches.again [OF loopReaches.start]) (simp_all add: s1(1))
  have unused: "deref (world exampleListener) p = Inr x \<Longrightarrow> descriptor x \<noteq> 8" for p x
    by (auto simp: deref_def exampleListener_def exampleTls_def exampleUnix_def exampleSock_def split: if_splits)
  from dispatchers_hear_protocol [OF exampleListener_inv run s1(2) unused] s1 run show ?thesis by auto
qed

end
