(* ===== verification/Spec2Isabelle.thy ===== *)
theory Spec2Isabelle
  imports DispatcherRounds Conversation DescriptorLedger ListenerRounds ProcessSystem ClientRelay DispatcherMail
begin

text \<open>
  A verification development for the socket dispatcher, a C++ server of two processes and a
  client.

  \<^bold>\<open>The program.\<close> The listener (\<^verbatim>\<open>mylsnr.cpp\<close>) accepts TLS clients on port 5555 and starts the
  dispatcher (\<^verbatim>\<open>mydisp.cpp\<close>), which connects back over a UNIX socket. The listener writes the
  dispatcher its configuration and passes it the descriptor of every accepted client as
  ancillary data of a two-byte message; the dispatcher wraps the descriptor in a TLS socket
  and talks to the client. On SIGINT the listener writes \<^verbatim>\<open>EXIT\<close> to its dispatchers. The client
  (\<^verbatim>\<open>myclnt.cpp\<close>) connects, prints what it reads and sends what is typed. Sockets are
  reference-counted objects (\<^verbatim>\<open>Socket.h\<close>, \<^verbatim>\<open>SslSocket.h\<close>), kept in bounded lists
  (\<^verbatim>\<open>SocketsList.h\<close>), polled (\<^verbatim>\<open>SocketsPoller.cpp\<close>) and made by factories (\<^verbatim>\<open>SocketFactory.h\<close>).

  \<^bold>\<open>How it is modelled.\<close> A process is a record \<open>world\<close> (theory \<open>Kernel\<close>): the state of the
  kernel and of OpenSSL as far as calls depend on it, the trace of the calls made, the heap
  of socket objects with their owner counts, and the globals and static locals of the
  sources. The system calls and OpenSSL are not part of the repository: they are the fields of a
  record \<open>sys\<close>, an argument of every definition, about which nothing is assumed unless a
  theorem says so. A piece of code that can abort has an \<open>outcome\<close>: a result, or the \<open>crash\<close>
  it ends in: a failed assertion, a null or dangling pointer, a write past an array, a read
  past an array, a receive loop that never returns, \<^verbatim>\<open>execl\<close>, a null SSL object that is
  dereferenced (the result of \<^verbatim>\<open>SSL_new\<close> is tested nowhere), a BIO freed twice, and SIGPIPE at
  its default action. A signal of that kind is asked of the state of the kernel after every
  write and \<^verbatim>\<open>sendmsg\<close> of the listener and the client; the dispatcher installs a handler for
  it. The safety theorems name the crashes that are possible, and when. Uninitialised arrays
  get their content from the environment. Loops that end are recursive functions; the main loops, which need not
  end, and the receive loop are \<open>partial_function (option)\<close>s, with \<open>None\<close> for a run that goes
  on for ever. No fuel is used anywhere.

  \<^bold>\<open>The theories.\<close>
  \<^item> \<open>Prelude\<close>: outcomes and the reasoning about them (\<open>sat\<close>), byte buffers, \<^verbatim>\<open>memcmp\<close>.
  \<^item> \<open>AppConfig\<close> (\<^verbatim>\<open>ApplicationConfig.cpp\<close>), \<open>ConfigProtocol\<close> (the configuration text of
    \<^verbatim>\<open>mylsnr.cpp\<close> and \<^verbatim>\<open>processConfig\<close> of \<^verbatim>\<open>mydisp.cpp\<close>): the command line, the line loop as a fold over
    lines, the overflow of its line array, the round trip of the configuration.
  \<^item> \<open>SocketObj\<close>, \<open>SharedPtr\<close> (\<^verbatim>\<open>Socket.cpp\<close>, \<^verbatim>\<open>std::shared_ptr\<close>): the objects, \<open>owned w M\<close> (the
    owner counts in the heap are those of the multiset \<open>M\<close> of pointers), destruction.
  \<^item> \<open>SocketsList\<close> (\<^verbatim>\<open>SocketsList.h\<close>), \<open>SocketsPoller\<close> (\<^verbatim>\<open>SocketsPoller.cpp\<close>): the locales
    \<open>socket_container\<close> and \<open>sockets_poller\<close> state what the main loops rely on.
  \<^item> \<open>SslContext\<close> (\<^verbatim>\<open>InitSsl.cpp\<close>), \<open>SocketIO\<close> (\<^verbatim>\<open>SslSocket.cpp\<close>, \<^verbatim>\<open>read\<close> and \<^verbatim>\<open>write\<close> of
    \<^verbatim>\<open>SocketUtils.cpp\<close>), \<open>FdPassing\<close> (\<^verbatim>\<open>sendSocket\<close>, \<^verbatim>\<open>ReceivedTcpSocketFactory.cpp\<close>),
    with the two sides of the receive loop: when it returns, and when it never does.
  \<^item> \<open>SocketFactories\<close>: the other factories and \<^verbatim>\<open>acceptConnection\<close>; the locale \<open>socket_factory\<close>;
    which descriptors are closed when a factory fails.
  \<^item> \<open>MainLoop\<close>: the shape of the three main loops, with the locale \<open>main_loop\<close> for invariants.
  \<^item> \<open>Dispatcher\<close>, \<open>DispatcherSafety\<close>, \<open>DispatcherRun\<close>, \<open>DispatcherMain\<close>, \<open>DispatcherMessages\<close>,
    \<open>ClientSession\<close> (\<^verbatim>\<open>mydisp.cpp\<close>): the operations, memory safety of a round, of the loop and of
    the program, what each message of the listener does, the session of a client against an
    abstract machine.
  \<^item> \<open>Listener\<close>, \<open>ListenerSafety\<close>, \<open>ListenerProtocol\<close>, \<open>ListenerMain\<close> (\<^verbatim>\<open>mylsnr.cpp\<close>): the same for
    the listener, and what it says to whom; \<open>ListenerRounds\<close> has whole rounds of its loop, one
    that forwards a client and the one that SIGINT ends. \<open>DispatcherMail\<close> has what a dispatcher
    hears from the listener over a whole run.
  \<^item> \<open>ObjectRelation\<close>: the locales \<open>silent_relation\<close> and \<open>object_relation\<close> carry a relation between
    states from the elementary operations to the lists and the poller, without and with the
    writes to clients; the extensions \<open>handler_relation\<close>, \<open>process_relation\<close> (theory
    \<open>DispatcherSteps\<close>), \<open>service_relation\<close> and \<open>listener_relation\<close> (theory \<open>ListenerSteps\<close>) carry it on
    to a whole run. There are four such relations: what a client of the dispatcher hears
    (\<open>Conversation\<close>), what a dispatcher hears of the listener (\<open>DispatcherMail\<close>), what can
    happen to a socket over time (\<open>ObjectHistory\<close>, for the dispatcher \<open>SocketHistory\<close>) and how often
    a descriptor is opened, held and closed (\<open>Ledger\<close>, for the dispatcher \<open>DescriptorLedger\<close>).
    \<open>SocketMaking\<close> says how the factories and \<^verbatim>\<open>acceptConnection\<close> fit the last two, \<open>ListenerLedger\<close> what follows for the listener.
  \<^item> \<open>ListInvariant\<close>: the locale \<open>list_invariant\<close>, for properties of the dispatcher's list together
    with the objects in it. \<open>SessionTable\<close> is the abstract specification of the dispatcher, a
    table of sessions with identities and five steps, and the proof that the dispatcher refines
    it between any two points of a run;
    \<open>DispatcherRounds\<close> has whole rounds as a client sees them.
  \<^item> \<open>ProcessSystem\<close>: listeners and dispatchers side by side on one kernel, as a step relation
    that interleaves their turns, and what every process of such a system keeps, from its start
    and between any two points of the run.
  \<^item> \<open>Client\<close>, \<open>ClientRelay\<close> (\<^verbatim>\<open>myclnt.cpp\<close>): the client's round, loop and program, and what its
    loop relays between the user and the connection.
  \<^item> \<open>Replay\<close>: a concrete environment that answers calls from a list; the concrete runs
    (\<open>_witness\<close>) use it to show that the hypotheses of the theorems can hold.
  \<^item> This theory joins the two processes: a client on its way from the connection to the
    greeting, and a configuration on its way from the listener to the dispatcher.

  \<^bold>\<open>Bounds.\<close> They are the program's: 10 sockets in the dispatcher, 100 in the listener, 1024
  entries of \<^verbatim>\<open>poll\<close> (so its assertion never fails), 256 bytes of a configuration line (which
  do not suffice), 4096 of the configuration text.

  \<^bold>\<open>Not modelled.\<close> Logging (\<^verbatim>\<open>utils.cpp\<close>, spdlog) and the installation of signal handlers are left
  out; SIGINT is delivered to the listener between two rounds, where the loop looks at its
  flag. A \<^verbatim>\<open>for\<close> loop's copy of a shared pointer lives for one iteration, during which the list
  holds another, and is not counted. Memory does not run out, except where \<^verbatim>\<open>malloc\<close> is
  called and tested and where \<^verbatim>\<open>SSL_new\<close> fails; a null context given to
  \<^verbatim>\<open>SSL_CTX_use_certificate_chain_file\<close> is answered by the environment (OpenSSL 3 reports a
  failure). \<^verbatim>\<open>sleep\<close>, the byte order of ports and the initialisation calls of OpenSSL
  without a result have no effect here.
\<close>

section \<open>A client is served\<close>

text \<open>
  C5. From the connection to the greeting. Let a TLS client connect while the listener polls;
  let the kernel deliver the listener's message, with the descriptor it installed, to a
  dispatcher that has room; and let the client then say something other than goodbye. One
  round of the listener sends the client's descriptor to the dispatcher and closes its own
  copy; one round of the dispatcher makes a TLS socket on the installed descriptor and puts
  it at the end of its list; and in the round after that the client is greeted and from
  then on echoed.
\<close>

theorem client_served:
  assumes "listenerInv cfg t v s" "distinct (sockets (lstate.socketsList s))"
    and "i < length (sockets (lstate.socketsList s))" "sockets (lstate.socketsList s) ! i = p"
    and "\<forall>q \<in> set (sockets (lstate.socketsList s)). deref (lstate.world s) q = Inr (so q)"
    and "dynClass (so p) = TcpSslListenerSocket ctx" "socketType (so p) = TCP" "listenSocket (so p)"
    and "sendCmsg (lstate.world s)" "to \<in> set (dispatchersIn so (sockets (lstate.socketsList s)))"
    and "clientConnects S1 i fd"
    and "dispatcherInv u d" "distinct (sockets (dstate.socketsList d))" "sockets (dstate.socketsList d) = u # ps"
    and "length (sockets (dstate.socketsList d)) \<noteq> maxSize (dstate.socketsList d)"
    and "deref (dstate.world d) u = Inr su" "socketType su = UNIX" "recvCmsg (dstate.world d) \<noteq> None"
    and "clientArrives S2 (descriptor su) installed"
    and "\<forall>b. clientSpeaks S3 (Suc (length ps)) b bs n" "4 \<le> length bs" "take 4 bs \<noteq> ''EXIT''" "n \<noteq> -1"
  shows "\<exists>s' m d1 d2 c sc b. listenerRound S1 s = Inr s' \<and>
    {Io (EvSendmsg to [NUL, NUL] (Some fd) m), Io (EvClose fd)} \<subseteq> set (trace (lstate.world s')) \<and>
    dispatcherRound S2 u u d = Inr d1 \<and> dispatcherRound S3 u u d1 = Inr d2 \<and> \<not> dispatcherFailed d2 \<and>
    sockets (dstate.socketsList d2) = u # ps @ [c] \<and> deref (dstate.world d2) c = Inr sc \<and>
    descriptor sc = installed \<and> castSslSocket (dynClass sc) = Some b \<and> clientStatus sc = ECHO \<and>
    last (trace (dstate.world d2)) = Tls (EvBioWrite b (''HELLO!!!!'' @ [NL]) n)"
proof -
  let ?ds = "dispatchersIn so (sockets (lstate.socketsList s))"
  obtain s' gone fds r b0 ssl0 n0 ns where s': "listenerRound S1 s = Inr s'" "length ns = length ?ds"
    "trace (lstate.world s') = trace (lstate.world s) @ concat (map destroyEvents gone) @
      [Io (EvPoll fds r), Net (EvAccept (descriptor (so p)) fd),
      Tls (EvBioNew fd 0 b0), Tls (EvSslNew ctx ssl0), Tls (EvSslSetBio ssl0 b0), Tls (EvSslAccept ssl0 n0)] @
      map2 (\<lambda>d m. Io (EvSendmsg d [NUL, NUL] (Some fd) m)) ?ds ns @ [Io (EvClose fd)]"
    using listenerRound_forwards [OF assms(1-8,11,9)] by blast
  obtain j where j: "j < length ?ds" "?ds ! j = to" using assms(10) by (auto simp: in_set_conv_nth)
  then have "map2 (\<lambda>d m. Io (EvSendmsg d [NUL, NUL] (Some fd) m)) ?ds ns ! j = Io (EvSendmsg to [NUL, NUL] (Some fd) (ns ! j))"
    "j < length (map2 (\<lambda>d m. Io (EvSendmsg d [NUL, NUL] (Some fd) m)) ?ds ns)"
    using s'(2) by simp_all
  then have "Io (EvSendmsg to [NUL, NUL] (Some fd) (ns ! j)) \<in> set (map2 (\<lambda>d m. Io (EvSendmsg d [NUL, NUL] (Some fd) m)) ?ds ns)"
    by (metis nth_mem)
  then have sent: "{Io (EvSendmsg to [NUL, NUL] (Some fd) (ns ! j)), Io (EvClose fd)} \<subseteq> set (trace (lstate.world s'))"
    unfolding s'(3) by simp
  obtain d1 c b ssl where d1: "dispatcherRound S2 u u d = Inr d1"
    "dstate.socketsList d1 = (dstate.socketsList d)\<lparr>sockets := sockets (dstate.socketsList d) @ [c]\<rparr>"
    "deref (dstate.world d1) c = Inr \<lparr>dynClass = SslSocket b ssl, protectDescriptor = False, descriptor = installed,
      events = POLLOUT, revents = 0, socketType = SSL, listenSocket = False, clientStatus = HELLO\<rparr>"
    using dispatcherRound_takes [OF assms(12-19)] by blast
  have inv: "dispatcherInv u d1" using dispatcherRound_sat [OF assms(12), of S2] d1(1) by simp
  have di: "distinct (sockets (dstate.socketsList d1))" by (rule distinct.round [OF assms(13,12) d1(1)])
  have at: "Suc (length ps) < length (sockets (dstate.socketsList d1))"
    "sockets (dstate.socketsList d1) ! Suc (length ps) = c" using d1(2) assms(14) by (simp_all add: nth_append)
  have st: "HELLO = hears bs (clientStatus \<lparr>dynClass = SslSocket b ssl, protectDescriptor = False, descriptor = installed,
      events = POLLOUT, revents = 0, socketType = SSL, listenSocket = False, clientStatus = HELLO\<rparr>)"
    using assms(22) by (simp add: hears_def)
  from dispatcherRound_answers [OF inv di at d1(3) _ _ _ spec [OF assms(20), of b] assms(21) st _ assms(23)]
  obtain d2 g2 f2 r2 where d2: "dispatcherRound S3 u u d1 = Inr d2" "\<not> dispatcherFailed d2"
    "dstate.socketsList d2 = dstate.socketsList d1" "trace (dstate.world d2) = trace (dstate.world d1) @
      concat (map destroyEvents g2) @ [Io (EvPoll f2 r2), Tls (EvBioRead b 100 (Data bs)), Tls (EvBioWrite b (answers HELLO) n)]"
    "deref (dstate.world d2) c = Inr (\<lparr>dynClass = SslSocket b ssl, protectDescriptor = False, descriptor = installed,
      events = POLLOUT, revents = 0, socketType = SSL, listenSocket = False, clientStatus = HELLO\<rparr>
      \<lparr>clientStatus := afterAnswer HELLO, events := 0, revents := POLLOUT\<rparr>)" by auto
  have "last (trace (dstate.world d2)) = Tls (EvBioWrite b (''HELLO!!!!'' @ [NL]) n)" unfolding d2(4) by simp
  moreover have "sockets (dstate.socketsList d2) = u # ps @ [c]" using d2(3) d1(2) assms(14) by simp
  ultimately show ?thesis using s'(1) sent d1(1) d2(1,2,5)
    by (intro exI [of _ s'] exI [of _ "ns ! j"] exI [of _ d1] exI [of _ d2] exI [of _ c] exI exI [of _ b] conjI) auto
qed

text \<open>A dispatcher with nothing but its UNIX socket, and the environments of its two rounds.\<close>

definition exampleDispatcher :: "script dstate" where
  "exampleDispatcher = \<lparr>dispatcherFailed = False, socketsList = \<lparr>sockets = [1], maxSize = 10\<rparr>,
     reSocketsList = \<lparr>sockets = [], maxSize = 10\<rparr>,
     world = (exampleWorld [exampleSock 3 UNIX] [])\<lparr>heap := [1 \<mapsto> \<lparr>obj = exampleSock 3 UNIX, useCount = 3\<rparr>]\<rparr>\<rparr>"

definition arrivingSys :: "script sys" where
  "arrivingSys = replay\<lparr>
     sys_poll := (\<lambda>fds k. (\<lparr>pollRet = 1, pollErrno = 0, pollRevents = (\<lambda>j. if j = 0 then POLLIN else 0)\<rparr>, k)),
     sys_recv := (\<lambda>fd n flags k. (Data [NUL, NUL], k)), sys_recvmsg := (\<lambda>fd n k. ((Data [NUL, NUL], Some 9), k)),
     SSL_new := (\<lambda>ctx k. (30, k))\<rparr>"

definition chattingSys :: "script sys" where
  "chattingSys = replay\<lparr>
     sys_poll := (\<lambda>fds k. (\<lparr>pollRet = 1, pollErrno = 0, pollRevents = (\<lambda>j. if j = 1 then POLLIN else 0)\<rparr>, k)),
     BIO_read := (\<lambda>b n k. (Data ''ping'', k)), BIO_write := (\<lambda>b m k. (10, k))\<rparr>"

theorem client_served_witness:
  "\<exists>s' m d1 d2 c sc b. listenerRound connectingSys exampleListener = Inr s' \<and>
    {Io (EvSendmsg 7 [NUL, NUL] (Some 6) m), Io (EvClose 6)} \<subseteq> set (trace (lstate.world s')) \<and>
    dispatcherRound arrivingSys 1 1 exampleDispatcher = Inr d1 \<and> dispatcherRound chattingSys 1 1 d1 = Inr d2 \<and>
    \<not> dispatcherFailed d2 \<and> sockets (dstate.socketsList d2) = [1] @ [c] \<and> deref (dstate.world d2) c = Inr sc \<and>
    descriptor sc = 9 \<and> castSslSocket (dynClass sc) = Some b \<and> clientStatus sc = ECHO \<and>
    last (trace (dstate.world d2)) = Tls (EvBioWrite b (''HELLO!!!!'' @ [NL]) 10)"
proof -
  let ?so = "(\<lambda>q :: ptr. exampleSock 7 UNIX)(1 := exampleTls, 2 := exampleUnix)"
  note ls = exampleListener_def exampleTls_def exampleUnix_def exampleSock_def
  have l: "distinct (sockets (lstate.socketsList exampleListener))" "0 < length (sockets (lstate.socketsList exampleListener))"
    "sockets (lstate.socketsList exampleListener) ! 0 = 1"
    "\<forall>q \<in> set (sockets (lstate.socketsList exampleListener)). deref (lstate.world exampleListener) q = Inr (?so q)"
    "dynClass (?so 1) = TcpSslListenerSocket 9" "socketType (?so 1) = TCP" "listenSocket (?so 1)"
    "sendCmsg (lstate.world exampleListener)" "7 \<in> set (dispatchersIn ?so (sockets (lstate.socketsList exampleListener)))"
    by (simp_all add: ls deref_def dispatchersIn_def)
  have e1: "clientConnects connectingSys 0 6"
    by (simp add: clientConnects_def onlyReady_def connectingSys_def replay_def)
  have inv: "dispatcherInv 1 exampleDispatcher"
    by (simp add: exampleDispatcher_def dispatcherInv_def owned_def ownersOf_def listOk_def MAX_SOCKETS_def)
  have d: "distinct (sockets (dstate.socketsList exampleDispatcher))" "sockets (dstate.socketsList exampleDispatcher) = 1 # []"
    "length (sockets (dstate.socketsList exampleDispatcher)) \<noteq> maxSize (dstate.socketsList exampleDispatcher)"
    "deref (dstate.world exampleDispatcher) 1 = Inr (exampleSock 3 UNIX)" "socketType (exampleSock 3 UNIX) = UNIX"
    "recvCmsg (dstate.world exampleDispatcher) \<noteq> None"
    by (simp_all add: exampleDispatcher_def deref_def exampleSock_def exampleWorld_def)
  have e2: "clientArrives arrivingSys (descriptor (exampleSock 3 UNIX)) 9"
    by (simp add: clientArrives_def onlyReady_def arrivingSys_def)
  have e3: "\<forall>b. clientSpeaks chattingSys (Suc (length [])) b ''ping'' 10"
    by (simp add: clientSpeaks_def onlyReady_def chattingSys_def)
  have t: "4 \<le> length ''ping''" "take 4 ''ping'' \<noteq> ''EXIT''" "(10 :: int) \<noteq> -1" by simp_all
  from client_served [OF exampleListener_inv l e1 inv d e2 e3 t] show ?thesis by simp
qed

section \<open>A dispatcher gets its configuration\<close>

text \<open>The dispatcher's side of a label and text that are read in one piece.\<close>

lemma dispatcherProcess_config:
  assumes "deref v u = Inr su" "\<not> isDropped su" "carries cfg" "- (2 ^ 31) \<le> pid" "pid < 2 ^ 31"
    and bytes: "bytes = ''CONFIG'' @ formatConfig pid cfg"
    and "sys_recv S (descriptor su) 200 MSG_PEEK (kern v) = (Data (take 200 bytes), k1)"
    and "sys_recv S (descriptor su) 4096 0 k1 = (Data bytes, k2)"
    and v2: "v2 = logCall (Io (EvRecv (descriptor su) 4096 0 (Data bytes))) k2
      (logCall (Io (EvRecv (descriptor su) 200 MSG_PEEK (Data (take 200 bytes)))) k1 v)"
  shows "dispatcherProcess S u f l v =
    (case createContext S (caFile cfg) (certFile cfg) (keyFile cfg) ''1q2w3e4r''
        (v2\<lparr>appCfg := withFiles cfg (appCfg v)\<rparr>) of (r, v3) \<Rightarrow> Inr (r = 0, l, v3))"
proof -
  have len: "6 \<le> length bytes" "bytes \<noteq> []" using bytes by auto
  have peeked: "take 6 (take 200 bytes) = ''CONFIG''" using bytes by simp
  have mem: "memeq (overlay (take 200 bytes) xs) ''CONFIG''" for xs
    using peeked len by (simp add: memeq_def numeral_eq_Suc)
  have n: "length (take 200 bytes) \<noteq> 2" "take 200 bytes \<noteq> []" using len by auto
  let ?buf = "overlay bytes (freshArray S ''configBuffer'' 4096
      (logCall (Io (EvRecv (descriptor su) 200 MSG_PEEK (Data (take 200 bytes)))) k1 v))"
  have buf: "length bytes \<le> length ?buf" "take (length bytes) ?buf = bytes" by (simp_all add: overlay_def)
  have app: "applyLines (completeLines bytes) c = Inr (withFiles cfg c)" for c
    unfolding bytes by (rule applyLines_formatConfig [OF assms(3-5)])
  have "processConfig S ?buf (length bytes) v2 =
    (case createContext S (caFile cfg) (certFile cfg) (keyFile cfg) ''1q2w3e4r''
            (v2\<lparr>appCfg := withFiles cfg (appCfg v2)\<rparr>) of (r, w1) \<Rightarrow> Inr (r = 0, w1))"
    using processConfig_lines [OF buf(1), of S v2] by (simp only: buf(2) app andThen.simps) (simp add: withFiles_def)
  moreover have "appCfg v2 = appCfg v" by (simp add: v2)
  ultimately show ?thesis
    using assms(1,2,7,8) mem n
    by (simp add: dispatcherProcess_def k_recv_def Let_def receiveConfig_def v2 split: prod.splits)
qed

lemma formatConfig_fits:
  assumes "carries cfg" "- (2 ^ 31) \<le> pid" "pid < 2 ^ 31"
  shows "length (formatConfig pid cfg) < 4096"
proof -
  have len: "length (cstr xs) \<le> length xs" for xs by (simp add: cstr_def length_takeWhile_le)
  have "length (showInt pid) \<le> 11" using showInt_length assms(2,3) by blast
  then show ?thesis
    using assms(1) len [of "caFile cfg"] len [of "certFile cfg"] len [of "keyFile cfg"]
    by (simp add: formatConfig_def carries_def)
qed

text \<open>
  C14. A dispatcher gets its configuration. When a dispatcher connects to the listener and there
  is room, the listener makes two writes to it; when the dispatcher reads the bytes of both
  in one piece, it ends up with the listener's files and creates its TLS context from them,
  whatever configuration it had. Neither write raises SIGPIPE here. The text always fits the listener's buffer.
\<close>

theorem config_delivered:
  assumes "acceptConnection S1 p w = Inr (c, w1)" "c \<noteq> nullptr"
    and "owned w1 (mset (sockets l) + add_mset c M)" "deref w1 c = Inr sc"
    and "length (sockets l) \<noteq> maxSize l" "carries (appCfg w1)"
    and "sys_write S1 (descriptor sc) ''CONFIG'' (kern w1) = (6, k1)"
    and "pid = sys_getpid S1 k1" "0 \<le> pid" "pid < 2 ^ 31" "text = formatConfig pid (appCfg w1)"
    and "sys_write S1 (descriptor sc) text k1 = (n2, k2)" "0 \<le> n2" "\<not> sys_sigpipe S1 k1" "\<not> sys_sigpipe S1 k2"
    and "deref v u = Inr su" "\<not> isDropped su"
    and "sys_recv S (descriptor su) 200 MSG_PEEK (kern v) = (Data (take 200 (''CONFIG'' @ text)), k3)"
    and "sys_recv S (descriptor su) 4096 0 k3 = (Data (''CONFIG'' @ text), k4)"
    and "v2 = logCall (Io (EvRecv (descriptor su) 4096 0 (Data (''CONFIG'' @ text)))) k4
      (logCall (Io (EvRecv (descriptor su) 200 MSG_PEEK (Data (take 200 (''CONFIG'' @ text))))) k3 v)"
  shows "(\<exists>w'. processDispatcherConnection S1 p l w = Inr (True, l\<lparr>sockets := sockets l @ [c]\<rparr>, w') \<and>
      trace w' = trace w1 @ [Io (EvWrite (descriptor sc) ''CONFIG'' 6), Io (EvWrite (descriptor sc) text n2)]) \<and>
    dispatcherProcess S u f dl v =
      (case createContext S (caFile (appCfg w1)) (certFile (appCfg w1)) (keyFile (appCfg w1)) ''1q2w3e4r''
          (v2\<lparr>appCfg := withFiles (appCfg w1) (appCfg v)\<rparr>) of (r, v3) \<Rightarrow> Inr (r = 0, dl, v3))"
proof
  have pid: "- (2 ^ 31) \<le> pid" using assms(9) by simp
  have "length text < 4096" using formatConfig_fits [OF assms(6) pid assms(10)] assms(11) by simp
  then show "\<exists>w'. processDispatcherConnection S1 p l w = Inr (True, l\<lparr>sockets := sockets l @ [c]\<rparr>, w') \<and>
      trace w' = trace w1 @ [Io (EvWrite (descriptor sc) ''CONFIG'' 6), Io (EvWrite (descriptor sc) text n2)]"
    using processDispatcherConnection_known [OF assms(1-5,7), of "text" n2 k2] assms(8,11-15) by auto
  show "dispatcherProcess S u f dl v =
      (case createContext S (caFile (appCfg w1)) (certFile (appCfg w1)) (keyFile (appCfg w1)) ''1q2w3e4r''
          (v2\<lparr>appCfg := withFiles (appCfg w1) (appCfg v)\<rparr>) of (r, v3) \<Rightarrow> Inr (r = 0, dl, v3))"
    using dispatcherProcess_config [OF assms(16,17,6) pid assms(10) _ assms(18,19,20)] assms(11) by blast
qed

definition exampleMessage :: string where
  "exampleMessage = formatConfig 4711 exampleConfig"

theorem config_delivered_witness:
  "(\<exists>w'. processDispatcherConnection replay 1 \<lparr>sockets = [1], maxSize = 100\<rparr>
      ((exampleWorld [(exampleSock 4 UNIX)\<lparr>dynClass := UnixListenerSocket ''s'', listenSocket := True\<rparr>]
        [ARet 6, ARet 6, ARet 40])\<lparr>appCfg := exampleConfig\<rparr>) =
      Inr (True, \<lparr>sockets = [1, 2], maxSize = 100\<rparr>, w')) \<and>
   (\<exists>v3. dispatcherProcess replay 1 1 (newSocketsList 10) (exampleWorld [exampleSock 3 UNIX]
       [AIo (Data (take 200 (''CONFIG'' @ exampleMessage))), AIo (Data (''CONFIG'' @ exampleMessage)),
        AHandle 7, ARet 1, ARet 1, ARet 1]) = Inr (True, newSocketsList 10, v3) \<and>
      caFile (appCfg v3) = ''ca-web.crt'')"
proof -
  let ?lst = "(exampleSock 4 UNIX)\<lparr>dynClass := UnixListenerSocket ''s'', listenSocket := True\<rparr>"
  let ?w = "(exampleWorld [?lst] [ARet 6, ARet 6, ARet 40])\<lparr>appCfg := exampleConfig\<rparr>"
  let ?ctx = "[AHandle 7, ARet 1, ARet 1, ARet 1]"
  let ?bytes = "''CONFIG'' @ exampleMessage"
  let ?v = "exampleWorld [exampleSock 3 UNIX] (AIo (Data (take 200 ?bytes)) # AIo (Data ?bytes) # ?ctx)"
  have own: "owned ?w {#1#}" by (auto simp: owned_def ownersOf_def)
  obtain w1 where w1: "acceptConnection replay 1 ?w = Inr (2, w1)" "deref w1 2 = Inr (exampleSock 6 UNIX)"
    "kern w1 = [ARet 6, ARet 40]" "appCfg w1 = exampleConfig"
    by (auto simp: acceptConnection_def deref_def acceptPlain_def call_defs replay_def makeObject_def
        newSocket_def FREE_SOCKET_def NO_EVENTS_def makeShared_def exampleSock_def exampleWorld_def
        logCall_def startWorld_def numeral_2_eq_2)
  have o1: "owned w1 (mset [1] + add_mset 2 {#})"
    using acceptConnection_sat [OF own, of 1 ?lst replay UNIV] w1(1) by (simp add: deref_def)
  have d: "deref ?v 1 = Inr (exampleSock 3 UNIX)" "\<not> isDropped (exampleSock 3 UNIX)"
    by (simp_all add: deref_def exampleSock_def isDropped_def)
  define k4 where "k4 = ?ctx"
  let ?v2 = "logCall (Io (EvRecv 3 4096 0 (Data ?bytes))) k4
      (logCall (Io (EvRecv 3 200 MSG_PEEK (Data (take 200 ?bytes)))) (AIo (Data ?bytes) # k4) ?v)"
  have car: "carries (appCfg w1)" using exampleConfig_carries w1(4) by simp
  have desc: "descriptor (exampleSock 3 UNIX) = 3" "descriptor (exampleSock 6 UNIX) = 6"
    by (simp_all add: exampleSock_def)
  have calls: "sys_write replay (descriptor (exampleSock 6 UNIX)) ''CONFIG'' (kern w1) = (6, [ARet 40])"
    "4711 = sys_getpid replay [ARet 40]"
    "sys_write replay (descriptor (exampleSock 6 UNIX)) exampleMessage [ARet 40] = (40, [])"
    "sys_recv replay (descriptor (exampleSock 3 UNIX)) 200 MSG_PEEK (kern ?v) =
      (Data (take 200 ?bytes), AIo (Data ?bytes) # k4)"
    "sys_recv replay (descriptor (exampleSock 3 UNIX)) 4096 0 (AIo (Data ?bytes) # k4) = (Data ?bytes, k4)"
    using w1(3) by (simp_all add: replay_def exampleWorld_def startWorld_def k4_def)
  have msg: "exampleMessage = formatConfig 4711 (appCfg w1)" by (simp add: exampleMessage_def w1(4))
  have room: "length (sockets \<lparr>sockets = [1], maxSize = 100\<rparr>) \<noteq> maxSize \<lparr>sockets = [1], maxSize = 100\<rparr>" by simp
  have own1: "owned w1 (mset (sockets \<lparr>sockets = [1], maxSize = 100\<rparr>) + add_mset 2 {#})" using o1 by simp
  have two: "2 \<noteq> nullptr" by simp
  have v2: "?v2 = logCall (Io (EvRecv (descriptor (exampleSock 3 UNIX)) 4096 0 (Data ?bytes))) k4
      (logCall (Io (EvRecv (descriptor (exampleSock 3 UNIX)) 200 MSG_PEEK (Data (take 200 ?bytes))))
        (AIo (Data ?bytes) # k4) ?v)" by (simp add: desc)
  have pipe: "\<not> sys_sigpipe replay k" for k by (simp add: replay_def)
  note both = config_delivered [OF w1(1) two own1 w1(2) room car calls(1,2) _ _ msg calls(3) _ pipe pipe d calls(4,5) v2,
      of 1 "newSocketsList 10"]
  have ctx: "\<exists>v3. createContext replay c1 c2 c3 pw (?v2\<lparr>appCfg := cfg\<rparr>) = (0, v3) \<and> appCfg v3 = cfg" for c1 c2 c3 pw cfg
    by (simp add: createContext_def call_defs replay_def k4_def exampleWorld_def startWorld_def)
  obtain v3 where v3: "createContext replay (caFile exampleConfig) (certFile exampleConfig)
      (keyFile exampleConfig) ''1q2w3e4r'' (?v2\<lparr>appCfg := withFiles exampleConfig (appCfg ?v)\<rparr>) = (0, v3)"
    "appCfg v3 = withFiles exampleConfig (appCfg ?v)" using ctx by blast
  have "dispatcherProcess replay 1 1 (newSocketsList 10) ?v = Inr (True, newSocketsList 10, v3)"
    using conjunct2 [OF both] v3(1) w1(4) by simp
  moreover have "caFile (appCfg v3) = ''ca-web.crt''" using v3(2) by (simp add: withFiles_def exampleConfig_def)
  moreover have "\<exists>w'. processDispatcherConnection replay 1 \<lparr>sockets = [1], maxSize = 100\<rparr> ?w =
      Inr (True, \<lparr>sockets = [1, 2], maxSize = 100\<rparr>, w')" using conjunct1 [OF both] by auto
  ultimately show ?thesis by (simp add: k4_def)
qed

end
